(* ===== verification/Prelude.thy ===== *)
theory Prelude
  imports Main "HOL-Library.Word"
begin

text \<open>
  Shared vocabulary of the development: machine integers at their width, the
  C return-code convention, and generic lemmas on words and lists that the
  component theories use.

  \<^item> \<open>uint8_t\<close>, \<open>uint16_t\<close> and \<open>uint32_t\<close> are words, so that \<open>+\<close>, \<open>-\<close>, \<open>*\<close>
    wrap as they do in C. \<open>int32_t\<close> values are integers together with the range
    predicate \<open>int32\<close>; that the signed arithmetic of the code never leaves the
    range (which would be undefined behaviour) is proved, not assumed.
  \<^item> A C function that returns a non-negative value or \<open>-errno\<close> has a result of type
    \<open>cret\<close>: \<open>Ret n\<close> is \<open>n\<close>, \<open>Err e\<close> is \<open>-e\<close>. \<open>EOTHER\<close> stands for the error numbers
    that this program never tests by name.
\<close>

type_synonym u8 = "8 word"
type_synonym u16 = "16 word"
type_synonym u32 = "32 word"

datatype errno =
    ENOENT | EIO | E2BIG | ENOMEM | EACCES | EBUSY | EINVAL | ENOSPC | EMSGSIZE
  | ENOTSUP | EALREADY | ENOTCONN | ECANCELED | ETIMEDOUT | ENOMSG | EOTHER nat

datatype cret = Ret nat | Err errno

abbreviation ok :: cret where "ok \<equiv> Ret 0"

definition int32 :: "int \<Rightarrow> bool" where
  "int32 i \<longleftrightarrow> - (2 ^ 31) \<le> i \<and> i < 2 ^ 31"

definition INT32_MAX :: int where "INT32_MAX = 2 ^ 31 - 1"
definition INT32_MIN :: int where "INT32_MIN = - (2 ^ 31)"

unbundle bit_operations_syntax

named_theorems button_bits \<open>bitwise readings of the button words\<close>

subsection \<open>Bits of small masks\<close>

lemma bit_0x1f [button_bits]: "bit (0x1f :: u8) n \<longleftrightarrow> n < 5"
proof -
  have "(0x1f :: u8) = mask 5" by (simp add: mask_eq_exp_minus_1)
  then have "bit (0x1f :: u8) n = bit (mask 5 :: u8) n" by (simp only:)
  then show ?thesis by (auto simp: bit_mask_iff)
qed

lemma bit_31_int [button_bits]: "bit (31 :: int) n \<longleftrightarrow> n < 5"
proof -
  have "(31 :: int) = mask 5" by (simp add: mask_eq_exp_minus_1)
  then have "bit (31 :: int) n = bit (mask 5 :: int) n" by (simp only:)
  then show ?thesis by (auto simp: bit_mask_iff)
qed

lemma bit_NOT_u8 [button_bits]: "bit (NOT (a :: u8)) n \<longleftrightarrow> n < 8 \<and> \<not> bit a n"
  by (simp add: bit_simps)

lemma bit_u8_bound: "bit (a :: u8) n \<Longrightarrow> n < 8"
  using bit_imp_le_length by fastforce

lemma u8_subset_iff: "(a AND NOT b = (0 :: u8)) \<longleftrightarrow> (\<forall>n. bit a n \<longrightarrow> bit b n)"
  by (auto simp: bit_eq_iff bit_and_iff bit_NOT_u8 dest: bit_u8_bound)

lemma bit_button: "n < 8 \<Longrightarrow> bit ((2 :: u8) ^ n) k \<longleftrightarrow> k = n"
  by (auto simp: bit_exp_iff)

text \<open>The C idiom \<open>x & BIT(n)\<close>.\<close>

lemma and_BIT: "a AND push_bit n 1 = (0 :: 'a :: len word) \<longleftrightarrow> \<not> bit a n"
  using and_exp_eq_0_iff_not_bit [of a n] by (simp add: push_bit_eq_mult)

lemmas [button_bits] = bit_and_iff bit_or_iff bit_0_eq

subsection \<open>Reading and converting words\<close>

lemma unat_u8: "unat (w :: u8) < 2 ^ 8"
proof -
  have "unat w < 2 ^ LENGTH(8)" by (rule unsigned_less)
  then show ?thesis by simp
qed

lemma unat_u32: "unat (w :: u32) < 2 ^ 32"
proof -
  have "unat w < 2 ^ LENGTH(32)" by (rule unsigned_less)
  then show ?thesis by simp
qed

lemma unat_ucast_small:
  "unat w < 2 ^ LENGTH('b) \<Longrightarrow> unat (ucast w :: 'b :: len word) = unat w"
  by (simp add: unsigned_ucast_eq take_bit_nat_eq_self)

subsection \<open>Little-endian byte strings\<close>

text \<open>The integer that a byte string denotes, least significant byte first.\<close>

primrec le_int :: "u8 list \<Rightarrow> int" where
  "le_int [] = 0"
| "le_int (b # bs) = uint b + 256 * le_int bs"

lemma le_int_Cons_bits: "le_int (b # bs) = uint b OR push_bit 8 (le_int bs)"
proof -
  have "uint b AND push_bit 8 (le_int bs) = 0"
    by (rule bit_eqI) (auto simp: bit_and_iff bit_push_bit_iff bit_uint_iff)
  then have "uint b + push_bit 8 (le_int bs) = uint b OR push_bit 8 (le_int bs)"
    by (simp add: disjunctive_add_eq_or)
  then show ?thesis by (simp add: push_bit_eq_mult)
qed

lemma bit_le_int: "bit (le_int bs) n \<longleftrightarrow> n div 8 < length bs \<and> bit (bs ! (n div 8)) (n mod 8)"
proof (induction bs arbitrary: n)
  case (Cons b bs)
  show ?case
  proof (cases "n < 8")
    case True
    then show ?thesis unfolding le_int_Cons_bits
      by (simp add: bit_or_iff bit_push_bit_iff bit_uint_iff)
  next
    case False
    then obtain m where n: "n = 8 + m" using le_Suc_ex not_less by blast
    show ?thesis unfolding le_int_Cons_bits
      by (simp add: n bit_or_iff bit_push_bit_iff bit_uint_iff Cons.IH div_add_self1)
  qed
qed simp

lemma le_int_range: "0 \<le> le_int bs \<and> le_int bs < 256 ^ length bs"
proof (induction bs)
  case (Cons b bs)
  have "0 \<le> uint b" "uint b < 256" using uint_bounded [of b] by auto
  with Cons show ?case by auto
qed simp

subsection \<open>Two's complement\<close>

lemma xor_exp_eq:
  fixes v :: int
  assumes "0 \<le> v" and "v < 2 ^ Suc k"
  shows "(v XOR 2 ^ k) - 2 ^ k = signed_take_bit k v"
proof -
  have t: "take_bit (Suc k) v = v" using assms by (simp add: take_bit_int_eq_self)
  have s: "signed_take_bit k v = v - 2 ^ Suc k * of_bool (bit v k)"
    using t by (simp add: signed_take_bit_eq_take_bit_minus)
  have f: "v XOR 2 ^ k = flip_bit k v" by (simp add: flip_bit_eq_xor push_bit_eq_mult)
  show ?thesis
    by (cases "bit v k") (simp_all add: s f flip_bit_eq_if unset_bit_eq set_bit_eq)
qed

lemma sint_eq_uint_small: "uint (v :: u32) < 2 ^ 31 \<Longrightarrow> sint v = uint v"
  using signed_take_bit_int_eq_self [of 31 "uint v"] uint_nonnegative [of v]
  by (simp add: sint_uint)

subsection \<open>Lists\<close>

lemma snoc_eq_replicate:
  assumes "xs @ [x] = replicate k y"
  obtains j where "k = Suc j" and "x = y" and "xs = replicate j y"
proof (cases k)
  case 0
  then show ?thesis using assms by simp
next
  case (Suc j)
  then have "xs @ [x] = replicate j y @ [y]" using assms by (simp add: replicate_append_same)
  then show ?thesis using Suc that by simp
qed

end
