(* ===== verification/Hid_Map.thy ===== *)
theory Hid_Map
  imports Prelude
begin

text \<open>
  The data of the HID parser (\<open>include/ble_mouse/hid_parser.h\<close>) and the lookup
  \<open>mouse_hid_report_index\<close> shared by parser, decoder and BLE client.

  A C array with its element count (\<open>reports\<close> with \<open>report_count\<close>, \<open>fields\<close> with
  \<open>field_count\<close>) is the list of the elements in use: the parser zeroes the map first,
  only ever appends, and no code reads past the count. Capacity checks compare the
  length of the list.
\<close>

section \<open>Types\<close>

definition MOUSE_HID_MAX_REPORTS :: nat where "MOUSE_HID_MAX_REPORTS = 8"
definition MOUSE_HID_MAX_FIELDS :: nat where "MOUSE_HID_MAX_FIELDS = 48"
definition MOUSE_HID_MAX_REPORT_BYTES :: nat where "MOUSE_HID_MAX_REPORT_BYTES = 64"
definition MOUSE_HID_MAX_MAP_BYTES :: nat where "MOUSE_HID_MAX_MAP_BYTES = 1024"

lemmas hid_limits = MOUSE_HID_MAX_REPORTS_def MOUSE_HID_MAX_FIELDS_def
  MOUSE_HID_MAX_REPORT_BYTES_def MOUSE_HID_MAX_MAP_BYTES_def

datatype mouse_hid_usage = MOUSE_X | MOUSE_Y | MOUSE_WHEEL | MOUSE_PAN | MOUSE_BUTTON

record mouse_hid_field =
  f_bit :: u16
  f_size :: u8
  f_report :: u8
  f_usage :: mouse_hid_usage
  f_button :: u8
  f_signed :: bool

record mouse_hid_report =
  r_bits :: u16
  r_id :: u8
  r_buttons :: u8
  r_useful :: bool

record mouse_hid_map =
  m_reports :: "mouse_hid_report list"
  m_fields :: "mouse_hid_field list"
  m_buttons :: u8
  m_x :: bool
  m_y :: bool
  m_wheel :: bool
  m_pan :: bool

record mouse_hid_frame =
  fr_x :: int
  fr_y :: int
  fr_wheel :: int
  fr_pan :: int
  fr_buttons :: u8
  fr_buttons_present :: u8

text \<open>The maps and frames that \<open>memset(.., 0, ..)\<close> leaves.\<close>

definition empty_map :: mouse_hid_map where
  "empty_map = \<lparr>m_reports = [], m_fields = [], m_buttons = 0,
     m_x = False, m_y = False, m_wheel = False, m_pan = False\<rparr>"

definition empty_frame :: mouse_hid_frame where
  "empty_frame = \<lparr>fr_x = 0, fr_y = 0, fr_wheel = 0, fr_pan = 0,
     fr_buttons = 0, fr_buttons_present = 0\<rparr>"

definition new_report :: "u8 \<Rightarrow> mouse_hid_report" where
  "new_report i = \<lparr>r_bits = 0, r_id = i, r_buttons = 0, r_useful = False\<rparr>"

section \<open>Looking a report up\<close>

fun report_index_from :: "mouse_hid_report list \<Rightarrow> u8 \<Rightarrow> nat \<Rightarrow> cret" where
  "report_index_from [] ident i = Err ENOENT"
| "report_index_from (r # rs) ident i =
     (if r_id r = ident then Ret i else report_index_from rs ident (Suc i))"

definition mouse_hid_report_index :: "mouse_hid_map \<Rightarrow> u8 \<Rightarrow> cret" where
  "mouse_hid_report_index m ident = report_index_from (m_reports m) ident 0"

lemma report_index_from_Ret:
  "report_index_from rs ident k = Ret i \<Longrightarrow> k \<le> i \<and> i - k < length rs \<and> r_id (rs ! (i - k)) = ident"
proof (induction rs arbitrary: k)
  case (Cons r rs)
  show ?case
  proof (cases "r_id r = ident")
    case False
    with Cons have "Suc k \<le> i \<and> i - Suc k < length rs \<and> r_id (rs ! (i - Suc k)) = ident"
      by simp
    then show ?thesis by (auto simp: nth_Cons' )
  qed (use Cons.prems in auto)
qed simp

lemma report_index_from_cases:
  "report_index_from rs ident k = Err ENOENT \<and> ident \<notin> r_id ` set rs \<or>
   (\<exists>i. report_index_from rs ident k = Ret i \<and> ident \<in> r_id ` set rs)"
  by (induction rs arbitrary: k) auto

lemma report_index_Ret:
  "mouse_hid_report_index m ident = Ret i \<Longrightarrow> i < length (m_reports m) \<and> r_id (m_reports m ! i) = ident"
  using report_index_from_Ret [of "m_reports m" ident 0 i] by (simp add: mouse_hid_report_index_def)

lemma report_index_Err:
  "mouse_hid_report_index m ident = Err e \<longleftrightarrow> e = ENOENT \<and> ident \<notin> r_id ` set (m_reports m)"
  using report_index_from_cases [of "m_reports m" ident 0]
  by (auto simp: mouse_hid_report_index_def)

lemma report_index_cases:
  obtains (found) i where "mouse_hid_report_index m ident = Ret i"
      and "i < length (m_reports m)" and "r_id (m_reports m ! i) = ident"
  | (missing) "mouse_hid_report_index m ident = Err ENOENT" and "ident \<notin> r_id ` set (m_reports m)"
  using report_index_from_cases [of "m_reports m" ident 0] report_index_Ret [of m ident]
  by (auto simp: mouse_hid_report_index_def)

section \<open>Well-formed maps\<close>

text \<open>The bits a field occupies inside its report, and the report it belongs to.\<close>

abbreviation f_end :: "mouse_hid_field \<Rightarrow> nat" where
  "f_end f \<equiv> unat (f_bit f) + unat (f_size f)"

abbreviation rep_of :: "mouse_hid_map \<Rightarrow> mouse_hid_field \<Rightarrow> mouse_hid_report" where
  "rep_of m f \<equiv> m_reports m ! unat (f_report f)"

definition field_wf :: "mouse_hid_map \<Rightarrow> mouse_hid_field \<Rightarrow> bool" where
  "field_wf m f \<longleftrightarrow>
     unat (f_report f) < length (m_reports m) \<and>
     0 < unat (f_size f) \<and> unat (f_size f) \<le> 32 \<and>
     f_end f \<le> unat (r_bits (rep_of m f)) \<and>
     r_useful (rep_of m f) \<and>
     unat (f_button f) < 5 \<and>
     (f_usage f = MOUSE_BUTTON \<longrightarrow>
        bit (r_buttons (rep_of m f)) (unat (f_button f)) \<and> bit (m_buttons m) (unat (f_button f)))"

definition before :: "mouse_hid_field \<Rightarrow> mouse_hid_field \<Rightarrow> bool" where
  "before f g \<longleftrightarrow> (f_report f = f_report g \<longrightarrow> f_end f \<le> unat (f_bit g))"

definition map_wf :: "mouse_hid_map \<Rightarrow> bool" where
  "map_wf m \<longleftrightarrow>
     length (m_reports m) \<le> MOUSE_HID_MAX_REPORTS \<and>
     length (m_fields m) \<le> MOUSE_HID_MAX_FIELDS \<and>
     distinct (map r_id (m_reports m)) \<and>
     (\<forall>r \<in> set (m_reports m). unat (r_bits r) \<le> MOUSE_HID_MAX_REPORT_BYTES * 8) \<and>
     (\<forall>f \<in> set (m_fields m). field_wf m f) \<and>
     sorted_wrt before (m_fields m)"

lemma map_wf_empty [simp]: "map_wf empty_map"
  by (simp add: map_wf_def empty_map_def)

lemma map_wfD:
  assumes "map_wf m"
  shows "length (m_reports m) \<le> 8" and "length (m_fields m) \<le> 48"
    and "i < length (m_reports m) \<Longrightarrow> unat (r_bits (m_reports m ! i)) \<le> 512"
    and "f \<in> set (m_fields m) \<Longrightarrow> field_wf m f"
  using assms by (auto simp: map_wf_def hid_limits)

end
