(* ===== verification/Hid_Parser.thy ===== *)
theory Hid_Parser
  imports Hid_Map
begin

text \<open>
  The report-descriptor parser of \<open>src/hid_parser.c\<close>: \<open>mouse_hid_parse\<close> and the
  static helpers it uses. The local variables of the C function are the record
  \<open>parser\<close>; the arrays \<open>stack\<close> and \<open>collections\<close> with their depths are lists whose
  head is the top; the remaining input \<open>data + offset\<close> is the list of unread bytes.
  Every early \<open>return -E..\<close> is an \<open>Err\<close> value, paired with the state reached so far,
  because the caller keeps the partially filled map.
\<close>

section \<open>The code\<close>

definition STACK_DEPTH :: nat where "STACK_DEPTH = 8"
definition LOCAL_USAGES :: nat where "LOCAL_USAGES = 32"

record global_state =
  g_page :: u32
  g_size :: u32
  g_count :: u32
  g_minimum :: int
  g_id :: u8

record local_state =
  l_usages :: "u32 list"
  l_minimum :: u32
  l_maximum :: u32
  l_has_minimum :: bool
  l_has_maximum :: bool

definition zero_global :: global_state where
  "zero_global = \<lparr>g_page = 0, g_size = 0, g_count = 0, g_minimum = 0, g_id = 0\<rparr>"

definition zero_local :: local_state where
  "zero_local = \<lparr>l_usages = [], l_minimum = 0, l_maximum = 0,
     l_has_minimum = False, l_has_maximum = False\<rparr>"

text \<open>\<open>unsigned_item(data, size)\<close> on the \<open>size\<close> bytes at \<open>data\<close>.\<close>

fun unsigned_item_from :: "nat \<Rightarrow> u32 \<Rightarrow> u8 list \<Rightarrow> u32" where
  "unsigned_item_from i result [] = result"
| "unsigned_item_from i result (b # bs) =
     unsigned_item_from (Suc i) (result OR push_bit (8 * i) (ucast b)) bs"

definition unsigned_item :: "u8 list \<Rightarrow> u32" where
  "unsigned_item bytes = unsigned_item_from 0 0 bytes"

definition signed_bits :: "u32 \<Rightarrow> nat \<Rightarrow> int" where
  "signed_bits val bits =
     (if bits = 32 then sint val
      else let sign = push_bit (bits - 1) 1 in sint (val XOR sign) - sint sign)"

definition local_usage :: "local_state \<Rightarrow> u32 \<Rightarrow> u32" where
  "local_usage l index =
     (if unat index < length (l_usages l) then l_usages l ! unat index
      else if l_has_minimum l \<and> l_has_maximum l \<and> l_minimum l \<le> l_maximum l \<and>
              index \<le> l_maximum l - l_minimum l then l_minimum l + index
      else if l_usages l \<noteq> [] then last (l_usages l) else -1)"

subsection \<open>Input items\<close>

text \<open>The chain of conditions that gives a usage its meaning; \<open>None\<close> is \<open>continue\<close>.\<close>

definition field_usage :: "u32 \<Rightarrow> u32 \<Rightarrow> bool \<Rightarrow> (mouse_hid_usage \<times> u8) option" where
  "field_usage usage flags in_mouse =
     (let page = ucast (drop_bit 16 usage) :: u16;
          code = ucast (usage AND 0xffff) :: u16;
          relative = (flags AND 4 \<noteq> 0)
      in if in_mouse \<and> page = 9 \<and> 1 \<le> code \<and> code \<le> 5 then Some (MOUSE_BUTTON, ucast (code - 1))
         else if in_mouse \<and> page = 1 \<and> relative \<and> code = 0x30 then Some (MOUSE_X, 0)
         else if in_mouse \<and> page = 1 \<and> relative \<and> code = 0x31 then Some (MOUSE_Y, 0)
         else if in_mouse \<and> page = 1 \<and> relative \<and> code = 0x38 then Some (MOUSE_WHEEL, 0)
         else if page = 0x0c \<and> relative \<and> code = 0x238 then Some (MOUSE_PAN, 0)
         else if page = 0x0c \<and> (code = 0x224 \<or> code = 0x225)
              then Some (MOUSE_BUTTON, if code = 0x224 then 3 else 4)
         else None)"

text \<open>The assignment \<open>map->x = true\<close> (and its siblings) made in the branch taken.\<close>

fun note_axis :: "mouse_hid_usage \<Rightarrow> mouse_hid_map \<Rightarrow> mouse_hid_map" where
  "note_axis MOUSE_X m = m\<lparr>m_x := True\<rparr>"
| "note_axis MOUSE_Y m = m\<lparr>m_y := True\<rparr>"
| "note_axis MOUSE_WHEEL m = m\<lparr>m_wheel := True\<rparr>"
| "note_axis MOUSE_PAN m = m\<lparr>m_pan := True\<rparr>"
| "note_axis MOUSE_BUTTON m = m"

text \<open>Appending a field and updating its report, reached through a pointer in C.\<close>

definition push_field :: "nat \<Rightarrow> mouse_hid_field \<Rightarrow> mouse_hid_map \<Rightarrow> mouse_hid_map" where
  "push_field ri f m =
     (let r = (m_reports m ! ri)\<lparr>r_useful := True\<rparr>;
          m = m\<lparr>m_fields := m_fields m @ [f]\<rparr>;
          bt = push_bit (unat (f_button f)) 1 :: u8
      in if f_usage f = MOUSE_BUTTON
         then m\<lparr>m_reports := (m_reports m)[ri := r\<lparr>r_buttons := r_buttons r OR bt\<rparr>],
                m_buttons := m_buttons m OR bt\<rparr>
         else m\<lparr>m_reports := (m_reports m)[ri := r]\<rparr>)"

text \<open>The loop over the fields of one input item; \<open>n\<close> iterations remain, \<open>i\<close> is the counter.\<close>

fun add_fields :: "global_state \<Rightarrow> local_state \<Rightarrow> u32 \<Rightarrow> bool \<Rightarrow> nat \<Rightarrow> u16 \<Rightarrow>
    nat \<Rightarrow> u32 \<Rightarrow> mouse_hid_map \<Rightarrow> cret \<times> mouse_hid_map" where
  "add_fields g l flags in_mouse ri start 0 i m = (ok, m)"
| "add_fields g l flags in_mouse ri start (Suc n) i m =
     (case field_usage (local_usage l i) flags in_mouse of
        None \<Rightarrow> add_fields g l flags in_mouse ri start n (i + 1) m
      | Some (us, bt) \<Rightarrow>
          let f = \<lparr>f_bit = ucast (ucast start + i * g_size g), f_size = ucast (g_size g),
                   f_report = of_nat ri, f_usage = us, f_button = bt,
                   f_signed = (g_minimum g < 0)\<rparr>;
              m = note_axis us m
          in if length (m_fields m) = MOUSE_HID_MAX_FIELDS then (Err E2BIG, m)
             else add_fields g l flags in_mouse ri start n (i + 1) (push_field ri f m))"

definition add_input :: "mouse_hid_map \<Rightarrow> global_state \<Rightarrow> local_state \<Rightarrow> u32 \<Rightarrow> bool \<Rightarrow>
    cret \<times> mouse_hid_map" where
  "add_input m g l flags in_mouse =
     (if g_count g = 0 \<or> g_size g = 0 \<or> 32 < g_size g \<or>
         of_nat (MOUSE_HID_MAX_REPORT_BYTES * 8) div g_size g < g_count g then (Err E2BIG, m)
      else
        let (found, m) =
          (case mouse_hid_report_index m (g_id g) of
             Ret i \<Rightarrow> (Some i, m)
           | Err _ \<Rightarrow>
               if length (m_reports m) = MOUSE_HID_MAX_REPORTS then (None, m)
               else (Some (length (m_reports m)), m\<lparr>m_reports := m_reports m @ [new_report (g_id g)]\<rparr>))
        in case found of
             None \<Rightarrow> (Err E2BIG, m)
           | Some ri \<Rightarrow>
               let r = m_reports m ! ri;
                   bits = g_size g * g_count g
               in if of_nat (MOUSE_HID_MAX_REPORT_BYTES * 8) - ucast (r_bits r) < bits
                  then (Err E2BIG, m)
                  else
                    let start = r_bits r;
                        m = m\<lparr>m_reports := (m_reports m)[ri := r\<lparr>r_bits := start + ucast bits\<rparr>]\<rparr>
                    in if flags AND 1 \<noteq> 0 \<or> flags AND 2 = 0 then (ok, m)
                       else add_fields g l flags in_mouse ri start (unat (g_count g)) 0 m)"

subsection \<open>Items\<close>

record parser =
  p_global :: global_state
  p_stack :: "global_state list"
  p_local :: local_state
  p_collections :: "bool list"
  p_map :: mouse_hid_map

definition init_parser :: parser where
  "init_parser = \<lparr>p_global = zero_global, p_stack = [], p_local = zero_local,
     p_collections = [], p_map = empty_map\<rparr>"

definition item_size :: "u8 \<Rightarrow> nat" where
  "item_size prefix = (let sz = unat (prefix AND 3) in if sz = 3 then 4 else sz)"

definition global_item :: "nat \<Rightarrow> nat \<Rightarrow> u32 \<Rightarrow> parser \<Rightarrow> cret \<times> parser" where
  "global_item tag sz val s =
     (let g = p_global s in
      if tag = 0 then
        (if 0xffff < val then (Err EINVAL, s) else (ok, s\<lparr>p_global := g\<lparr>g_page := val\<rparr>\<rparr>))
      else if tag = 1 then
        (if sz = 0 then (Err EINVAL, s)
         else (ok, s\<lparr>p_global := g\<lparr>g_minimum := signed_bits val (sz * 8)\<rparr>\<rparr>))
      else if tag = 7 then (ok, s\<lparr>p_global := g\<lparr>g_size := val\<rparr>\<rparr>)
      else if tag = 8 then
        (if val = 0 \<or> 255 < val then (Err EINVAL, s)
         else (ok, s\<lparr>p_global := g\<lparr>g_id := ucast val\<rparr>\<rparr>))
      else if tag = 9 then (ok, s\<lparr>p_global := g\<lparr>g_count := val\<rparr>\<rparr>)
      else if tag = 10 then
        (if length (p_stack s) = STACK_DEPTH then (Err E2BIG, s)
         else (ok, s\<lparr>p_stack := g # p_stack s\<rparr>))
      else if tag = 11 then
        (case p_stack s of
           [] \<Rightarrow> (Err EINVAL, s)
         | saved # rest \<Rightarrow> (ok, s\<lparr>p_global := saved, p_stack := rest\<rparr>))
      else (ok, s))"

definition local_item :: "nat \<Rightarrow> nat \<Rightarrow> u32 \<Rightarrow> parser \<Rightarrow> cret \<times> parser" where
  "local_item tag sz val s =
     (let l = p_local s;
          usage = (if sz = 4 then val else push_bit 16 (g_page (p_global s)) OR val)
      in if tag = 0 then
           (if length (l_usages l) = LOCAL_USAGES then (Err E2BIG, s)
            else (ok, s\<lparr>p_local := l\<lparr>l_usages := l_usages l @ [usage]\<rparr>\<rparr>))
         else if tag = 1 then (ok, s\<lparr>p_local := l\<lparr>l_minimum := usage, l_has_minimum := True\<rparr>\<rparr>)
         else if tag = 2 then (ok, s\<lparr>p_local := l\<lparr>l_maximum := usage, l_has_maximum := True\<rparr>\<rparr>)
         else if tag = 10 then (Err ENOTSUP, s)
         else (ok, s))"

text \<open>\<open>depth && collections[depth - 1]\<close>\<close>

definition in_mouse_now :: "parser \<Rightarrow> bool" where
  "in_mouse_now s = (case p_collections s of [] \<Rightarrow> False | c # _ \<Rightarrow> c)"

definition main_item :: "nat \<Rightarrow> u32 \<Rightarrow> parser \<Rightarrow> cret \<times> parser" where
  "main_item tag val s =
     (let (err, s) =
        (if tag = 10 then
           (if length (p_collections s) = STACK_DEPTH then (Err E2BIG, s)
            else let mouse = (if val = 1 then local_usage (p_local s) 0 = 0x00010002
                              else in_mouse_now s)
                 in (ok, s\<lparr>p_collections := mouse # p_collections s\<rparr>))
         else if tag = 12 then
           (case p_collections s of
              [] \<Rightarrow> (Err EINVAL, s)
            | _ # rest \<Rightarrow> (ok, s\<lparr>p_collections := rest\<rparr>))
         else if tag = 8 then
           (let (err, m) = add_input (p_map s) (p_global s) (p_local s) val (in_mouse_now s)
            in (err, s\<lparr>p_map := m\<rparr>))
         else (ok, s))
      in if err = ok then (ok, s\<lparr>p_local := zero_local\<rparr>) else (err, s))"

definition short_item :: "u8 \<Rightarrow> u32 \<Rightarrow> parser \<Rightarrow> cret \<times> parser" where
  "short_item prefix val s =
     (let sz = item_size prefix;
          type = unat (drop_bit 2 prefix AND 3);
          tag = unat (drop_bit 4 prefix)
      in if type = 1 then global_item tag sz val s
         else if type = 2 then local_item tag sz val s
         else if type = 0 then main_item tag val s
         else (ok, s))"

subsection \<open>The loop over the descriptor\<close>

function parse_loop :: "u8 list \<Rightarrow> parser \<Rightarrow> cret \<times> parser" where
  "parse_loop [] s = (ok, s)"
| "parse_loop (prefix # rest) s =
     (if prefix = 0xfe then
        (if length rest < 2 \<or> length rest - 2 < unat (rest ! 0) then (Err EINVAL, s)
         else parse_loop (drop (2 + unat (rest ! 0)) rest) s)
      else if length rest < item_size prefix then (Err EINVAL, s)
      else
        let val = unsigned_item (take (item_size prefix) rest);
            (err, s) = short_item prefix val s
        in if err = ok then parse_loop (drop (item_size prefix) rest) s else (err, s))"
  by pat_completeness auto
termination
  by (relation "measure (\<lambda>(data, s). length data)") auto

declare parse_loop.simps(2) [simp del]

text \<open>
  The whole function. A null pointer is \<open>None\<close>; \<open>length\<close> is the number of bytes at
  \<open>data\<close>. The map is returned as the caller finds it after the call.
\<close>

definition mouse_hid_parse ::
    "u8 list option \<Rightarrow> mouse_hid_map option \<Rightarrow> cret \<times> mouse_hid_map option" where
  "mouse_hid_parse data m =
     (case (data, m) of
        (Some bytes, Some _) \<Rightarrow>
          if bytes = [] \<or> MOUSE_HID_MAX_MAP_BYTES < length bytes then (Err EINVAL, m)
          else
            let (err, s) = parse_loop bytes init_parser
            in if err \<noteq> ok then (err, Some (p_map s))
               else if p_collections s \<noteq> [] \<or> p_stack s \<noteq> [] then (Err EINVAL, Some (p_map s))
               else (if m_x (p_map s) \<and> m_y (p_map s) then ok else Err ENOTSUP, Some (p_map s))
      | _ \<Rightarrow> (Err EINVAL, m))"

end
