(* ===== verification/Hid_Parser_Inv.thy ===== *)
theory Hid_Parser_Inv
  imports Hid_Parser
begin

text \<open>
  Invariants of the descriptor parser: item values are read exactly, no position or bit
  count ever wraps, and every map it builds is well formed (\<open>map_wf\<close>), on error exits too.
  The last section relates the byte loop to a grammar of items.
\<close>

section \<open>Item values\<close>

lemma bit_unsigned_item_from:
  "bit (unsigned_item_from i r bs) n \<longleftrightarrow>
     bit r n \<or> (n < 32 \<and> 8 * i \<le> n \<and> bit (le_int bs) (n - 8 * i))"
proof (induction bs arbitrary: i r)
  case (Cons b bs)
  have "bit (le_int (b # bs)) (n - 8 * i) \<longleftrightarrow>
     bit b (n - 8 * i) \<or> (8 \<le> n - 8 * i \<and> bit (le_int bs) (n - 8 * i - 8))"
    unfolding le_int_Cons_bits
    by (auto simp: bit_or_iff bit_push_bit_iff bit_uint_iff dest: bit_u8_bound)
  moreover have "n - 8 * i - 8 = n - 8 * Suc i" "8 * i \<le> n \<and> 8 \<le> n - 8 * i \<longleftrightarrow> 8 * Suc i \<le> n"
    by auto
  ultimately show ?case
    by (auto simp: Cons.IH bit_or_iff bit_push_bit_iff bit_ucast_iff simp del: le_int.simps
        dest: bit_u8_bound)
qed simp

lemma unsigned_item_le:
  assumes "length bs \<le> 4"
  shows "uint (unsigned_item bs) = le_int bs"
proof (rule bit_eqI)
  fix n
  have "n < 32" if "bit (le_int bs) n"
    using that assms by (simp add: bit_le_int) linarith
  then show "bit (uint (unsigned_item bs)) n = bit (le_int bs) n"
    by (auto simp: bit_uint_iff unsigned_item_def bit_unsigned_item_from)
qed

lemma signed_bits_spec:
  assumes "0 < bits" and "bits \<le> 32" and "uint v < 2 ^ bits"
  shows "signed_bits v bits = signed_take_bit (bits - 1) (uint v)"
proof (cases "bits = 32")
  case True
  then show ?thesis by (simp add: signed_bits_def sint_uint)
next
  case False
  define k where "k = bits - 1"
  have k: "bits = Suc k" "k < 31" using assms False by (auto simp: k_def)
  have le: "(2::int) ^ Suc k \<le> 2 ^ 31" using k by (intro power_increasing) auto
  have u: "uint (push_bit k (1 :: u32)) = 2 ^ k"
    by (rule bit_eqI) (use k in \<open>auto simp: bit_uint_iff bit_push_bit_iff bit_exp_iff\<close>)
  have k31: "(2::int) ^ k < 2 ^ 31" using k by (intro power_strict_increasing) auto
  have x: "uint (v XOR push_bit k 1) = uint v XOR 2 ^ k"
    unfolding uint_xor u ..
  have "uint v XOR 2 ^ k < 2 ^ Suc k"
    using assms(3) k by (intro XOR_upper) auto
  with le have "uint (v XOR push_bit k 1) < 2 ^ 31" unfolding x by linarith
  with k31 have "signed_bits v bits = (uint v XOR 2 ^ k) - 2 ^ k"
    using k False sint_eq_uint_small [of "v XOR push_bit k 1"] sint_eq_uint_small [of "push_bit k 1"]
    unfolding x u by (simp add: signed_bits_def Let_def)
  also have "\<dots> = signed_take_bit k (uint v)"
    using assms(3) k by (intro xor_exp_eq) auto
  finally show ?thesis by (simp add: k_def)
qed

lemma signed_bits_int32:
  assumes "0 < bits" and "bits \<le> 32" and "uint v < 2 ^ bits"
  shows "int32 (signed_bits v bits)"
proof -
  have "(2::int) ^ (bits - 1) \<le> 2 ^ 31" using assms by (intro power_increasing) auto
  moreover have "- (2 ^ (bits - 1)) \<le> signed_take_bit (bits - 1) (uint v)"
    "signed_take_bit (bits - 1) (uint v) < 2 ^ (bits - 1)"
    by (simp_all add: signed_take_bit_int_greater_eq_minus_exp signed_take_bit_int_less_exp)
  ultimately show ?thesis unfolding signed_bits_spec [OF assms] int32_def by linarith
qed

section \<open>Growing maps\<close>

definition map_grows :: "mouse_hid_map \<Rightarrow> mouse_hid_map \<Rightarrow> bool" where
  "map_grows m m' \<longleftrightarrow>
     length (m_reports m) \<le> length (m_reports m') \<and>
     (\<forall>i < length (m_reports m).
        unat (r_bits (m_reports m ! i)) \<le> unat (r_bits (m_reports m' ! i)) \<and>
        (r_useful (m_reports m ! i) \<longrightarrow> r_useful (m_reports m' ! i)) \<and>
        (\<forall>n. bit (r_buttons (m_reports m ! i)) n \<longrightarrow> bit (r_buttons (m_reports m' ! i)) n)) \<and>
     (\<forall>n. bit (m_buttons m) n \<longrightarrow> bit (m_buttons m') n)"

lemma field_wf_grows: "map_grows m m' \<Longrightarrow> field_wf m f \<Longrightarrow> field_wf m' f"
  unfolding map_grows_def field_wf_def by (meson le_trans order.strict_trans2)

text \<open>Every flag and button bit of the map stands for a field that reports it.\<close>

definition covers :: "mouse_hid_map \<Rightarrow> bool" where
  "covers m \<longleftrightarrow>
     (m_x m \<longrightarrow> (\<exists>f \<in> set (m_fields m). f_usage f = MOUSE_X)) \<and>
     (m_y m \<longrightarrow> (\<exists>f \<in> set (m_fields m). f_usage f = MOUSE_Y)) \<and>
     (m_wheel m \<longrightarrow> (\<exists>f \<in> set (m_fields m). f_usage f = MOUSE_WHEEL)) \<and>
     (m_pan m \<longrightarrow> (\<exists>f \<in> set (m_fields m). f_usage f = MOUSE_PAN)) \<and>
     (\<forall>n. bit (m_buttons m) n \<longrightarrow>
        (\<exists>f \<in> set (m_fields m). f_usage f = MOUSE_BUTTON \<and> unat (f_button f) = n)) \<and>
     (\<forall>i < length (m_reports m). \<forall>n. bit (r_buttons (m_reports m ! i)) n \<longrightarrow>
        (\<exists>f \<in> set (m_fields m).
           unat (f_report f) = i \<and> f_usage f = MOUSE_BUTTON \<and> unat (f_button f) = n))"

lemma covers_empty [simp]: "covers empty_map"
  by (simp add: covers_def empty_map_def)

lemma note_axis_same [simp]:
  "m_reports (note_axis us m) = m_reports m"
  "m_fields (note_axis us m) = m_fields m"
  "m_buttons (note_axis us m) = m_buttons m"
  by (cases us; simp)+

lemma map_wf_note_axis [simp]: "map_wf (note_axis us m) \<longleftrightarrow> map_wf m"
  by (simp add: map_wf_def field_wf_def)

lemma push_field_same [simp]:
  "m_fields (push_field ri f m) = m_fields m @ [f]"
  "length (m_reports (push_field ri f m)) = length (m_reports m)"
  by (simp_all add: push_field_def Let_def)

lemma push_field_report:
  assumes "i < length (m_reports m)"
  shows "r_bits (m_reports (push_field ri f m) ! i) = r_bits (m_reports m ! i)"
    and "r_id (m_reports (push_field ri f m) ! i) = r_id (m_reports m ! i)"
    and "r_useful (m_reports (push_field ri f m) ! i) \<longleftrightarrow> i = ri \<or> r_useful (m_reports m ! i)"
    and "unat (f_button f) < 5 \<Longrightarrow> bit (r_buttons (m_reports (push_field ri f m) ! i)) n \<longleftrightarrow>
           bit (r_buttons (m_reports m ! i)) n \<or>
           (i = ri \<and> f_usage f = MOUSE_BUTTON \<and> n = unat (f_button f))"
  using assms
  by (cases "i = ri"; auto simp: push_field_def Let_def bit_or_iff bit_button)+

lemma push_field_buttons:
  "unat (f_button f) < 5 \<Longrightarrow> bit (m_buttons (push_field ri f m)) n \<longleftrightarrow>
     bit (m_buttons m) n \<or> (f_usage f = MOUSE_BUTTON \<and> n = unat (f_button f))"
  by (auto simp: push_field_def Let_def bit_or_iff bit_button)

lemma push_field_grows:
  "unat (f_button f) < 5 \<Longrightarrow> map_grows m (push_field ri f m)"
  by (auto simp: map_grows_def push_field_report push_field_buttons)

lemma map_r_id_push: "map r_id (m_reports (push_field ri f m)) = map r_id (m_reports m)"
  by (rule nth_equalityI) (auto simp: push_field_report)

lemma push_field_wf:
  assumes wf: "map_wf m" and ri: "ri < length (m_reports m)"
    and room: "length (m_fields m) < MOUSE_HID_MAX_FIELDS"
    and f: "unat (f_report f) = ri" "0 < unat (f_size f)" "unat (f_size f) \<le> 32"
      "f_end f \<le> unat (r_bits (m_reports m ! ri))" "unat (f_button f) < 5"
    and last: "\<forall>h \<in> set (m_fields m). unat (f_report h) = ri \<longrightarrow> f_end h \<le> unat (f_bit f)"
  shows "map_wf (push_field ri f m)"
proof -
  let ?m = "push_field ri f m"
  have old: "field_wf ?m h" if "h \<in> set (m_fields m)" for h
    using that wf f(5) by (meson field_wf_grows push_field_grows map_wf_def)
  have new: "field_wf ?m f"
    using f ri by (simp add: field_wf_def push_field_report push_field_buttons)
  have sorted: "sorted_wrt before (m_fields m @ [f])"
    using wf last f(1) by (auto simp: map_wf_def sorted_wrt_append before_def)
  have bits: "unat (r_bits r) \<le> MOUSE_HID_MAX_REPORT_BYTES * 8" if "r \<in> set (m_reports ?m)" for r
    using that wf by (auto simp: in_set_conv_nth [of r] push_field_report map_wf_def)
  show ?thesis
    using wf room old new sorted bits by (auto simp: map_wf_def map_r_id_push)
qed

lemma push_field_covers:
  assumes "covers m" and "unat (f_button f) < 5" and "unat (f_report f) = ri"
  shows "covers (push_field ri f (note_axis (f_usage f) m))"
proof -
  let ?m = "push_field ri f (note_axis (f_usage f) m)"
  have flags: "m_x ?m \<longleftrightarrow> m_x m \<or> f_usage f = MOUSE_X" "m_y ?m \<longleftrightarrow> m_y m \<or> f_usage f = MOUSE_Y"
    "m_wheel ?m \<longleftrightarrow> m_wheel m \<or> f_usage f = MOUSE_WHEEL" "m_pan ?m \<longleftrightarrow> m_pan m \<or> f_usage f = MOUSE_PAN"
    by (cases "f_usage f"; simp add: push_field_def Let_def)+
  show ?thesis
    using assms unfolding covers_def flags
    by (auto simp: push_field_report push_field_buttons)
qed

lemma field_usage_button: "field_usage u fl im = Some (us, bt) \<Longrightarrow> unat bt < 5"
proof -
  have small: "unat (ucast (c - 1) :: u8) < 5" if "1 \<le> c" "c \<le> 5" for c :: u16
  proof -
    have "unat (c - 1) < 5" using that by unat_arith
    then show ?thesis by (simp add: unat_ucast_small)
  qed
  assume "field_usage u fl im = Some (us, bt)"
  then show ?thesis by (auto simp: field_usage_def Let_def small split: if_splits)
qed

text \<open>No 32-bit or 16-bit wrap-around happens when a field's position is computed.\<close>

lemma field_bit_exact:
  assumes "unat start + unat i * unat sz \<le> 512"
  shows "unat (ucast (ucast (start :: u16) + i * sz :: u32) :: u16) = unat start + unat i * unat sz"
proof -
  have m: "unat (i * sz) = unat i * unat sz"
    using assms by (simp add: unat_mult_lem [symmetric])
  have "unat (ucast start + i * sz :: u32) = unat start + unat i * unat sz"
    using assms m by (subst unat_add_lem [THEN iffD1]) (simp_all add: unat_ucast_small)
  then show ?thesis using assms by (simp add: unat_ucast_small)
qed


lemma add_fields_inv:
  assumes "map_wf m" and "covers m" and "ri < length (m_reports m)"
    and "0 < unat (g_size g)" and "unat (g_size g) \<le> 32"
    and "unat i + n = unat (g_count g)"
    and "unat start + unat (g_count g) * unat (g_size g) \<le> unat (r_bits (m_reports m ! ri))"
    and "\<forall>h \<in> set (m_fields m). unat (f_report h) = ri \<longrightarrow>
           f_end h \<le> unat start + unat i * unat (g_size g)"
    and "add_fields g l flags im ri start n i m = (err, m')"
  shows "map_wf m' \<and> (err = ok \<longrightarrow> covers m')"
  using assms
proof (induction n arbitrary: i m)
  case 0
  then show ?case by simp
next
  case (Suc n)
  let ?sz = "unat (g_size g)"
  have ri8: "ri < 8" using Suc.prems(1,3) map_wfD(1) [of m] by linarith
  have bits: "unat (r_bits (m_reports m ! ri)) \<le> 512" using Suc.prems(1,3) by (rule map_wfD)
  have i: "unat (i + 1) = unat i + 1"
    using Suc.prems(6) unat_u32 [of "g_count g"] by (subst unat_add_lem [THEN iffD1]) auto
  have step: "unat i * ?sz + ?sz \<le> unat (g_count g) * ?sz"
    using Suc.prems(6) mult_le_mono1 [of "unat i + 1" "unat (g_count g)" ?sz] by (simp add: algebra_simps)
  have next_end: "unat start + unat (i + 1) * ?sz = unat start + unat i * ?sz + ?sz"
    unfolding i by (simp add: algebra_simps)
  have mono: "\<forall>h \<in> set (m_fields m). unat (f_report h) = ri \<longrightarrow>
      f_end h \<le> unat start + unat (i + 1) * ?sz"
    using Suc.prems(8) next_end by fastforce
  show ?case
  proof (cases "field_usage (local_usage l i) flags im")
    case None
    then have "add_fields g l flags im ri start n (i + 1) m = (err, m')" using Suc.prems(9) by simp
    moreover have "unat (i + 1) + n = unat (g_count g)" using i Suc.prems(6) by simp
    ultimately show ?thesis by (rule Suc.IH [OF Suc.prems(1-5) _ Suc.prems(7) mono, rotated])
  next
    case (Some p)
    obtain us bt where p: "p = (us, bt)" by fastforce
    define f where "f = \<lparr>f_bit = ucast (ucast start + i * g_size g), f_size = ucast (g_size g),
       f_report = of_nat ri, f_usage = us, f_button = bt, f_signed = (g_minimum g < 0)\<rparr>"
    have ub: "f_usage f = us" "unat (f_button f) < 5"
      using Some p field_usage_button by (auto simp: f_def)
    have pos: "unat (f_bit f) = unat start + unat i * ?sz"
      using bits step Suc.prems(7) by (simp add: f_def field_bit_exact)
    have fs: "unat (f_size f) = ?sz" using Suc.prems(5) by (simp add: f_def unat_ucast_small)
    have fr: "unat (f_report f) = ri" using ri8 by (simp add: f_def unat_of_nat)
    show ?thesis
    proof (cases "length (m_fields m) = MOUSE_HID_MAX_FIELDS")
      case True
      then have "(err, m') = (Err E2BIG, note_axis us m)"
        using Suc.prems(9) Some p by (simp add: Let_def)
      then show ?thesis using Suc.prems(1) by simp
    next
      case False
      let ?m = "push_field ri f (note_axis us m)"
      have room: "length (m_fields (note_axis us m)) < MOUSE_HID_MAX_FIELDS"
        using False Suc.prems(1) by (simp add: map_wf_def)
      have wf: "map_wf ?m"
        by (rule push_field_wf [OF _ _ room])
          (use Suc.prems fr fs pos ub step in \<open>auto\<close>)
      have cov: "covers ?m"
        using push_field_covers [OF Suc.prems(2) ub(2) fr] ub(1) by simp
      have rec: "add_fields g l flags im ri start n (i + 1) ?m = (err, m')"
        using Suc.prems(9) Some p False by (simp add: Let_def f_def)
      show ?thesis
        by (rule Suc.IH [OF wf cov _ Suc.prems(4,5) _ _ _ rec])
          (use Suc.prems i next_end mono fs pos in \<open>auto simp: push_field_report\<close>)
    qed
  qed
qed


text \<open>Replacing a report by one with more bits, or appending a fresh one, keeps the invariant.\<close>

lemma append_report_inv:
  assumes "map_wf m" and "covers m" and "length (m_reports m) < MOUSE_HID_MAX_REPORTS"
    and "ident \<notin> r_id ` set (m_reports m)"
  defines "m' \<equiv> m\<lparr>m_reports := m_reports m @ [new_report ident]\<rparr>"
  shows "map_wf m'" and "covers m'"
proof -
  have "map_grows m m'" by (simp add: m'_def map_grows_def nth_append)
  then have "field_wf m' h" if "h \<in> set (m_fields m)" for h
    using that assms(1) by (meson field_wf_grows map_wf_def)
  then show "map_wf m'"
    using assms(1,3,4) by (auto simp: map_wf_def m'_def new_report_def)
  show "covers m'"
    using assms(2) by (auto simp: covers_def m'_def nth_append new_report_def)
qed

lemma extend_report_inv:
  assumes "map_wf m" and "covers m" and "ri < length (m_reports m)"
    and "unat (r_bits (m_reports m ! ri)) \<le> unat b" and "unat b \<le> 512"
  defines "m' \<equiv> m\<lparr>m_reports := (m_reports m)[ri := (m_reports m ! ri)\<lparr>r_bits := b\<rparr>]\<rparr>"
  shows "map_wf m'" and "covers m'"
proof -
  have same: "r_id (m_reports m' ! i) = r_id (m_reports m ! i)"
    "r_buttons (m_reports m' ! i) = r_buttons (m_reports m ! i)" 
    "r_useful (m_reports m' ! i) = r_useful (m_reports m ! i)"
    "r_bits (m_reports m' ! i) = (if i = ri then b else r_bits (m_reports m ! i))"
    "length (m_reports m') = length (m_reports m)"
    if "i < length (m_reports m)" for i
    using that assms(3) by (auto simp: m'_def nth_list_update)
  have "map_grows m m'" using assms(3,4) by (auto simp: map_grows_def same m'_def nth_list_update)
  then have "field_wf m' h" if "h \<in> set (m_fields m)" for h
    using that assms(1) by (meson field_wf_grows map_wf_def)
  moreover have "map r_id (m_reports m') = map r_id (m_reports m)"
    by (rule nth_equalityI) (use same in \<open>auto simp: m'_def\<close>)
  moreover have "unat (r_bits r) \<le> MOUSE_HID_MAX_REPORT_BYTES * 8" if "r \<in> set (m_reports m')" for r
    using that assms(1,5) set_update_subset_insert [of "m_reports m" ri]
    by (fastforce simp: m'_def map_wf_def hid_limits)
  ultimately show "map_wf m'"
    using assms(1) by (auto simp: map_wf_def m'_def)
  show "covers m'"
    using assms(2) same(2) by (simp add: covers_def m'_def)
qed

lemma field_end_bound:
  "map_wf m \<Longrightarrow> h \<in> set (m_fields m) \<Longrightarrow> unat (f_report h) = ri \<Longrightarrow>
   f_end h \<le> unat (r_bits (m_reports m ! ri))"
  using map_wfD(4) field_wf_def by blast

lemma fields_in_report:
  assumes "\<not> of_nat (MOUSE_HID_MAX_REPORT_BYTES * 8) div sz < (cnt :: u32)" and "sz \<noteq> 0"
  shows "unat sz * unat cnt \<le> 512" and "unat (sz * cnt) = unat sz * unat cnt"
proof -
  have "unat cnt \<le> unat (512 div sz)"
    using assms by (simp add: hid_limits word_le_nat_alt not_less)
  also have "\<dots> = 512 div unat sz" by (simp add: unat_div)
  finally show *: "unat sz * unat cnt \<le> 512"
    by (metis div_times_less_eq_dividend mult.commute mult_le_mono2 order_trans)
  then show "unat (sz * cnt) = unat sz * unat cnt" by (simp add: unat_mult_lem [symmetric])
qed

lemma report_room:
  assumes "unat rb \<le> 512" and "unat (bs :: u32) \<le> 512"
    and "\<not> of_nat (MOUSE_HID_MAX_REPORT_BYTES * 8) - ucast (rb :: u16) < bs"
  shows "unat (rb + ucast bs) = unat rb + unat bs" and "unat rb + unat bs \<le> 512"
proof -
  have "unat (ucast rb :: u32) = unat rb" using assms(1) by (simp add: unat_ucast_small)
  then have "unat ((512 :: u32) - ucast rb) = 512 - unat rb"
    using assms(1) by (subst unat_sub) (simp_all add: word_le_nat_alt)
  with assms show *: "unat rb + unat bs \<le> 512"
    by (simp add: hid_limits word_less_nat_alt)
  have "unat (ucast bs :: u16) = unat bs" using assms(2) by (simp add: unat_ucast_small)
  with * show "unat (rb + ucast bs) = unat rb + unat bs"
    by (subst unat_add_lem [THEN iffD1]) simp_all
qed

text \<open>What happens once the report of an input item has been found or created.\<close>

lemma add_to_report_inv:
  assumes wf: "map_wf m" "covers m" and ri: "ri < length (m_reports m)"
    and sz: "g_size g \<noteq> 0" "\<not> 32 < g_size g"
    and cnt: "\<not> of_nat (MOUSE_HID_MAX_REPORT_BYTES * 8) div g_size g < g_count g"
    and room: "\<not> of_nat (MOUSE_HID_MAX_REPORT_BYTES * 8) - ucast (r_bits (m_reports m ! ri))
                 < g_size g * g_count g"
    and run: "(err, m') =
      (let r = m_reports m ! ri; start = r_bits r;
           m = m\<lparr>m_reports := (m_reports m)[ri := r\<lparr>r_bits := start + ucast (g_size g * g_count g)\<rparr>]\<rparr>
       in if flags AND 1 \<noteq> 0 \<or> flags AND 2 = 0 then (ok, m)
          else add_fields g l flags im ri start (unat (g_count g)) 0 m)"
  shows "map_wf m' \<and> (err = ok \<longrightarrow> covers m')"
proof -
  let ?r = "m_reports m ! ri" and ?bits = "g_size g * g_count g"
  let ?m = "m\<lparr>m_reports := (m_reports m)[ri := ?r\<lparr>r_bits := r_bits ?r + ucast ?bits\<rparr>]\<rparr>"
  have bits: "unat (g_size g) * unat (g_count g) \<le> 512" "unat ?bits = unat (g_size g) * unat (g_count g)"
    using fields_in_report [OF cnt sz(1)] by auto
  have rb: "unat (r_bits ?r) \<le> 512" using wf(1) ri by (rule map_wfD)
  have new: "unat (r_bits ?r + ucast ?bits) = unat (r_bits ?r) + unat ?bits"
    "unat (r_bits ?r) + unat ?bits \<le> 512"
    using report_room [OF rb _ room] bits by auto
  have inv: "map_wf ?m" "covers ?m"
    using extend_report_inv [OF wf ri, of "r_bits ?r + ucast ?bits"] new by auto
  have sz': "0 < unat (g_size g)" "unat (g_size g) \<le> 32"
    using sz by (simp_all add: word_less_nat_alt unat_gt_0)
  have ends: "\<forall>h \<in> set (m_fields ?m). unat (f_report h) = ri \<longrightarrow> f_end h \<le> unat (r_bits ?r)"
    using field_end_bound [OF wf(1)] by auto
  show ?thesis
  proof (cases "flags AND 1 \<noteq> 0 \<or> flags AND 2 = 0")
    case True
    then show ?thesis using run inv by (simp add: Let_def)
  next
    case False
    then have "add_fields g l flags im ri (r_bits ?r) (unat (g_count g)) 0 ?m = (err, m')"
      using run by (simp add: Let_def)
    then show ?thesis
      by (rule add_fields_inv [OF inv _ sz', rotated -1]) (use ri ends new bits in \<open>auto simp: mult.commute\<close>)
  qed
qed

lemma add_input_inv:
  assumes "map_wf m" and "covers m" and "add_input m g l flags im = (err, m')"
  shows "map_wf m' \<and> (err = ok \<longrightarrow> covers m')"
proof (cases "g_count g = 0 \<or> g_size g = 0 \<or> 32 < g_size g \<or>
         of_nat (MOUSE_HID_MAX_REPORT_BYTES * 8) div g_size g < g_count g")
  case True
  then show ?thesis using assms by (auto simp: add_input_def)
next
  case False
  define body where "body ri m = (let r = m_reports m ! ri; bits = g_size g * g_count g
     in if of_nat (MOUSE_HID_MAX_REPORT_BYTES * 8) - ucast (r_bits r) < bits then (Err E2BIG, m)
        else let start = r_bits r;
                 m = m\<lparr>m_reports := (m_reports m)[ri := r\<lparr>r_bits := start + ucast bits\<rparr>]\<rparr>
             in if flags AND 1 \<noteq> 0 \<or> flags AND 2 = 0 then (ok, m)
                else add_fields g l flags im ri start (unat (g_count g)) 0 m)" for ri m
  have body: "map_wf m2 \<and> (err = ok \<longrightarrow> covers m2)"
    if "map_wf m1" "covers m1" "ri < length (m_reports m1)" "body ri m1 = (err, m2)" for ri m1 m2
    using that False add_to_report_inv [OF that(1-3), of g err m2 flags l im]
    by (auto simp: body_def Let_def split: if_splits)
  show ?thesis
  proof (cases rule: report_index_cases [of m "g_id g"])
    case (found i)
    then have "body i m = (err, m')" using False assms(3) by (simp add: add_input_def body_def)
    then show ?thesis using body found assms by blast
  next
    case missing
    show ?thesis
    proof (cases "length (m_reports m) = MOUSE_HID_MAX_REPORTS")
      case True
      then show ?thesis using False missing assms by (simp add: add_input_def)
    next
      case full: False
      let ?m = "m\<lparr>m_reports := m_reports m @ [new_report (g_id g)]\<rparr>"
      have "body (length (m_reports m)) ?m = (err, m')"
        using False full missing assms(3) by (simp add: add_input_def body_def)
      moreover have "length (m_reports m) < MOUSE_HID_MAX_REPORTS"
        using full assms(1) by (simp add: map_wf_def)
      ultimately show ?thesis
        using body [of ?m] append_report_inv [OF assms(1,2) _ missing(2)] by auto
    qed
  qed
qed


section \<open>The parser keeps its invariant\<close>

definition parser_inv :: "parser \<Rightarrow> bool" where
  "parser_inv s \<longleftrightarrow>
     map_wf (p_map s) \<and> covers (p_map s) \<and>
     length (p_stack s) \<le> STACK_DEPTH \<and> length (p_collections s) \<le> STACK_DEPTH \<and>
     length (l_usages (p_local s)) \<le> LOCAL_USAGES \<and>
     int32 (g_minimum (p_global s)) \<and> (\<forall>g \<in> set (p_stack s). int32 (g_minimum g))"

definition keeps_inv :: "parser \<Rightarrow> cret \<times> parser \<Rightarrow> bool" where
  "keeps_inv s r \<longleftrightarrow> (parser_inv s \<longrightarrow>
     map_wf (p_map (snd r)) \<and> (fst r = ok \<longrightarrow> parser_inv (snd r)))"

lemma keeps_invI:
  assumes "\<And>err s'. parser_inv s \<Longrightarrow> r = (err, s') \<Longrightarrow>
     map_wf (p_map s') \<and> (err = ok \<longrightarrow> parser_inv s')"
  shows "keeps_inv s r"
  using assms by (cases r) (simp add: keeps_inv_def)

lemma parser_inv_init [simp]: "parser_inv init_parser"
  by (simp add: parser_inv_def init_parser_def zero_global_def zero_local_def int32_def)

lemma parser_inv_map: "parser_inv s \<Longrightarrow> map_wf (p_map s)"
  by (simp add: parser_inv_def)

lemma item_size_cases: "item_size prefix \<in> {0, 1, 2, 4}"
proof -
  have "unat (prefix AND 3) \<le> unat (3 :: u8)"
    by (intro word_le_nat_alt [THEN iffD1] word_and_le1)
  then show ?thesis by (auto simp: item_size_def Let_def)
qed

lemma global_item_inv:
  assumes "sz > 0 \<Longrightarrow> int32 (signed_bits val (sz * 8))"
  shows "keeps_inv s (global_item tag sz val s)"
  by (rule keeps_invI)
    (use assms in \<open>auto simp: global_item_def Let_def parser_inv_def split: if_splits list.splits\<close>)

lemma local_item_inv: "keeps_inv s (local_item tag sz val s)"
  by (rule keeps_invI)
    (auto simp: local_item_def Let_def parser_inv_def split: if_splits)

lemma main_item_inv: "keeps_inv s (main_item tag val s)"
proof (rule keeps_invI)
  fix err s'
  assume inv: "parser_inv s" and run: "main_item tag val s = (err, s')"
  obtain err1 m1 where add:
    "add_input (p_map s) (p_global s) (p_local s) val (in_mouse_now s) = (err1, m1)" by fastforce
  have m1: "map_wf m1" "err1 = ok \<Longrightarrow> covers m1"
    using add_input_inv [OF _ _ add] inv by (auto simp: parser_inv_def)
  show "map_wf (p_map s') \<and> (err = ok \<longrightarrow> parser_inv s')"
    using run inv add m1
    by (auto simp: main_item_def Let_def parser_inv_def zero_local_def
        split: if_splits list.splits)
qed

lemma short_item_inv:
  assumes "length bytes = item_size prefix"
  shows "keeps_inv s (short_item prefix (unsigned_item bytes) s)"
proof -
  have int: "int32 (signed_bits (unsigned_item bytes) (item_size prefix * 8))" if "0 < item_size prefix"
  proof -
    have le: "length bytes \<le> 4" using item_size_cases [of prefix] assms by auto
    then have "uint (unsigned_item bytes) < 2 ^ (item_size prefix * 8)"
      using le_int_range [of bytes] assms
      by (simp add: unsigned_item_le mult.commute [of _ 8] power_mult)
    then show ?thesis using that le assms by (intro signed_bits_int32) auto
  qed
  have "keeps_inv s (ok, s)" by (simp add: keeps_inv_def parser_inv_map)
  then show ?thesis
    using int global_item_inv local_item_inv main_item_inv
    by (simp add: short_item_def Let_def)
qed

lemma parse_loop_Cons_cases:
  obtains (bad) "parse_loop (prefix # rest) s = (Err EINVAL, s)"
  | (long) "prefix = 0xfe" "\<not> (length rest < 2 \<or> length rest - 2 < unat (rest ! 0))"
      "parse_loop (prefix # rest) s = parse_loop (drop (2 + unat (rest ! 0)) rest) s"
  | (short) err s1 where "prefix \<noteq> 0xfe" "\<not> length rest < item_size prefix"
      "short_item prefix (unsigned_item (take (item_size prefix) rest)) s = (err, s1)"
      "parse_loop (prefix # rest) s =
        (if err = ok then parse_loop (drop (item_size prefix) rest) s1 else (err, s1))"
  by (cases "prefix = 0xfe"; cases "length rest < 2 \<or> length rest - 2 < unat (rest ! 0)";
      cases "length rest < item_size prefix";
      cases "short_item prefix (unsigned_item (take (item_size prefix) rest)) s")
    (simp_all add: parse_loop.simps(2) Let_def)

lemma parse_loop_inv: "parser_inv s \<Longrightarrow> parse_loop bytes s = (err, s') \<Longrightarrow>
  map_wf (p_map s') \<and> (err = ok \<longrightarrow> parser_inv s')"
proof (induction bytes s rule: parse_loop.induct)
  case (1 s)
  then show ?case by (simp add: parser_inv_map)
next
  case (2 prefix rest s)
  show ?case
  proof (cases rule: parse_loop_Cons_cases [of prefix rest s])
    case bad
    then show ?thesis using "2.prems" parser_inv_map [of s] by simp
  next
    case long
    then show ?thesis using "2.IH"(1) [OF long(1,2) "2.prems"(1)] "2.prems"(2) by simp
  next
    case (short e1 s1)
    have "map_wf (p_map s1) \<and> (e1 = ok \<longrightarrow> parser_inv s1)"
      using short_item_inv [of "take (item_size prefix) rest" prefix s] short "2.prems"(1)
      by (simp add: keeps_inv_def)
    then show ?thesis
      using "2.IH"(2) [OF short(1,2) refl short(3) [symmetric]] "2.prems"(2) short(4)
      by (auto split: if_splits)
  qed
qed

end
