(* ===== verification/Hid_Decode.thy ===== *)
theory Hid_Decode
  imports Hid_Parser_Inv
begin

text \<open>
  The report decoder of \<open>src/hid_parser.c\<close>: \<open>mouse_hid_decode\<close> with
  \<open>extract_field\<close> and \<open>add_saturated\<close>.

  Reading \<open>data[i]\<close> past the report is undefined behaviour in C. The model makes it
  visible: \<open>extract_field\<close> and everything built on it return \<open>None\<close> when a read leaves
  the buffer. That this never happens for a map the parser built is a theorem.
\<close>

section \<open>The code\<close>

definition byte_at :: "u8 list \<Rightarrow> nat \<Rightarrow> u8 option" where
  "byte_at data i = (if i < length data then Some (data ! i) else None)"

text \<open>The loop of \<open>extract_field\<close>: \<open>n\<close> bits remain, \<open>i\<close> is the counter, \<open>b\<close> is \<open>field->bit\<close>.\<close>

fun extract_bits :: "u8 list \<Rightarrow> nat \<Rightarrow> nat \<Rightarrow> nat \<Rightarrow> u32 \<Rightarrow> u32 option" where
  "extract_bits data b 0 i val = Some val"
| "extract_bits data b (Suc n) i val =
     (case byte_at data ((b + i) div 8) of
        None \<Rightarrow> None
      | Some byte \<Rightarrow>
          extract_bits data b n (Suc i)
            (val OR push_bit i (ucast (drop_bit ((b + i) mod 8) byte AND 1))))"

definition extract_field :: "u8 list \<Rightarrow> mouse_hid_field \<Rightarrow> int option" where
  "extract_field data f =
     (case extract_bits data (unat (f_bit f)) (unat (f_size f)) 0 0 of
        None \<Rightarrow> None
      | Some val \<Rightarrow>
          Some (if f_signed f then signed_bits val (unat (f_size f))
                else if INT32_MAX < uint val then INT32_MAX else sint val))"

definition add_saturated :: "int \<Rightarrow> int \<Rightarrow> int" where
  "add_saturated a b =
     (let result = a + b
      in if INT32_MAX < result then INT32_MAX else if result < INT32_MIN then INT32_MIN else result)"

text \<open>The \<open>switch\<close> on the usage of a field with value \<open>v\<close>.\<close>

definition apply_field :: "mouse_hid_field \<Rightarrow> int \<Rightarrow> mouse_hid_frame \<Rightarrow> mouse_hid_frame" where
  "apply_field f v fr =
     (case f_usage f of
        MOUSE_X \<Rightarrow> fr\<lparr>fr_x := add_saturated (fr_x fr) v\<rparr>
      | MOUSE_Y \<Rightarrow> fr\<lparr>fr_y := add_saturated (fr_y fr) v\<rparr>
      | MOUSE_WHEEL \<Rightarrow> fr\<lparr>fr_wheel := add_saturated (fr_wheel fr) v\<rparr>
      | MOUSE_PAN \<Rightarrow> fr\<lparr>fr_pan := add_saturated (fr_pan fr) v\<rparr>
      | MOUSE_BUTTON \<Rightarrow>
          if v \<noteq> 0 then fr\<lparr>fr_buttons := fr_buttons fr OR push_bit (unat (f_button f)) 1\<rparr> else fr)"

fun decode_fields :: "nat \<Rightarrow> u8 list \<Rightarrow> mouse_hid_field list \<Rightarrow> mouse_hid_frame \<Rightarrow>
    mouse_hid_frame option" where
  "decode_fields index data [] fr = Some fr"
| "decode_fields index data (f # fs) fr =
     (if unat (f_report f) \<noteq> index then decode_fields index data fs fr
      else case extract_field data f of
             None \<Rightarrow> None
           | Some v \<Rightarrow> decode_fields index data fs (apply_field f v fr))"

text \<open>Null pointers are \<open>None\<close>; \<open>length\<close> is the number of bytes at \<open>data\<close>.\<close>

definition mouse_hid_decode ::
    "mouse_hid_map option \<Rightarrow> u8 \<Rightarrow> u8 list option \<Rightarrow> mouse_hid_frame option \<Rightarrow>
     (cret \<times> mouse_hid_frame option) option" where
  "mouse_hid_decode mp ident dt frame =
     (case (mp, dt, frame) of
        (Some m, Some data, Some fr) \<Rightarrow>
          (case mouse_hid_report_index m ident of
             Err _ \<Rightarrow> Some (Err ENOENT, frame)
           | Ret index \<Rightarrow>
               let r = m_reports m ! index
               in if \<not> r_useful r then Some (Err ENOENT, frame)
                  else if length data \<noteq> (unat (r_bits r) + 7) div 8 then Some (Err EMSGSIZE, frame)
                  else map_option (\<lambda>fr. (ok, Some fr))
                         (decode_fields index data (m_fields m)
                            (empty_frame\<lparr>fr_buttons_present := r_buttons r\<rparr>)))
      | _ \<Rightarrow> Some (Err EINVAL, frame))"

section \<open>Extracting a field\<close>

lemma extract_bits_spec:
  assumes "b + i + n \<le> 8 * length data"
  shows "\<exists>v. extract_bits data b n i val = Some v \<and>
     (\<forall>k. bit v k \<longleftrightarrow> bit val k \<or> (i \<le> k \<and> k < i + n \<and> k < 32 \<and> bit (le_int data) (b + k)))"
  using assms
proof (induction n arbitrary: i val)
  case (Suc n)
  then have l: "(b + i) div 8 < length data" by linarith
  let ?val = "val OR push_bit i (ucast (drop_bit ((b + i) mod 8) (data ! ((b + i) div 8)) AND 1))"
  from Suc.IH [of "Suc i" ?val] Suc.prems obtain v where
    v: "extract_bits data b n (Suc i) ?val = Some v" and
    bits: "\<And>k. bit v k \<longleftrightarrow> bit ?val k \<or> (Suc i \<le> k \<and> k < Suc i + n \<and> k < 32 \<and> bit (le_int data) (b + k))"
    by auto
  have val: "bit ?val k \<longleftrightarrow> bit val k \<or> (k = i \<and> k < 32 \<and> bit (le_int data) (b + i))" for k
    using l by (auto simp: bit_le_int bit_or_iff bit_push_bit_iff bit_ucast_iff bit_and_iff
        bit_drop_bit_eq bit_1_iff dest: bit_u8_bound)
  show ?case
    using v l by (auto simp: byte_at_def bits val le_less Suc_le_eq)
qed auto

lemma extract_bits_take:
  assumes "b + n \<le> 8 * length data" and "n \<le> 32"
  shows "\<exists>v. extract_bits data b n 0 0 = Some v \<and> uint v = take_bit n (drop_bit b (le_int data))"
proof -
  from extract_bits_spec [of b 0 n data 0] assms obtain v where
    v: "extract_bits data b n 0 0 = Some v" and
    bits: "\<And>k. bit v k \<longleftrightarrow> k < n \<and> k < 32 \<and> bit (le_int data) (b + k)" by auto
  have "uint v = take_bit n (drop_bit b (le_int data))"
    by (rule bit_eqI) (use assms(2) in \<open>auto simp: bit_uint_iff bits bit_take_bit_iff bit_drop_bit_eq\<close>)
  with v show ?thesis by blast
qed

lemma add_saturated_clamp: "add_saturated a b = max INT32_MIN (min INT32_MAX (a + b))"
  by (auto simp: add_saturated_def Let_def INT32_MAX_def INT32_MIN_def)

text \<open>
  The value a field should have, read off the report as one little-endian integer:
  the bits from \<open>f_bit\<close> on, as a two's complement or an unsigned number.
\<close>

definition field_value :: "u8 list \<Rightarrow> mouse_hid_field \<Rightarrow> int" where
  "field_value data f =
     (let raw = drop_bit (unat (f_bit f)) (le_int data)
      in if f_signed f then signed_take_bit (unat (f_size f) - 1) raw
         else min INT32_MAX (take_bit (unat (f_size f)) raw))"

lemma int32_min: "0 \<le> t \<Longrightarrow> int32 (min INT32_MAX t)"
  by (auto simp: int32_def INT32_MAX_def)

lemma extract_field_value:
  assumes "f_end f \<le> 8 * length data" and "0 < unat (f_size f)" and "unat (f_size f) \<le> 32"
  shows "extract_field data f = Some (field_value data f)" and "int32 (field_value data f)"
proof -
  let ?n = "unat (f_size f)" and ?raw = "drop_bit (unat (f_bit f)) (le_int data)"
  from extract_bits_take [OF assms(1,3)] obtain v where
    v: "extract_bits data (unat (f_bit f)) ?n 0 0 = Some v" "uint v = take_bit ?n ?raw" by blast
  have lt: "uint v < 2 ^ ?n" by (simp add: v(2))
  have "\<not> ?n \<le> ?n - 1" using assms(2) by simp
  then have sgn: "signed_bits v ?n = signed_take_bit (?n - 1) ?raw"
    unfolding signed_bits_spec [OF assms(2,3) lt] v(2) signed_take_bit_take_bit by simp
  have uns: "(if INT32_MAX < uint v then INT32_MAX else sint v) = min INT32_MAX (take_bit ?n ?raw)"
  proof (cases "INT32_MAX < uint v")
    case False
    then have "sint v = uint v" by (intro sint_eq_uint_small) (simp add: INT32_MAX_def)
    with False show ?thesis by (simp add: v(2))
  qed (simp add: v(2))
  show "extract_field data f = Some (field_value data f)"
    unfolding extract_field_def v(1) option.case sgn uns field_value_def Let_def ..
  have "int32 (min INT32_MAX (take_bit ?n ?raw))" by (rule int32_min) simp
  then show "int32 (field_value data f)"
    using signed_bits_int32 [OF assms(2,3) lt] by (simp add: field_value_def Let_def sgn)
qed

lemma add_saturated_int32: "int32 (add_saturated a b)"
  by (auto simp: add_saturated_clamp int32_def INT32_MAX_def INT32_MIN_def)

lemma add_saturated_exact: "int32 (a + b) \<Longrightarrow> add_saturated a b = a + b"
  by (auto simp: add_saturated_clamp int32_def INT32_MAX_def INT32_MIN_def)

section \<open>Decoding a report\<close>

definition report_fields :: "mouse_hid_map \<Rightarrow> nat \<Rightarrow> mouse_hid_field list" where
  "report_fields m i = filter (\<lambda>f. unat (f_report f) = i) (m_fields m)"

lemma decode_fields_fold:
  assumes "\<forall>f \<in> set fs. unat (f_report f) = index \<longrightarrow>
     f_end f \<le> 8 * length data \<and> 0 < unat (f_size f) \<and> unat (f_size f) \<le> 32"
  shows "decode_fields index data fs fr =
     Some (fold (\<lambda>f. apply_field f (field_value data f)) (filter (\<lambda>f. unat (f_report f) = index) fs) fr)"
  using assms
proof (induction fs arbitrary: fr)
  case (Cons f fs)
  then show ?case using extract_field_value(1) [of f data] by auto
qed simp

definition decoded :: "mouse_hid_map \<Rightarrow> nat \<Rightarrow> u8 list \<Rightarrow> mouse_hid_frame" where
  "decoded m i data = fold (\<lambda>f. apply_field f (field_value data f)) (report_fields m i)
     (empty_frame\<lparr>fr_buttons_present := r_buttons (m_reports m ! i)\<rparr>)"

lemma wf_fields_fit:
  assumes "map_wf m" and "f \<in> set (m_fields m)"
    and "length data = (unat (r_bits (rep_of m f)) + 7) div 8"
  shows "f_end f \<le> 8 * length data" and "0 < unat (f_size f)" and "unat (f_size f) \<le> 32"
proof -
  have "field_wf m f" using assms by (simp add: map_wf_def)
  then show "0 < unat (f_size f)" "unat (f_size f) \<le> 32" by (auto simp: field_wf_def)
  have "f_end f \<le> unat (r_bits (rep_of m f))" using \<open>field_wf m f\<close> by (simp add: field_wf_def)
  then show "f_end f \<le> 8 * length data" unfolding assms(3) by linarith
qed

lemma decode_ok:
  assumes "map_wf m" and "mouse_hid_report_index m ident = Ret i"
    and "r_useful (m_reports m ! i)" and "length data = (unat (r_bits (m_reports m ! i)) + 7) div 8"
  shows "mouse_hid_decode (Some m) ident (Some data) (Some fr) = Some (ok, Some (decoded m i data))"
proof -
  have "\<forall>f \<in> set (m_fields m). unat (f_report f) = i \<longrightarrow>
     f_end f \<le> 8 * length data \<and> 0 < unat (f_size f) \<and> unat (f_size f) \<le> 32"
    using wf_fields_fit [OF assms(1)] assms(4) by blast
  from decode_fields_fold [OF this] show ?thesis
    using assms by (simp add: mouse_hid_decode_def decoded_def report_fields_def)
qed

text \<open>The outcome of a call on a well-formed map, case by case.\<close>

lemma decode_status:
  assumes "map_wf m"
  shows "mouse_hid_decode (Some m) ident (Some data) (Some fr) = Some
     (case mouse_hid_report_index m ident of
        Err _ \<Rightarrow> (Err ENOENT, Some fr)
      | Ret i \<Rightarrow>
          if \<not> r_useful (m_reports m ! i) then (Err ENOENT, Some fr)
          else if length data \<noteq> (unat (r_bits (m_reports m ! i)) + 7) div 8 then (Err EMSGSIZE, Some fr)
          else (ok, Some (decoded m i data)))"
proof (cases rule: report_index_cases [of m ident])
  case (found i)
  then show ?thesis
    using decode_ok [OF assms found(1), of data fr] by (auto simp: mouse_hid_decode_def)
next
  case missing
  then show ?thesis by (simp add: mouse_hid_decode_def)
qed

subsection \<open>Reading the decoded frame\<close>

definition axis_sum :: "mouse_hid_usage \<Rightarrow> mouse_hid_map \<Rightarrow> nat \<Rightarrow> u8 list \<Rightarrow> int" where
  "axis_sum us m i data =
     fold (\<lambda>f acc. add_saturated acc (field_value data f))
       (filter (\<lambda>f. f_usage f = us) (report_fields m i)) 0"

lemma fold_axis:
  "fr_x (fold (\<lambda>f. apply_field f (v f)) fs fr) =
     fold (\<lambda>f acc. add_saturated acc (v f)) (filter (\<lambda>f. f_usage f = MOUSE_X) fs) (fr_x fr)"
  "fr_y (fold (\<lambda>f. apply_field f (v f)) fs fr) =
     fold (\<lambda>f acc. add_saturated acc (v f)) (filter (\<lambda>f. f_usage f = MOUSE_Y) fs) (fr_y fr)"
  "fr_wheel (fold (\<lambda>f. apply_field f (v f)) fs fr) =
     fold (\<lambda>f acc. add_saturated acc (v f)) (filter (\<lambda>f. f_usage f = MOUSE_WHEEL) fs) (fr_wheel fr)"
  "fr_pan (fold (\<lambda>f. apply_field f (v f)) fs fr) =
     fold (\<lambda>f acc. add_saturated acc (v f)) (filter (\<lambda>f. f_usage f = MOUSE_PAN) fs) (fr_pan fr)"
  "fr_buttons_present (fold (\<lambda>f. apply_field f (v f)) fs fr) = fr_buttons_present fr"
  by (induction fs arbitrary: fr; simp add: apply_field_def split: mouse_hid_usage.split)+

lemma fold_buttons:
  "\<forall>f \<in> set fs. unat (f_button f) < 5 \<Longrightarrow>
   bit (fr_buttons (fold (\<lambda>f. apply_field f (v f)) fs fr)) n \<longleftrightarrow>
     bit (fr_buttons fr) n \<or>
     (\<exists>f \<in> set fs. f_usage f = MOUSE_BUTTON \<and> unat (f_button f) = n \<and> v f \<noteq> 0)"
proof (induction fs arbitrary: fr)
  case (Cons f fs)
  have "bit (fr_buttons (apply_field f (v f) fr)) n \<longleftrightarrow>
     bit (fr_buttons fr) n \<or> (f_usage f = MOUSE_BUTTON \<and> unat (f_button f) = n \<and> v f \<noteq> 0)"
    using Cons.prems by (auto simp: apply_field_def bit_or_iff bit_button split: mouse_hid_usage.split)
  with Cons show ?case by auto
qed simp

lemma decoded_axes:
  "fr_x (decoded m i data) = axis_sum MOUSE_X m i data"
  "fr_y (decoded m i data) = axis_sum MOUSE_Y m i data"
  "fr_wheel (decoded m i data) = axis_sum MOUSE_WHEEL m i data"
  "fr_pan (decoded m i data) = axis_sum MOUSE_PAN m i data"
  "fr_buttons_present (decoded m i data) = r_buttons (m_reports m ! i)"
  by (simp_all add: decoded_def fold_axis axis_sum_def empty_frame_def)

lemma axis_sum_int32: "int32 (axis_sum us m i data)"
proof -
  have "int32 (fold (\<lambda>f acc. add_saturated acc (v f)) fs a)" if "int32 a"
    for fs :: "mouse_hid_field list" and a :: int and v
    using that by (induction fs arbitrary: a) (auto intro: add_saturated_int32)
  then show ?thesis by (simp add: axis_sum_def int32_def)
qed

lemma report_fields_wf:
  "map_wf m \<Longrightarrow> f \<in> set (report_fields m i) \<Longrightarrow> field_wf m f \<and> unat (f_report f) = i"
  by (auto simp: report_fields_def map_wf_def)

lemma decoded_buttons:
  assumes "map_wf m"
  shows "bit (fr_buttons (decoded m i data)) n \<longleftrightarrow>
    (\<exists>f \<in> set (report_fields m i). f_usage f = MOUSE_BUTTON \<and> unat (f_button f) = n \<and>
       field_value data f \<noteq> 0)"
proof -
  have "\<forall>f \<in> set (report_fields m i). unat (f_button f) < 5"
    using report_fields_wf [OF assms] by (auto simp: field_wf_def)
  then show ?thesis by (simp add: decoded_def fold_buttons empty_frame_def)
qed

lemma decoded_buttons_present:
  "map_wf m \<Longrightarrow> bit (fr_buttons (decoded m i data)) n \<Longrightarrow> bit (r_buttons (m_reports m ! i)) n"
  by (auto simp: decoded_buttons field_wf_def dest!: report_fields_wf)

end
