(* ===== verification/Hid_Items.thy ===== *)
theory Hid_Items
  imports Hid_Parser_Inv
begin

text \<open>
  The grammar behind the byte loop of \<open>mouse_hid_parse\<close>: a descriptor is a sequence of
  items, a short item being a prefix with the data bytes its size bits announce, a long
  item \<open>0xfe\<close>, a length, a tag and that many data bytes. \<open>encode_item\<close> writes an item;
  \<open>run_items\<close> is the parser on items instead of bytes. The lemmas show that the byte
  loop accepts exactly the encodings and computes what \<open>run_items\<close> computes.
\<close>

datatype item = Short u8 "u8 list" | Long u8 "u8 list"

fun item_ok :: "item \<Rightarrow> bool" where
  "item_ok (Short prefix bytes) \<longleftrightarrow> prefix \<noteq> 0xfe \<and> length bytes = item_size prefix"
| "item_ok (Long tag bytes) \<longleftrightarrow> length bytes \<le> 255"

fun encode_item :: "item \<Rightarrow> u8 list" where
  "encode_item (Short prefix bytes) = prefix # bytes"
| "encode_item (Long tag bytes) = 0xfe # of_nat (length bytes) # tag # bytes"

definition encode_items :: "item list \<Rightarrow> u8 list" where
  "encode_items its = concat (map encode_item its)"

lemma encode_items_simps [simp]:
  "encode_items [] = []"
  "encode_items (it # its) = encode_item it @ encode_items its"
  by (simp_all add: encode_items_def)

fun run_items :: "item list \<Rightarrow> parser \<Rightarrow> cret \<times> parser" where
  "run_items [] s = (ok, s)"
| "run_items (Long tag bytes # its) s = run_items its s"
| "run_items (Short prefix bytes # its) s =
     (let (err, s) = short_item prefix (unsigned_item bytes) s
      in if err = ok then run_items its s else (err, s))"

lemma parse_loop_long:
  assumes "length bytes \<le> 255"
  shows "parse_loop (encode_item (Long tag bytes) @ rest) s = parse_loop rest s"
  using assms by (simp add: parse_loop.simps(2) unat_of_nat)

lemma parse_loop_short:
  assumes "prefix \<noteq> 0xfe" and "length bytes = item_size prefix"
  shows "parse_loop (encode_item (Short prefix bytes) @ rest) s =
    (let (err, s) = short_item prefix (unsigned_item bytes) s
     in if err = ok then parse_loop rest s else (err, s))"
proof -
  have parts: "drop (item_size prefix) (bytes @ rest) = rest" "take (item_size prefix) (bytes @ rest) = bytes"
    by (simp_all flip: assms(2))
  show ?thesis using assms by (simp add: parse_loop.simps(2) Let_def parts del: drop_append take_append
      split: prod.split if_split)
qed

lemma parse_loop_items:
  "\<forall>it \<in> set its. item_ok it \<Longrightarrow> parse_loop (encode_items its) s = run_items its s"
proof (induction its s rule: run_items.induct)
  case (2 tag bytes its s)
  then show ?case using parse_loop_long by (simp del: encode_item.simps)
next
  case (3 prefix bytes its s)
  then show ?case
    using parse_loop_short [of prefix bytes "encode_items its" s]
    by (auto simp del: encode_item.simps split: prod.splits)
qed simp

lemma long_item_bytes:
  assumes "\<not> (length rest < 2 \<or> length rest - 2 < unat (rest ! 0))"
  shows "\<exists>tag bytes. length bytes \<le> 255 \<and>
    0xfe # rest = encode_item (Long tag bytes) @ drop (2 + unat (rest ! 0)) rest"
proof -
  from assms obtain n tag more where rest: "rest = n # tag # more"
    by (cases rest; cases "tl rest") auto
  have n: "unat n \<le> length more" "unat n \<le> 255"
    using assms unat_u8 [of n] by (auto simp: rest)
  show ?thesis
    by (rule exI [of _ tag], rule exI [of _ "take (unat n) more"]) (use n in \<open>simp add: rest min_absorb2\<close>)
qed

lemma parse_loop_accepts:
  "parse_loop bytes s = (ok, s') \<Longrightarrow>
   \<exists>its. (\<forall>it \<in> set its. item_ok it) \<and> bytes = encode_items its"
proof (induction bytes s rule: parse_loop.induct)
  case (1 s)
  then show ?case by (intro exI [of _ "[]"]) simp
next
  case (2 prefix rest s)
  have prepend: "\<exists>its. (\<forall>it \<in> set its. item_ok it) \<and> prefix # rest = encode_items its"
    if "item_ok it" and "prefix # rest = encode_item it @ tail" and
      "\<exists>its. (\<forall>it \<in> set its. item_ok it) \<and> tail = encode_items its" for it tail
    using that by (metis encode_items_simps(2) set_ConsD)
  show ?case
  proof (cases rule: parse_loop_Cons_cases [of prefix rest s])
    case bad
    then show ?thesis using "2.prems" by simp
  next
    case long
    then show ?thesis
      using "2.prems" "2.IH"(1) [OF long(1,2)] long_item_bytes [OF long(2)] prepend
      by (metis item_ok.simps(2))
  next
    case (short e1 s1)
    then have "e1 = ok" "parse_loop (drop (item_size prefix) rest) s1 = (ok, s')"
      using "2.prems" by (auto split: if_splits)
    with "2.IH"(2) [OF short(1,2) refl short(3) [symmetric]] short(1,2) show ?thesis
      by (intro prepend [of "Short prefix (take (item_size prefix) rest)" "drop (item_size prefix) rest"])
        simp_all
  qed
qed

text \<open>The error codes that \<open>mouse_hid_parse\<close> can return.\<close>

lemma report_index_not_error: "mouse_hid_report_index m i = Err e \<Longrightarrow> e = ENOENT"
  by (simp add: report_index_Err)

lemma add_fields_code: "fst (add_fields g l flags im ri start n i m) \<in> {ok, Err E2BIG}"
  by (induction n arbitrary: i m) (auto simp: Let_def split: option.split)

lemma add_input_code: "fst (add_input m g l flags im) \<in> {ok, Err E2BIG}"
  using add_fields_code
  by (auto simp: add_input_def Let_def split: cret.split option.split prod.split)

lemma short_item_code: "fst (short_item prefix val s) \<in> {ok, Err EINVAL, Err E2BIG, Err ENOTSUP}"
proof -
  have "fst (main_item tag val s) \<in> {ok, Err EINVAL, Err E2BIG, Err ENOTSUP}" for tag
    using add_input_code [of "p_map s" "p_global s" "p_local s" val "in_mouse_now s"]
    by (auto simp: main_item_def Let_def split: list.split prod.split)
  then show ?thesis
    by (auto simp: short_item_def global_item_def local_item_def Let_def split: list.split)
qed

lemma parse_loop_code: "fst (parse_loop bytes s) \<in> {ok, Err EINVAL, Err E2BIG, Err ENOTSUP}"
proof (induction bytes s rule: parse_loop.induct)
  case (2 prefix rest s)
  show ?case
  proof (cases rule: parse_loop_Cons_cases [of prefix rest s])
    case bad
    then show ?thesis by simp
  next
    case long
    then show ?thesis using "2.IH"(1) by simp
  next
    case (short e1 s1)
    then show ?thesis
      using "2.IH"(2) [OF short(1,2) refl short(3) [symmetric]]
        short_item_code [of prefix "unsigned_item (take (item_size prefix) rest)" s]
      by auto
  qed
qed simp

end
