(* ===== verification/Hid_Fixtures.thy ===== *)
theory Hid_Fixtures
  imports Hid_Decode Hid_Items
begin

text \<open>
  The report descriptors of the repository's host tests, evaluated by the model: the
  minimal mouse of \<open>test_no_report_id\<close> (\<open>tests/test_mouse.c\<close>) and the synthetic M720
  descriptor of \<open>tests/fixtures/hid_reports.h\<close>. They are the concrete inputs of the
  witnesses.
\<close>

definition simple_descriptor :: "u8 list" where
  "simple_descriptor = [0x05,1, 0x09,2, 0xa1,1, 0x09,0x30, 0x09,0x31,
     0x15,0x81, 0x25,0x7f, 0x75,8, 0x95,2, 0x81,6, 0xc0]"

definition simple_map :: mouse_hid_map where
  "simple_map =
     \<lparr>m_reports = [\<lparr>r_bits = 16, r_id = 0, r_buttons = 0, r_useful = True\<rparr>],
      m_fields =
        [\<lparr>f_bit = 0, f_size = 8, f_report = 0, f_usage = MOUSE_X, f_button = 0, f_signed = True\<rparr>,
         \<lparr>f_bit = 8, f_size = 8, f_report = 0, f_usage = MOUSE_Y, f_button = 0, f_signed = True\<rparr>],
      m_buttons = 0, m_x = True, m_y = True, m_wheel = False, m_pan = False\<rparr>"

lemma simple_parse: "mouse_hid_parse (Some simple_descriptor) (Some empty_map) = (ok, Some simple_map)"
  by code_simp

definition m720_descriptor :: "u8 list" where
  "m720_descriptor = [
    0x05,0x01, 0x09,0x02, 0xa1,0x01, 0x85,0x07, 0x09,0x01, 0xa1,0x00,
    0x05,0x09, 0x19,0x01, 0x29,0x05, 0x15,0x00, 0x25,0x01,
    0x75,0x01, 0x95,0x05, 0x81,0x02,
    0x75,0x03, 0x95,0x01, 0x81,0x03,
    0x05,0x01, 0x09,0x30, 0x09,0x31, 0x16,0x00,0xf8, 0x26,0xff,0x07,
    0x75,0x0c, 0x95,0x02, 0x81,0x06,
    0xa4, 0x09,0x48, 0x15,0x00, 0x25,0x01, 0x75,0x08, 0x95,0x01, 0xb1,0x02, 0xb4,
    0x09,0x38, 0x15,0x81, 0x25,0x7f, 0x75,0x08, 0x95,0x01, 0x81,0x06,
    0x05,0x0c, 0x0a,0x38,0x02, 0x81,0x06, 0xc0, 0xc0,
    0x06,0x00,0xff, 0x09,0x01, 0xa1,0x01, 0x85,0x11,
    0x75,0x08, 0x95,0x14, 0x81,0x02, 0xc0,
    0x05,0x0c, 0x09,0x01, 0xa1,0x01, 0x85,0x2a,
    0x15,0x00, 0x25,0x01, 0x0a,0x24,0x02, 0x0a,0x25,0x02,
    0x75,0x01, 0x95,0x02, 0x81,0x02,
    0x75,0x06, 0x95,0x01, 0x81,0x03, 0xc0]"

definition mouse_field :: "u16 \<Rightarrow> u8 \<Rightarrow> u8 \<Rightarrow> mouse_hid_usage \<Rightarrow> u8 \<Rightarrow> bool \<Rightarrow> mouse_hid_field" where
  "mouse_field b n r us bt sg =
     \<lparr>f_bit = b, f_size = n, f_report = r, f_usage = us, f_button = bt, f_signed = sg\<rparr>"

definition m720_map :: mouse_hid_map where
  "m720_map =
     \<lparr>m_reports = [\<lparr>r_bits = 48, r_id = 7, r_buttons = 31, r_useful = True\<rparr>,
        \<lparr>r_bits = 160, r_id = 17, r_buttons = 0, r_useful = False\<rparr>,
        \<lparr>r_bits = 8, r_id = 42, r_buttons = 24, r_useful = True\<rparr>],
      m_fields =
        [mouse_field 0 1 0 MOUSE_BUTTON 0 False, mouse_field 1 1 0 MOUSE_BUTTON 1 False,
         mouse_field 2 1 0 MOUSE_BUTTON 2 False, mouse_field 3 1 0 MOUSE_BUTTON 3 False,
         mouse_field 4 1 0 MOUSE_BUTTON 4 False, mouse_field 8 12 0 MOUSE_X 0 True,
         mouse_field 20 12 0 MOUSE_Y 0 True, mouse_field 32 8 0 MOUSE_WHEEL 0 True,
         mouse_field 40 8 0 MOUSE_PAN 0 True, mouse_field 0 1 2 MOUSE_BUTTON 3 False,
         mouse_field 1 1 2 MOUSE_BUTTON 4 False],
      m_buttons = 31, m_x = True, m_y = True, m_wheel = True, m_pan = True\<rparr>"

lemma m720_parse: "mouse_hid_parse (Some m720_descriptor) (Some empty_map) = (ok, Some m720_map)"
  by code_simp

definition m720_report :: "u8 list" where
  "m720_report = [0x19, 0x00, 0xf8, 0x7f, 0xff, 0x02]"

lemma m720_decode:
  "mouse_hid_decode (Some m720_map) 7 (Some m720_report) (Some empty_frame) =
     Some (ok, Some \<lparr>fr_x = - 2048, fr_y = 2047, fr_wheel = - 1, fr_pan = 2,
       fr_buttons = 25, fr_buttons_present = 31\<rparr>)"
  by code_simp

end
