(* ===== verification/Hid_Properties.thy ===== *)
theory Hid_Properties
  imports Hid_Fixtures
begin

text \<open>
  The properties of the HID parser and decoder, over the lemmas of \<open>Hid_Parser_Inv\<close>,
  \<open>Hid_Items\<close> and \<open>Hid_Decode\<close>, each with a witness on the test descriptors.
\<close>

section \<open>Parsing a report descriptor\<close>

lemma parse_unfold:
  assumes "bytes \<noteq> []" and "length bytes \<le> MOUSE_HID_MAX_MAP_BYTES"
    and "parse_loop bytes init_parser = (e, s)"
  shows "mouse_hid_parse (Some bytes) (Some m0) =
    (if e \<noteq> ok then e
     else if p_collections s \<noteq> [] \<or> p_stack s \<noteq> [] then Err EINVAL
     else if m_x (p_map s) \<and> m_y (p_map s) then ok else Err ENOTSUP, Some (p_map s))"
  using assms by (simp add: mouse_hid_parse_def not_less)

lemma parse_ok_loop:
  assumes "mouse_hid_parse (Some bytes) (Some m0) = (ok, Some m)"
  obtains s where "parse_loop bytes init_parser = (ok, s)" and "m = p_map s"
    and "p_collections s = []" and "p_stack s = []" and "m_x m" and "m_y m"
  using assms by (auto simp: mouse_hid_parse_def split: if_splits prod.splits)

lemma parse_keeps_wf:
  assumes "mouse_hid_parse data (Some m0) = (err, Some m)" and "map_wf m0"
  shows "map_wf m"
proof -
  consider "m = m0" | bytes where "data = Some bytes" "m = p_map (snd (parse_loop bytes init_parser))"
    using assms(1) by (auto simp: mouse_hid_parse_def split: option.splits if_splits prod.splits)
  then show ?thesis
    using assms(2) parse_loop_inv [OF parser_inv_init] by cases (auto simp: prod_eq_iff)
qed

lemma m720_wf: "map_wf m720_map"
  using m720_parse by (rule parse_keeps_wf) simp

text \<open>C16: Whatever bytes a peer sends as its report map, and whether parsing succeeds or fails
  half-way, the map left behind is well formed: at most 8 reports with distinct IDs and at
  most 512 bits each, at most 48 fields, every field 1 to 32 bits wide and inside its report,
  every button number below 5 and recorded in its report, no two fields of a report overlapping.\<close>

theorem parse_map_wf:
  assumes "mouse_hid_parse data (Some m0) = (err, Some m)" and "map_wf m0"
  shows "map_wf m"
  using assms by (rule parse_keeps_wf)

theorem parse_map_wf_witness:
  "map_wf m720_map \<and> map_wf (the (snd (mouse_hid_parse (Some [0x75, 8, 0x95, 2, 0x81]) (Some empty_map))))"
proof
  show "map_wf m720_map" using m720_parse by (rule parse_map_wf) simp
  have "mouse_hid_parse (Some [0x75, 8, 0x95, 2, 0x81]) (Some empty_map) = (Err EINVAL, Some empty_map)"
    by code_simp
  then show "map_wf (the (snd (mouse_hid_parse (Some [0x75, 8, 0x95, 2, 0x81]) (Some empty_map))))"
    by (metis map_wf_empty option.sel parse_map_wf snd_conv)
qed

text \<open>C25: When the parser accepts a descriptor, the map has relative X and Y, and each capability it
  advertises to the client (axes, wheel, pan, each button bit of the map and of each report)
  is backed by a field that is really extracted from a report.\<close>

theorem parse_ok_covers:
  assumes "mouse_hid_parse (Some bytes) (Some m0) = (ok, Some m)"
  shows "m_x m \<and> m_y m \<and> covers m \<and>
    (\<exists>f \<in> set (m_fields m). f_usage f = MOUSE_X) \<and> (\<exists>f \<in> set (m_fields m). f_usage f = MOUSE_Y)"
proof -
  obtain s where s: "parse_loop bytes init_parser = (ok, s)" "m = p_map s" "m_x m" "m_y m"
    using assms by (rule parse_ok_loop)
  then have "covers m" using parse_loop_inv [OF parser_inv_init s(1)] by (auto simp: parser_inv_def)
  then show ?thesis using s by (simp add: covers_def)
qed

theorem parse_ok_covers_witness:
  "covers m720_map \<and> (\<exists>f \<in> set (m_fields m720_map). f_usage f = MOUSE_X)"
  using parse_ok_covers [OF m720_parse] by blast



text \<open>C32: Framing. On the encoding of any list of well-formed items the byte loop does exactly what
  interpreting the items one by one does, long items being skipped; and every descriptor it
  accepts is such an encoding, so no byte is read twice or dropped.\<close>

theorem parse_loop_framing:
  "((\<forall>it \<in> set its. item_ok it) \<longrightarrow> parse_loop (encode_items its) s = run_items its s) \<and>
   (parse_loop bytes s = (ok, s') \<longrightarrow>
      (\<exists>its. (\<forall>it \<in> set its. item_ok it) \<and> bytes = encode_items its \<and> run_items its s = (ok, s')))"
  using parse_loop_items parse_loop_accepts by metis

theorem parse_loop_framing_witness:
  "parse_loop (encode_items [Long 1 [2, 3], Short 0x75 [8]]) init_parser =
     run_items [Long 1 [2, 3], Short 0x75 [8]] init_parser \<and>
   (\<exists>its s'. m720_descriptor = encode_items its \<and> run_items its init_parser = (ok, s'))"
proof
  show "parse_loop (encode_items [Long 1 [2, 3], Short 0x75 [8]]) init_parser =
     run_items [Long 1 [2, 3], Short 0x75 [8]] init_parser"
    by (rule parse_loop_framing [THEN conjunct1, rule_format]) (auto simp: item_size_def)
  obtain s where "parse_loop m720_descriptor init_parser = (ok, s)"
    using m720_parse by (rule parse_ok_loop)
  then show "\<exists>its s'. m720_descriptor = encode_items its \<and> run_items its init_parser = (ok, s')"
    using parse_loop_framing by blast
qed

text \<open>C31: Item values: the data bytes of an item are read as one little-endian number, and
  \<open>signed_bits\<close> reinterprets its low bits as two's complement without signed overflow.\<close>

theorem item_value_exact:
  "(length bytes \<le> 4 \<longrightarrow> uint (unsigned_item bytes) = le_int bytes) \<and>
   (0 < bits \<and> bits \<le> 32 \<and> uint v < 2 ^ bits \<longrightarrow>
      signed_bits v bits = signed_take_bit (bits - 1) (uint v) \<and> int32 (signed_bits v bits))"
  using unsigned_item_le signed_bits_spec signed_bits_int32 by auto

theorem item_value_exact_witness:
  "uint (unsigned_item [0x00, 0xf8]) = le_int [0x00, 0xf8] \<and>
   signed_bits 0xf800 16 = signed_take_bit 15 0xf800 \<and> signed_bits 0xf800 16 = - 2048"
proof -
  have "signed_bits 0xf800 16 = - 2048" by code_simp
  then show ?thesis
    using item_value_exact [of "[0x00, 0xf8]" 16 "0xf800"] by simp
qed

section \<open>Decoding reports\<close>

text \<open>C15: Memory safety and result of the decoder. For a well-formed map (every map the parser
  leaves) no report, whatever its ID, length and content, makes the decoder read outside the
  buffer; and the result is \<open>-EINVAL\<close>, \<open>-ENOENT\<close>, \<open>-EMSGSIZE\<close> or 0 under exactly the stated
  conditions, the frame being written only on success.\<close>

theorem decode_total:
  assumes "map_wf m"
  shows "mouse_hid_decode (Some m) ident (Some data) (Some fr) = Some
     (case mouse_hid_report_index m ident of
        Err _ \<Rightarrow> (Err ENOENT, Some fr)
      | Ret i \<Rightarrow>
          if \<not> r_useful (m_reports m ! i) then (Err ENOENT, Some fr)
          else if length data \<noteq> (unat (r_bits (m_reports m ! i)) + 7) div 8 then (Err EMSGSIZE, Some fr)
          else (ok, Some (decoded m i data)))"
  using assms by (rule decode_status)

theorem decode_total_witness:
  "mouse_hid_decode (Some m720_map) 42 (Some [2]) (Some empty_frame) = Some (ok, Some (decoded m720_map 2 [2]))"
proof -
  have "mouse_hid_report_index m720_map 42 = Ret 2" by code_simp
  then show ?thesis
    using decode_total [OF m720_wf, of 42 "[2]" empty_frame] by (simp add: m720_map_def)
qed

text \<open>C24: What the decoded frame says. Each axis is the saturating sum, from 0, of the values of its
  fields in the report, where a field's value is the two's complement (or capped unsigned)
  reading of its bits in the report taken as one little-endian integer; a button bit is set
  exactly if some field of that button is non-zero; only buttons the report carries are set; and
  every axis is a valid \<open>int32_t\<close>.\<close>

theorem decode_frame:
  assumes "map_wf m" and "mouse_hid_decode (Some m) ident (Some data) fr0 = Some (ok, Some fr)"
  shows "\<exists>i. mouse_hid_report_index m ident = Ret i \<and>
    (\<forall>f \<in> set (report_fields m i). extract_field data f = Some (field_value data f)) \<and>
    fr_x fr = axis_sum MOUSE_X m i data \<and> fr_y fr = axis_sum MOUSE_Y m i data \<and>
    fr_wheel fr = axis_sum MOUSE_WHEEL m i data \<and> fr_pan fr = axis_sum MOUSE_PAN m i data \<and>
    (\<forall>n. bit (fr_buttons fr) n \<longleftrightarrow> (\<exists>f \<in> set (report_fields m i).
       f_usage f = MOUSE_BUTTON \<and> unat (f_button f) = n \<and> field_value data f \<noteq> 0)) \<and>
    fr_buttons_present fr = r_buttons (m_reports m ! i) \<and>
    fr_buttons fr AND NOT (fr_buttons_present fr) = 0 \<and>
    int32 (fr_x fr) \<and> int32 (fr_y fr) \<and> int32 (fr_wheel fr) \<and> int32 (fr_pan fr)"
proof -
  from assms(2) obtain f0 where f0: "fr0 = Some f0" by (auto simp: mouse_hid_decode_def split: option.splits)
  from assms(2) decode_status [OF assms(1), of ident data f0] obtain i where
    i: "mouse_hid_report_index m ident = Ret i" and fr: "fr = decoded m i data" and
    len: "length data = (unat (r_bits (m_reports m ! i)) + 7) div 8"
    by (auto simp: f0 split: cret.splits if_splits)
  have ex: "\<forall>f \<in> set (report_fields m i). extract_field data f = Some (field_value data f)"
    using wf_fields_fit [OF assms(1)] len by (auto simp: report_fields_def intro!: extract_field_value(1))
  have "fr_buttons fr AND NOT (fr_buttons_present fr) = 0"
    using decoded_buttons_present [OF assms(1)] by (simp add: u8_subset_iff fr decoded_axes)
  with i ex show ?thesis
    by (simp add: fr decoded_axes axis_sum_int32 decoded_buttons [OF assms(1)])
qed

theorem decode_frame_witness:
  "\<exists>i. mouse_hid_report_index m720_map 7 = Ret i \<and> axis_sum MOUSE_X m720_map i m720_report = - 2048"
proof -
  show ?thesis using decode_frame [OF m720_wf m720_decode] by auto
qed



end
