(* ===== verification/Boundary_Guards.thy ===== *)
theory Boundary_Guards
  imports Prelude
begin

text \<open>
  The two smallest linker wrappers: \<open>src/smp_guard.c\<close> in front of \<open>bt_smp_init\<close>, and
  \<open>src/split_battery_guard.c\<close> in front of the split transport's event handler. The wrapped
  upstream functions are parameters (\<open>real\<close>); they run on an abstract world \<open>'w\<close>, so that
  "not called" is visible as an unchanged world.
\<close>

section \<open>SMP start-up guard\<close>

text \<open>\<open>BT_CMD_TEST(commands, octet, bit)\<close>\<close>

definition BT_CMD_TEST :: "u8 list \<Rightarrow> nat \<Rightarrow> nat \<Rightarrow> bool" where
  "BT_CMD_TEST commands octet b \<longleftrightarrow> commands ! octet AND push_bit b 1 \<noteq> 0"

definition wrap_bt_smp_init :: "u8 list \<Rightarrow> ('w \<Rightarrow> cret \<times> 'w) \<Rightarrow> 'w \<Rightarrow> cret \<times> 'w" where
  "wrap_bt_smp_init supported_commands real w =
     (if \<not> BT_CMD_TEST supported_commands 34 1 \<or> \<not> BT_CMD_TEST supported_commands 34 2
      then (Err ENOENT, w) else real w)"

lemma BT_CMD_TEST_bit: "BT_CMD_TEST commands octet b \<longleftrightarrow> bit (commands ! octet) b"
  unfolding BT_CMD_TEST_def and_BIT by simp

text \<open>The Bluetooth host's SMP only starts when the local controller supports both commands that
  Secure Connections needs (octet 34, bits 1 and 2); otherwise the call fails with \<open>-ENOENT\<close> and the
  original initialisation does not run. Its own result is passed on unchanged.\<close>

theorem smp_init_requires_sc:
  "wrap_bt_smp_init cmds real w =
     (if bit (cmds ! 34) 1 \<and> bit (cmds ! 34) 2 then real w else (Err ENOENT, w))"
  by (auto simp: wrap_bt_smp_init_def BT_CMD_TEST_bit)

section \<open>Split battery guard\<close>

text \<open>The event types the guard distinguishes; \<open>'d\<close> is the payload.\<close>

datatype event_type = BATTERY_EVENT | OTHER_EVENT nat

record 'd peripheral_event =
  ev_type :: event_type
  ev_data :: 'd

definition wrap_peripheral_event_handler ::
    "nat \<Rightarrow> ('t \<Rightarrow> u8 \<Rightarrow> 'd peripheral_event \<Rightarrow> 'w \<Rightarrow> cret \<times> 'w) \<Rightarrow>
     't \<Rightarrow> u8 \<Rightarrow> 'd peripheral_event \<Rightarrow> 'w \<Rightarrow> cret \<times> 'w" where
  "wrap_peripheral_event_handler peripheral_count real transport source event w =
     (if ev_type event = BATTERY_EVENT \<and> peripheral_count \<le> unat source
      then (Err EINVAL, w) else real transport source event w)"

text \<open>
  The upstream handler's contract: it indexes an array of \<open>count\<close> battery levels with the
  source of a battery event. \<open>levels\<close> reads that array from the world; a write outside it
  is the behaviour the guard has to exclude.
\<close>

locale battery_array =
  fixes handler :: "'t \<Rightarrow> u8 \<Rightarrow> 'd peripheral_event \<Rightarrow> 'w \<Rightarrow> cret \<times> 'w"
    and levels :: "'w \<Rightarrow> u8 list"
    and level_of :: "'d \<Rightarrow> u8"
    and count :: nat
  assumes battery_write: "ev_type e = BATTERY_EVENT \<Longrightarrow> unat s < count \<Longrightarrow> length (levels w) = count \<Longrightarrow>
      levels (snd (handler t s e w)) = (levels w)[unat s := level_of (ev_data e)]"
    and other_frame: "ev_type e \<noteq> BATTERY_EVENT \<Longrightarrow> levels (snd (handler t s e w)) = levels w"
begin

lemma guarded_levels:
  "length (levels w) = count \<Longrightarrow>
   levels (snd (wrap_peripheral_event_handler count handler t s e w)) =
     (if ev_type e = BATTERY_EVENT \<and> unat s < count
      then (levels w)[unat s := level_of (ev_data e)] else levels w)"
  by (auto simp: wrap_peripheral_event_handler_def battery_write other_frame)

end

text \<open>The observable handler of \<open>tests/fixtures/split_event_sink.c\<close>: a failed assertion is recorded in \<open>sink_failed\<close>.\<close>

record event_sink =
  sink_batteries :: "u8 list"
  sink_calls :: nat
  sink_result :: cret
  sink_failed :: bool

definition sink_handler ::
    "'t \<Rightarrow> u8 \<Rightarrow> u8 peripheral_event \<Rightarrow> event_sink \<Rightarrow> cret \<times> event_sink" where
  "sink_handler transport source event w =
     (let w = w\<lparr>sink_calls := sink_calls w + 1\<rparr>;
          w = (if ev_type event = BATTERY_EVENT then
                 if unat source < length (sink_batteries w)
                 then w\<lparr>sink_batteries := (sink_batteries w)[unat source := ev_data event]\<rparr>
                 else w\<lparr>sink_failed := True\<rparr>
               else w)
      in (sink_result w, w))"

interpretation sink: battery_array sink_handler sink_batteries "\<lambda>l. l" 4
  by unfold_locales (auto simp: sink_handler_def Let_def)



end
