(* ===== verification/Legacy_Config.thy ===== *)
theory Legacy_Config
  imports Prelude
begin

text \<open>
  The configuration under which the receiver compiles: \<open>include/ble_mouse/legacy_config.h\<close>, which is forced into every
  translation unit, and the conditions at the head of \<open>src/bond_compat.c\<close> and \<open>src/ble_mouse.c\<close>. A failed
  condition stops the build (\<open>None\<close>, \<open>False\<close>).
\<close>

record config =
  ZMK_BLE_MOUSE_LEGACY_PAIRING :: bool
  BT_SMP_SC_PAIR_ONLY :: bool
  BT_SMP_SC_ONLY :: bool
  BT_SMP_OOB_LEGACY_PAIR_ONLY :: bool
  BT_KEYS_OVERWRITE_OLDEST :: bool
  LEGACY_CONFIG_APPLIED :: bool

definition legacy_config :: "config \<Rightarrow> config option" where
  "legacy_config cfg =
     (if ZMK_BLE_MOUSE_LEGACY_PAIRING cfg then
        if \<not> BT_SMP_SC_PAIR_ONLY cfg then None
        else if BT_SMP_SC_ONLY cfg \<or> BT_SMP_OOB_LEGACY_PAIR_ONLY cfg then None
        else Some (cfg\<lparr>BT_SMP_SC_PAIR_ONLY := False, LEGACY_CONFIG_APPLIED := True\<rparr>)
      else Some cfg)"

definition ble_mouse_asserts :: "config \<Rightarrow> bool" where
  "ble_mouse_asserts cfg \<longleftrightarrow> \<not> BT_KEYS_OVERWRITE_OLDEST cfg"

definition bond_compat_asserts :: "config \<Rightarrow> bool" where
  "bond_compat_asserts cfg \<longleftrightarrow>
     \<not> (\<not> LEGACY_CONFIG_APPLIED cfg \<or> BT_SMP_SC_PAIR_ONLY cfg) \<and> \<not> BT_KEYS_OVERWRITE_OLDEST cfg"

text \<open>
  What a build with the bond adapter comes from: a configuration that asked for Legacy pairing of the mouse on top of
  Secure Connections pairing only, with no stronger policy to override. The shim changes nothing else, and
  a configuration without the option is left as it is, so that the adapter does not build there.
\<close>

lemma adapter_build:
  assumes "\<not> LEGACY_CONFIG_APPLIED cfg"
  shows "(\<exists>cfg'. legacy_config cfg = Some cfg' \<and> bond_compat_asserts cfg') \<longleftrightarrow>
    ZMK_BLE_MOUSE_LEGACY_PAIRING cfg \<and> BT_SMP_SC_PAIR_ONLY cfg \<and> \<not> BT_SMP_SC_ONLY cfg \<and>
    \<not> BT_SMP_OOB_LEGACY_PAIR_ONLY cfg \<and> ble_mouse_asserts cfg"
    "legacy_config cfg = Some cfg' \<Longrightarrow> ZMK_BLE_MOUSE_LEGACY_PAIRING cfg \<Longrightarrow>
       cfg'\<lparr>BT_SMP_SC_PAIR_ONLY := True, LEGACY_CONFIG_APPLIED := False\<rparr> = cfg"
  using assms by (auto simp: legacy_config_def bond_compat_asserts_def ble_mouse_asserts_def split: if_splits)

end
