(* ===== verification/Auth_Guard.thy ===== *)
theory Auth_Guard
  imports Prelude
begin

text \<open>
  Model of \<open>src/auth_guard.c\<close>: the wrapper around \<open>bt_conn_auth_cb_register\<close> that keeps
  an admission check in front of the application's pairing callbacks.

  A callback table is a record with one optional entry per function pointer; \<open>'f\<close> is the
  type of the callbacks the module never looks into, \<open>'c\<close> of connections. The entry
  \<open>pairing_accept\<close> of an installed table is one of the two C functions of this file, the
  application's own function is kept in \<open>application_accept\<close>. The registration function of the
  Bluetooth host is the parameter \<open>real\<close> on a world \<open>'w\<close>, and
  \<open>zmk_ble_mouse_legacy_pairing_allowed\<close> the parameter \<open>legacy_allowed\<close> (the BLE client).
\<close>

section \<open>The code\<close>

datatype security_err =
    BT_SECURITY_ERR_SUCCESS | BT_SECURITY_ERR_AUTH_REQUIREMENT
  | BT_SECURITY_ERR_PAIR_NOT_ALLOWED | BT_SECURITY_ERR_OTHER nat

record pairing_feat =
  auth_req :: u8

definition AUTH_SECURE_CONNECTIONS :: u8 where "AUTH_SECURE_CONNECTIONS = push_bit 3 1"

type_synonym 'c accept_fn = "'c option \<Rightarrow> pairing_feat option \<Rightarrow> security_err"

datatype accept_hook = SC_ONLY_ACCEPT | GUARDED_ACCEPT

record ('h, 'f) auth_cb =
  pairing_accept :: "'h option"
  passkey_display :: "'f option"
  passkey_entry :: "'f option"
  passkey_confirm :: "'f option"
  pairing_confirm :: "'f option"
  cancel :: "'f option"

record ('c, 'f) auth_guard =
  guarded_auth :: "(accept_hook, 'f) auth_cb"
  application_accept :: "'c accept_fn option"
  application_registered :: bool

definition sc_only_accept :: "'c accept_fn" where
  "sc_only_accept conn feat =
     (case feat of
        Some f \<Rightarrow> if auth_req f AND AUTH_SECURE_CONNECTIONS \<noteq> 0
                  then BT_SECURITY_ERR_SUCCESS else BT_SECURITY_ERR_AUTH_REQUIREMENT
      | None \<Rightarrow> BT_SECURITY_ERR_AUTH_REQUIREMENT)"

definition guarded_accept :: "('c \<Rightarrow> bool) \<Rightarrow> 'c accept_fn option \<Rightarrow> 'c accept_fn" where
  "guarded_accept legacy_allowed app conn feat =
     (case (conn, feat) of
        (Some c, Some f) \<Rightarrow>
          if auth_req f AND AUTH_SECURE_CONNECTIONS = 0 \<and> \<not> legacy_allowed c
          then BT_SECURITY_ERR_AUTH_REQUIREMENT
          else (case app of Some accept \<Rightarrow> accept conn feat | None \<Rightarrow> BT_SECURITY_ERR_SUCCESS)
      | _ \<Rightarrow> BT_SECURITY_ERR_PAIR_NOT_ALLOWED)"

definition initial_auth :: "(accept_hook, 'f) auth_cb" where
  "initial_auth = \<lparr>pairing_accept = Some SC_ONLY_ACCEPT, passkey_display = None, passkey_entry = None,
     passkey_confirm = None, pairing_confirm = None, cancel = None\<rparr>"

type_synonym ('f, 'w) register_fn = "(accept_hook, 'f) auth_cb option \<Rightarrow> 'w \<Rightarrow> cret \<times> 'w"

definition auth_guard_init ::
    "('f, 'w) register_fn \<Rightarrow> ('c, 'f) auth_guard \<Rightarrow> 'w \<Rightarrow> cret \<times> 'w" where
  "auth_guard_init real g w =
     (if application_registered g then (ok, w) else real (Some initial_auth) w)"

text \<open>\<open>guarded_auth = *cb; guarded_auth.pairing_accept = guarded_accept\<close>\<close>

definition guard_table :: "('c accept_fn, 'f) auth_cb \<Rightarrow> (accept_hook, 'f) auth_cb" where
  "guard_table cb =
     \<lparr>pairing_accept = Some GUARDED_ACCEPT, passkey_display = passkey_display cb,
      passkey_entry = passkey_entry cb, passkey_confirm = passkey_confirm cb,
      pairing_confirm = pairing_confirm cb, cancel = cancel cb\<rparr>"

definition wrap_auth_cb_register ::
    "('f, 'w) register_fn \<Rightarrow> ('c accept_fn, 'f) auth_cb option \<Rightarrow> ('c, 'f) auth_guard \<Rightarrow> 'w \<Rightarrow>
     cret \<times> ('c, 'f) auth_guard \<times> 'w" where
  "wrap_auth_cb_register real cbp g w =
     (case cbp of
        None \<Rightarrow> (Err ENOTSUP, g, w)
      | Some cb \<Rightarrow>
          if application_registered g then (Err EALREADY, g, w)
          else if cancel cb = None \<and>
                  (passkey_display cb \<noteq> None \<or> passkey_entry cb \<noteq> None \<or>
                   passkey_confirm cb \<noteq> None \<or> pairing_confirm cb \<noteq> None)
          then (Err EINVAL, g, w)
          else
            let g = g\<lparr>guarded_auth := guard_table cb, application_accept := pairing_accept cb\<rparr>;
                (err, w) = real None w
            in if err \<noteq> ok then (err, g, w)
               else
                 let (err, w) = real (Some (guarded_auth g)) w
                 in if err \<noteq> ok
                    then let (_, w) = real (Some initial_auth) w in (err, g, w)
                    else (ok, g\<lparr>application_registered := True\<rparr>, w))"

definition wrap_auth_cb_overlay :: "'c option \<Rightarrow> ('c accept_fn, 'f) auth_cb option \<Rightarrow> cret" where
  "wrap_auth_cb_overlay conn cb = (if conn \<noteq> None then Err ENOTSUP else Err EINVAL)"

text \<open>The decision of an installed table: its hook, run in the guard's current state.\<close>

definition table_accept ::
    "('c \<Rightarrow> bool) \<Rightarrow> ('c, 'f) auth_guard \<Rightarrow> (accept_hook, 'f) auth_cb \<Rightarrow> 'c accept_fn" where
  "table_accept legacy_allowed g cb conn feat =
     (case pairing_accept cb of
        None \<Rightarrow> BT_SECURITY_ERR_SUCCESS
      | Some SC_ONLY_ACCEPT \<Rightarrow> sc_only_accept conn feat
      | Some GUARDED_ACCEPT \<Rightarrow> guarded_accept legacy_allowed (application_accept g) conn feat)"

section \<open>The registration interface of the Bluetooth host\<close>

text \<open>
  What the module relies on: \<open>NULL\<close> removes the table, a refused registration changes
  nothing, an accepted one installs the table given, and after a refusal with no table
  installed the built-in table (which has no I/O callbacks) is accepted.
\<close>

locale auth_host =
  fixes real :: "('f, 'w) register_fn"
    and installed :: "'w \<Rightarrow> (accept_hook, 'f) auth_cb option"
  assumes remove: "real None w = (ok, w') \<Longrightarrow> installed w' = None"
    and remove_fails: "real None w = (e, w') \<Longrightarrow> e \<noteq> ok \<Longrightarrow> installed w' = installed w"
    and install: "real (Some cb) w = (ok, w') \<Longrightarrow> installed w' = Some cb"
    and refuse: "real (Some cb) w = (e, w') \<Longrightarrow> e \<noteq> ok \<Longrightarrow> installed w' = installed w"
    and restore: "real (Some cb) w = (e, w') \<Longrightarrow> e \<noteq> ok \<Longrightarrow> installed w = None \<Longrightarrow>
      fst (real (Some initial_auth) w') = ok"
begin

text \<open>The table in force is the built-in one until the application's guarded table replaces it.\<close>

definition guard_inv :: "('c, 'f) auth_guard \<Rightarrow> 'w \<Rightarrow> bool" where
  "guard_inv g w \<longleftrightarrow>
     (if application_registered g
      then installed w = Some (guarded_auth g) \<and> pairing_accept (guarded_auth g) = Some GUARDED_ACCEPT
      else installed w = Some initial_auth)"

lemma init_inv:
  assumes "\<not> application_registered g" and "auth_guard_init real g w = (ok, w')"
  shows "guard_inv g w'"
  using assms install by (simp add: auth_guard_init_def guard_inv_def)

lemma register_inv:
  assumes "guard_inv g w" and "wrap_auth_cb_register real cbp g w = (err, g', w')"
  shows "guard_inv g' w'"
proof (cases "cbp = None \<or> application_registered g \<or> g' = g \<and> w' = w")
  case True
  then show ?thesis using assms by (auto simp: wrap_auth_cb_register_def split: option.splits)
next
  case False
  then obtain cb where cb: "cbp = Some cb" by auto
  obtain e1 w1 where r1: "real None w = (e1, w1)" by fastforce
  define g1 where "g1 = g\<lparr>guarded_auth := guard_table cb, application_accept := pairing_accept cb\<rparr>"
  obtain e2 w2 where r2: "real (Some (guarded_auth g1)) w1 = (e2, w2)" by fastforce
  obtain e3 w3 where r3: "real (Some initial_auth) w2 = (e3, w3)" by fastforce
  from assms(2) False cb r1 r2 r3 have
    run: "(err, g', w') = (if e1 \<noteq> ok then (e1, g1, w1) else if e2 \<noteq> ok then (e2, g1, w3)
            else (ok, g1\<lparr>application_registered := True\<rparr>, w2))"
    by (auto simp: wrap_auth_cb_register_def g1_def Let_def split: if_splits)
  have before: "installed w = Some initial_auth" "\<not> application_registered g1"
    using assms(1) False by (auto simp: guard_inv_def g1_def)
  show ?thesis
  proof (cases "e1 = ok")
    case failed: False
    then show ?thesis using run before remove_fails [OF r1] by (simp add: guard_inv_def)
  next
    case ok1: True
    then have gone: "installed w1 = None" using remove r1 by simp
    show ?thesis
    proof (cases "e2 = ok")
      case True
      then show ?thesis using run ok1 install r2
        by (simp add: guard_inv_def g1_def guard_table_def)
    next
      case fail2: False
      then have "e3 = ok" using restore [OF r2 _ gone] r3 by simp
      then show ?thesis using run ok1 fail2 before install r3 by (simp add: guard_inv_def)
    qed
  qed
qed

fun registrations :: "('c accept_fn, 'f) auth_cb option list \<Rightarrow> ('c, 'f) auth_guard \<Rightarrow> 'w \<Rightarrow>
    ('c, 'f) auth_guard \<times> 'w" where
  "registrations [] g w = (g, w)"
| "registrations (cb # cbs) g w =
     (let (_, g, w) = wrap_auth_cb_register real cb g w in registrations cbs g w)"

lemma registrations_inv:
  "guard_inv g w \<Longrightarrow> registrations cbs g w = (g', w') \<Longrightarrow> guard_inv g' w'"
proof (induction cbs arbitrary: g w)
  case (Cons cb cbs)
  then show ?case by (auto split: prod.splits dest: register_inv)
qed simp

lemma inv_accept:
  assumes "guard_inv g w"
  shows "\<exists>cb. installed w = Some cb \<and>
    (\<forall>legacy c f. table_accept legacy g cb (Some c) (Some f) = BT_SECURITY_ERR_SUCCESS \<longrightarrow>
       (auth_req f AND AUTH_SECURE_CONNECTIONS \<noteq> 0 \<or> legacy c) \<and>
       (application_registered g \<longrightarrow>
          (\<forall>a. application_accept g = Some a \<longrightarrow> a (Some c) (Some f) = BT_SECURITY_ERR_SUCCESS)))"
proof (cases "application_registered g")
  case True
  then show ?thesis using assms
    by (auto simp: guard_inv_def table_accept_def guarded_accept_def split: if_splits)
next
  case False
  then show ?thesis using assms
    by (auto simp: guard_inv_def table_accept_def initial_auth_def sc_only_accept_def split: if_splits)
qed

end

section \<open>The repository's own host\<close>

text \<open>\<open>tests/fixtures/auth_sink.c\<close>: a pending registration error is reported once.\<close>

record 'f auth_sink =
  sink_auth :: "(accept_hook, 'f) auth_cb option"
  sink_registration_error :: "errno option"

definition sink_register :: "('f, 'f auth_sink) register_fn" where
  "sink_register cbp w =
     (case cbp of
        None \<Rightarrow> (ok, w\<lparr>sink_auth := None\<rparr>)
      | Some cb \<Rightarrow>
          (case sink_registration_error w of
             Some e \<Rightarrow> (Err e, w\<lparr>sink_registration_error := None\<rparr>)
           | None \<Rightarrow> if sink_auth w \<noteq> None then (Err EALREADY, w) else (ok, w\<lparr>sink_auth := Some cb\<rparr>)))"

interpretation sink_host: auth_host sink_register sink_auth
  by unfold_locales
    (auto simp: sink_register_def split: option.splits if_splits)

section \<open>Properties\<close>

text \<open>C18: The admission policy holds from start-up on. After the boot-time registration and any sequence of
  later registration calls (refused, failing half-way or successful), some table is installed, and
  a pairing request without the Secure Connections bit is accepted by it only for a connection that
  the client allows at that moment; once the application is registered, its own rejection stands.\<close>

theorem auth_policy:
  assumes "auth_host real installed" and "\<not> application_registered g"
    and "auth_guard_init real g w = (ok, w1)"
    and "auth_host.registrations real cbs g w1 = (g', w')"
  shows "\<exists>cb. installed w' = Some cb \<and>
    (\<forall>legacy c f. table_accept legacy g' cb (Some c) (Some f) = BT_SECURITY_ERR_SUCCESS \<longrightarrow>
       (auth_req f AND AUTH_SECURE_CONNECTIONS \<noteq> 0 \<or> legacy c) \<and>
       (application_registered g' \<longrightarrow>
          (\<forall>a. application_accept g' = Some a \<longrightarrow> a (Some c) (Some f) = BT_SECURITY_ERR_SUCCESS)))"
  using auth_host.inv_accept [OF assms(1)]
    auth_host.registrations_inv [OF assms(1) auth_host.init_inv [OF assms(1,2,3)] assms(4)] .

definition fresh_guard :: "(nat, unit) auth_guard" where
  "fresh_guard = \<lparr>guarded_auth = initial_auth, application_accept = None, application_registered = False\<rparr>"

definition empty_sink :: "unit auth_sink" where
  "empty_sink = \<lparr>sink_auth = None, sink_registration_error = None\<rparr>"

definition accepting_app :: "(nat accept_fn, unit) auth_cb" where
  "accepting_app = \<lparr>pairing_accept = Some (\<lambda>_ _. BT_SECURITY_ERR_SUCCESS), passkey_display = None,
     passkey_entry = None, passkey_confirm = None, pairing_confirm = None, cancel = Some ()\<rparr>"

lemma sink_session:
  "auth_guard_init sink_register fresh_guard empty_sink = (ok, empty_sink\<lparr>sink_auth := Some initial_auth\<rparr>)"
  "sink_host.registrations [None, Some accepting_app, Some accepting_app] fresh_guard
     (empty_sink\<lparr>sink_auth := Some initial_auth\<rparr>) =
   (fresh_guard\<lparr>guarded_auth := guard_table accepting_app,
      application_accept := pairing_accept accepting_app, application_registered := True\<rparr>,
    empty_sink\<lparr>sink_auth := Some (guard_table accepting_app)\<rparr>)"
  by (simp_all add: auth_guard_init_def fresh_guard_def sink_register_def empty_sink_def
      wrap_auth_cb_register_def accepting_app_def Let_def)

theorem auth_policy_witness:
  "\<exists>cb. sink_auth (snd (sink_host.registrations [None, Some accepting_app, Some accepting_app] fresh_guard
       (empty_sink\<lparr>sink_auth := Some initial_auth\<rparr>))) = Some cb"
proof -
  have "\<not> application_registered fresh_guard" by (simp add: fresh_guard_def)
  from auth_policy [OF sink_host.auth_host_axioms this sink_session] show ?thesis
    unfolding sink_session(2) by auto
qed

text \<open>The accept decision of the guarded table, case by case: missing arguments are refused, Legacy
  requests are refused unless the client allows them, and everything else is the application's decision
  (acceptance when it has no callback). The boot table accepts exactly the requests with the Secure
  Connections bit; overlays are always refused, and so are removal and re-registration.\<close>

theorem accept_decisions:
  "guarded_accept legacy app conn feat =
     (case (conn, feat) of
        (Some c, Some f) \<Rightarrow>
          if bit (auth_req f) 3 \<or> legacy c
          then (case app of None \<Rightarrow> BT_SECURITY_ERR_SUCCESS | Some a \<Rightarrow> a conn feat)
          else BT_SECURITY_ERR_AUTH_REQUIREMENT
      | _ \<Rightarrow> BT_SECURITY_ERR_PAIR_NOT_ALLOWED) \<and>
   (sc_only_accept conn feat = BT_SECURITY_ERR_SUCCESS \<longleftrightarrow> (\<exists>f. feat = Some f \<and> bit (auth_req f) 3)) \<and>
   wrap_auth_cb_overlay conn cb \<in> {Err ENOTSUP, Err EINVAL} \<and>
   wrap_auth_cb_register real None g w = (Err ENOTSUP, g, w) \<and>
   (application_registered g \<longrightarrow> wrap_auth_cb_register real (Some cb') g w = (Err EALREADY, g, w))"
proof -
  have sc: "a AND AUTH_SECURE_CONNECTIONS = 0 \<longleftrightarrow> \<not> bit a 3" for a
    unfolding AUTH_SECURE_CONNECTIONS_def by (rule and_BIT)
  show ?thesis
    by (auto simp: guarded_accept_def sc_only_accept_def wrap_auth_cb_overlay_def
        wrap_auth_cb_register_def sc split: option.split)
qed

theorem accept_decisions_witness:
  "wrap_auth_cb_register sink_register (Some accepting_app) (fresh_guard\<lparr>application_registered := True\<rparr>) empty_sink
     = (Err EALREADY, fresh_guard\<lparr>application_registered := True\<rparr>, empty_sink)"
  using accept_decisions [of "\<lambda>_. True" None "Some (0 :: nat)" None "None :: (nat accept_fn, unit) auth_cb option"
      sink_register "fresh_guard\<lparr>application_registered := True\<rparr>" empty_sink accepting_app] by simp

end
