(* ===== verification/Bond_Compat.thy ===== *)
theory Bond_Compat
  imports Prelude
begin

text \<open>
  Model of \<open>src/bond_compat.c\<close>: the wrappers around \<open>settings_call_set_handler\<close> and
  \<open>settings_save_one\<close> that read and write the short bond records of SC-only firmware.

  The layout of \<open>struct bt_keys\<close> and the key flags belong to the Bluetooth host: they are
  the parameter \<open>keys_layout\<close>, constrained by the file's own \<open>BUILD_ASSERT\<close>s
  (\<open>layout_asserts\<close>). The wrapped functions, the storage reader and \<open>settings_name_steq\<close>
  are parameters too, on a world \<open>'w\<close>. A reader gets the number of bytes asked for and
  returns an error or the bytes it delivered; a null pointer is \<open>None\<close>.
\<close>

section \<open>The code\<close>

record keys_layout =
  off_storage_start :: nat
  off_enc_size :: nat
  off_flags :: nat
  off_keys :: nat
  off_ltk :: nat
  off_irk :: nat
  off_periph_ltk :: nat
  sizeof_ltk :: nat
  sizeof_irk :: nat
  signing_bytes :: nat \<comment> \<open>size of the two CSRKs with \<open>CONFIG_BT_SIGNING\<close>, else 0\<close>
  align_keys :: nat
  sizeof_keys :: nat
  BT_KEYS_SC :: u8
  BT_KEYS_LTK_P256 :: u16
  BT_KEYS_LTK :: u16
  BT_KEYS_PERIPH_LTK :: u16
  BT_KEYS_ALL :: u16

definition ROUND_UP :: "nat \<Rightarrow> nat \<Rightarrow> nat" where
  "ROUND_UP x a = (x + a - 1) div a * a"

definition OLD_FIELDS_LEN :: "keys_layout \<Rightarrow> nat" where
  "OLD_FIELDS_LEN L = off_periph_ltk L - off_storage_start L"

definition OLD_STORAGE_LEN :: "keys_layout \<Rightarrow> nat" where
  "OLD_STORAGE_LEN L = ROUND_UP (off_periph_ltk L) (align_keys L) - off_storage_start L"

definition BT_KEYS_STORAGE_LEN :: "keys_layout \<Rightarrow> nat" where
  "BT_KEYS_STORAGE_LEN L = sizeof_keys L - off_storage_start L"

definition layout_asserts :: "keys_layout \<Rightarrow> bool" where
  "layout_asserts L \<longleftrightarrow>
     off_enc_size L = off_storage_start L \<and>
     off_flags L = off_storage_start L + 1 \<and>
     off_keys L = off_storage_start L + 2 \<and>
     off_ltk L = off_storage_start L + 4 \<and>
     sizeof_ltk L = 26 \<and> sizeof_irk L = 22 \<and> off_irk L = off_ltk L + 26 \<and>
     off_periph_ltk L = off_irk L + 22 + signing_bytes L \<and>
     sizeof_keys L = ROUND_UP (off_periph_ltk L + sizeof_ltk L) (align_keys L) \<and>
     OLD_FIELDS_LEN L \<le> OLD_STORAGE_LEN L \<and> OLD_STORAGE_LEN L < BT_KEYS_STORAGE_LEN L"

definition is_bond_key :: "string option \<Rightarrow> bool" where
  "is_bond_key name =
     (case name of
        None \<Rightarrow> False
      | Some n \<Rightarrow> take 8 n = ''bt/keys/'' \<and> 8 < length n)"

definition sc_record :: "keys_layout \<Rightarrow> u8 list \<Rightarrow> bool" where
  "sc_record L data =
     (let types_off = off_keys L - off_storage_start L;
          types = ucast (data ! types_off) OR push_bit 8 (ucast (data ! (types_off + 1))) :: u16;
          enc = data ! (off_enc_size L - off_storage_start L);
          flags = data ! (off_flags L - off_storage_start L)
      in 7 \<le> enc \<and> enc \<le> 16 \<and> flags AND BT_KEYS_SC L \<noteq> 0 \<and> types AND BT_KEYS_LTK_P256 L \<noteq> 0 \<and>
         types AND (BT_KEYS_LTK L OR BT_KEYS_PERIPH_LTK L) = 0 \<and> types AND NOT (BT_KEYS_ALL L) = 0)"

type_synonym 'w reader = "nat \<Rightarrow> 'w \<Rightarrow> (errno + u8 list) \<times> 'w"

definition read_adapted :: "u8 list \<Rightarrow> 'w reader" where
  "read_adapted bytes len w = (let len = min len (length bytes) in (Inr (take len bytes), w))"

record 'p load_arg =
  subtree :: "string option"
  load_cb :: "'p option"

type_synonym ('p, 'w) set_handler =
  "string option \<Rightarrow> nat \<Rightarrow> 'w reader \<Rightarrow> 'p load_arg option \<Rightarrow> 'w \<Rightarrow> cret \<times> 'w"

definition wrap_settings_call_set_handler ::
    "keys_layout \<Rightarrow> (string \<Rightarrow> string \<Rightarrow> bool) \<Rightarrow> ('p, 'w) set_handler \<Rightarrow> ('p, 'w) set_handler" where
  "wrap_settings_call_set_handler L steq real name len read_cb arg w =
     (if \<not> is_bond_key name \<or> len = 0 \<or>
         (case arg of
            None \<Rightarrow> False
          | Some a \<Rightarrow> load_cb a \<noteq> None \<or>
              (case subtree a of None \<Rightarrow> False | Some t \<Rightarrow> \<not> steq (the name) t))
      then real name len read_cb arg w
      else if len = BT_KEYS_STORAGE_LEN L then real name len read_cb arg w
      else if len \<noteq> OLD_STORAGE_LEN L then (Err EINVAL, w)
      else
        let (got, w) = read_cb (OLD_STORAGE_LEN L) w
        in case got of
             Inl e \<Rightarrow> (Err e, w)
           | Inr bytes \<Rightarrow>
               if length bytes \<noteq> OLD_STORAGE_LEN L \<or> \<not> sc_record L bytes then (Err EINVAL, w)
               else
                 let val = take (OLD_FIELDS_LEN L) bytes @
                           replicate (BT_KEYS_STORAGE_LEN L - OLD_FIELDS_LEN L) 0
                 in real name (length val) (read_adapted val) arg w)"

type_synonym 'w save_fn = "string option \<Rightarrow> u8 list option \<Rightarrow> nat \<Rightarrow> 'w \<Rightarrow> cret \<times> 'w"

definition wrap_settings_save_one :: "keys_layout \<Rightarrow> 'w save_fn \<Rightarrow> 'w save_fn" where
  "wrap_settings_save_one L real name val len w =
     (case val of
        Some bytes \<Rightarrow>
          if is_bond_key name \<and> len = BT_KEYS_STORAGE_LEN L \<and> sc_record L bytes
          then let old = take (OLD_FIELDS_LEN L) bytes @
                         replicate (OLD_STORAGE_LEN L - OLD_FIELDS_LEN L) 0
               in real name (Some old) (length old) w
          else real name val len w
      | None \<Rightarrow> real name val len w)"

section \<open>Expanding and shortening\<close>

text \<open>The two conversions the wrappers perform on a record.\<close>

definition expand :: "keys_layout \<Rightarrow> u8 list \<Rightarrow> u8 list" where
  "expand L bytes = take (OLD_FIELDS_LEN L) bytes @ replicate (BT_KEYS_STORAGE_LEN L - OLD_FIELDS_LEN L) 0"

definition shorten :: "keys_layout \<Rightarrow> u8 list \<Rightarrow> u8 list" where
  "shorten L bytes = take (OLD_FIELDS_LEN L) bytes @ replicate (OLD_STORAGE_LEN L - OLD_FIELDS_LEN L) 0"

lemma layout_lengths:
  assumes "layout_asserts L"
  shows "52 \<le> OLD_FIELDS_LEN L" and "OLD_FIELDS_LEN L \<le> OLD_STORAGE_LEN L"
    and "OLD_STORAGE_LEN L < BT_KEYS_STORAGE_LEN L"
  using assms by (auto simp: layout_asserts_def OLD_FIELDS_LEN_def)

lemma length_expand:
  "layout_asserts L \<Longrightarrow> OLD_FIELDS_LEN L \<le> length bytes \<Longrightarrow> length (expand L bytes) = BT_KEYS_STORAGE_LEN L"
  using layout_lengths [of L] by (simp add: expand_def)

lemma length_shorten:
  "layout_asserts L \<Longrightarrow> OLD_FIELDS_LEN L \<le> length bytes \<Longrightarrow> length (shorten L bytes) = OLD_STORAGE_LEN L"
  using layout_lengths [of L] by (simp add: shorten_def)

lemma take_expand [simp]:
  "OLD_FIELDS_LEN L \<le> length bytes \<Longrightarrow>
   take (OLD_FIELDS_LEN L) (expand L bytes) = take (OLD_FIELDS_LEN L) bytes"
  by (simp add: expand_def)

lemma take_shorten [simp]:
  "OLD_FIELDS_LEN L \<le> length bytes \<Longrightarrow>
   take (OLD_FIELDS_LEN L) (shorten L bytes) = take (OLD_FIELDS_LEN L) bytes"
  by (simp add: shorten_def)

lemma expand_shorten: "OLD_FIELDS_LEN L \<le> length bytes \<Longrightarrow> expand L (shorten L bytes) = expand L bytes"
  unfolding expand_def by simp

lemma shorten_expand: "OLD_FIELDS_LEN L \<le> length bytes \<Longrightarrow> shorten L (expand L bytes) = shorten L bytes"
  unfolding shorten_def by simp

text \<open>Whether a record is an SC record depends on its first four bytes only.\<close>

lemma sc_record_prefix:
  assumes "layout_asserts L" and "take (OLD_FIELDS_LEN L) a = take (OLD_FIELDS_LEN L) b"
  shows "sc_record L a = sc_record L b"
proof -
  have "a ! i = b ! i" if "i < 4" for i
  proof -
    have "i < OLD_FIELDS_LEN L" using that layout_lengths(1) [OF assms(1)] by linarith
    then show ?thesis using arg_cong [OF assms(2), of "\<lambda>xs. xs ! i"] by simp
  qed
  then show ?thesis using assms(1) by (simp add: sc_record_def layout_asserts_def Let_def)
qed

lemma sc_record_expand:
  "layout_asserts L \<Longrightarrow> OLD_FIELDS_LEN L \<le> length bytes \<Longrightarrow> sc_record L (expand L bytes) = sc_record L bytes"
  by (rule sc_record_prefix) simp_all

lemma sc_record_shorten:
  "layout_asserts L \<Longrightarrow> OLD_FIELDS_LEN L \<le> length bytes \<Longrightarrow> sc_record L (shorten L bytes) = sc_record L bytes"
  by (rule sc_record_prefix) simp_all

text \<open>What the wrappers do, in these terms.\<close>

definition adapts :: "(string \<Rightarrow> string \<Rightarrow> bool) \<Rightarrow> string option \<Rightarrow> nat \<Rightarrow> 'p load_arg option \<Rightarrow> bool" where
  "adapts steq name len arg \<longleftrightarrow>
     is_bond_key name \<and> len \<noteq> 0 \<and>
     (\<forall>a. arg = Some a \<longrightarrow> load_cb a = None \<and> (\<forall>t. subtree a = Some t \<longrightarrow> steq (the name) t))"

lemma load_cases:
  "wrap_settings_call_set_handler L steq real name len read_cb arg w =
     (if \<not> adapts steq name len arg \<or> len = BT_KEYS_STORAGE_LEN L then real name len read_cb arg w
      else if len \<noteq> OLD_STORAGE_LEN L then (Err EINVAL, w)
      else case read_cb (OLD_STORAGE_LEN L) w of
             (Inl e, w') \<Rightarrow> (Err e, w')
           | (Inr bytes, w') \<Rightarrow>
               if length bytes = OLD_STORAGE_LEN L \<and> sc_record L bytes
               then real name (length (expand L bytes)) (read_adapted (expand L bytes)) arg w'
               else (Err EINVAL, w'))"
  by (auto simp: wrap_settings_call_set_handler_def adapts_def expand_def Let_def
      split: option.split prod.split sum.split)

lemma save_cases:
  "wrap_settings_save_one L real name (Some bytes) len w =
     (if is_bond_key name \<and> len = BT_KEYS_STORAGE_LEN L \<and> sc_record L bytes
      then real name (Some (shorten L bytes)) (length (shorten L bytes)) w
      else real name (Some bytes) len w)"
  by (simp add: wrap_settings_save_one_def shorten_def Let_def)

section \<open>The storage interface of the host\<close>

text \<open>
  What the adapter relies on from the wrapped functions: the set handler reads the record once, for
  the length it was told, and hands the bytes on (\<open>delivered\<close>); saving stores the given bytes
  under the name (\<open>stored\<close>).
\<close>

locale settings_backend =
  fixes real_set :: "('p, 'w) set_handler"
    and real_save :: "'w save_fn"
    and delivered :: "'w \<Rightarrow> u8 list"
    and stored :: "'w \<Rightarrow> string option \<Rightarrow> u8 list"
  assumes deliver: "reader len w = (Inr bytes, w') \<Longrightarrow>
      delivered (snd (real_set name len reader arg w)) = bytes"
    and store: "length bytes = len \<Longrightarrow> stored (snd (real_save name (Some bytes) len w)) name = bytes"
begin

text \<open>Loading a stored value through the adapter, for a name and load arguments it handles.\<close>

definition load :: "keys_layout \<Rightarrow> (string \<Rightarrow> string \<Rightarrow> bool) \<Rightarrow> string option \<Rightarrow> 'p load_arg option \<Rightarrow>
    u8 list \<Rightarrow> 'w \<Rightarrow> u8 list" where
  "load L steq name arg bytes w =
     delivered (snd (wrap_settings_call_set_handler L steq real_set name (length bytes) (read_adapted bytes) arg w))"

lemma load_full: "length bytes = BT_KEYS_STORAGE_LEN L \<Longrightarrow> load L steq name arg bytes w = bytes"
  using deliver [of "read_adapted bytes" "length bytes" w bytes w]
  by (simp add: load_def load_cases read_adapted_def)

lemma load_short:
  assumes "layout_asserts L" and "length bytes = OLD_STORAGE_LEN L" and "sc_record L bytes"
    and "adapts steq name (length bytes) arg"
  shows "load L steq name arg bytes w = expand L bytes"
  using deliver [of "read_adapted (expand L bytes)" "length (expand L bytes)" w "expand L bytes" w]
    layout_lengths [OF assms(1)] assms(2-)
  by (simp add: load_def load_cases read_adapted_def)

lemma save_stores:
  assumes "layout_asserts L" and "is_bond_key name" and "length bytes = BT_KEYS_STORAGE_LEN L"
  shows "stored (snd (wrap_settings_save_one L real_save name (Some bytes) (length bytes) w)) name =
         (if sc_record L bytes then shorten L bytes else bytes)"
  using assms store by (simp add: save_cases)

lemma save_load:
  assumes L: "layout_asserts L" and len: "length bytes = BT_KEYS_STORAGE_LEN L"
    and ad: "adapts steq name 1 arg"
    and s: "s = stored (snd (wrap_settings_save_one L real_save name (Some bytes) (length bytes) w)) name"
  shows "load L steq name arg s w' = (if sc_record L bytes then expand L bytes else bytes)"
proof -
  have key: "is_bond_key name" and ad': "\<And>n. n \<noteq> 0 \<Longrightarrow> adapts steq name n arg"
    using ad by (auto simp: adapts_def)
  have le: "OLD_FIELDS_LEN L \<le> length bytes" using layout_lengths [OF L] len by linarith
  show ?thesis
  proof (cases "sc_record L bytes")
    case True
    have s': "s = shorten L bytes" using s save_stores [OF L key len] True by simp
    have n: "length s = OLD_STORAGE_LEN L" using s' length_shorten [OF L le] by simp
    have "load L steq name arg s w' = expand L s"
      using layout_lengths [OF L] n s' sc_record_shorten [OF L le] True
      by (intro load_short [OF L n] ad') auto
    then show ?thesis using True s' expand_shorten [OF le] by simp
  next
    case False
    then have "s = bytes" using s save_stores [OF L key len] by simp
    then show ?thesis using False len load_full by simp
  qed
qed

end

section \<open>The host test's layouts and storage\<close>

text \<open>The layouts of \<open>tests/stubs/keys.h\<close> on a 64-bit host, without and with signing keys.\<close>

definition stub_layout :: "nat \<Rightarrow> keys_layout" where
  "stub_layout signing =
     \<lparr>off_storage_start = 16, off_enc_size = 16, off_flags = 17, off_keys = 18, off_ltk = 20,
      off_irk = 46, off_periph_ltk = 68 + signing, sizeof_ltk = 26, sizeof_irk = 22,
      signing_bytes = signing, align_keys = 8, sizeof_keys = ROUND_UP (68 + signing + 26) 8,
      BT_KEYS_SC = 16, BT_KEYS_LTK_P256 = 32, BT_KEYS_LTK = 4, BT_KEYS_PERIPH_LTK = 1,
      BT_KEYS_ALL = 0x3f\<rparr>"

lemma stub_layout_ok: "layout_asserts (stub_layout 0)" "layout_asserts (stub_layout 40)"
  by (simp_all add: layout_asserts_def stub_layout_def ROUND_UP_def OLD_FIELDS_LEN_def
      OLD_STORAGE_LEN_def BT_KEYS_STORAGE_LEN_def)

lemma stub_lengths:
  "OLD_FIELDS_LEN (stub_layout 0) = 52" "OLD_STORAGE_LEN (stub_layout 0) = 56"
  "BT_KEYS_STORAGE_LEN (stub_layout 0) = 80"
  by (simp_all add: stub_layout_def ROUND_UP_def OLD_FIELDS_LEN_def OLD_STORAGE_LEN_def
      BT_KEYS_STORAGE_LEN_def)

text \<open>
  The sink of \<open>tests/fixtures/settings_sink.c\<close>: the set handler reads the whole record into
  \<open>sink_bytes\<close>, saving stores the value and its length there.
\<close>

record settings_sink =
  sink_bytes :: "u8 list"
  sink_result :: cret

definition sink_set_handler :: "('p, settings_sink) set_handler" where
  "sink_set_handler name len read_cb arg w =
     (let (got, w) = read_cb len w
      in (sink_result w, w\<lparr>sink_bytes := (case got of Inr bytes \<Rightarrow> bytes | Inl _ \<Rightarrow> sink_bytes w)\<rparr>))"

definition sink_save_one :: "settings_sink save_fn" where
  "sink_save_one name val len w =
     (sink_result w, case val of Some bytes \<Rightarrow> w\<lparr>sink_bytes := take len bytes\<rparr> | None \<Rightarrow> w\<lparr>sink_bytes := []\<rparr>)"

definition sc_bond :: "u8 list" where
  "sc_bond = [16, 16, 34, 0] @ map of_nat [37 ..< 85] @ [1, 2, 3, 4]"

lemma sc_bond_ok: "length sc_bond = 56" "sc_record (stub_layout 0) sc_bond"
  by code_simp+


interpretation sink_store: settings_backend
  "sink_set_handler :: ('p, settings_sink) set_handler" sink_save_one sink_bytes "\<lambda>w _. sink_bytes w"
  by unfold_locales (simp_all add: sink_set_handler_def sink_save_one_def)

section \<open>Properties\<close>


definition all_names :: "string \<Rightarrow> string \<Rightarrow> bool" where
  "all_names _ _ = True"

definition empty_store :: settings_sink where
  "empty_store = \<lparr>sink_bytes = [], sink_result = ok\<rparr>"

definition full_bond :: "u8 list" where
  "full_bond = take 52 sc_bond @ replicate 28 0"

lemma full_bond_ok: "length full_bond = BT_KEYS_STORAGE_LEN (stub_layout 0)" "sc_record (stub_layout 0) full_bond"
  unfolding stub_lengths by code_simp+


text \<open>C33: A record the adapter cannot take is refused without touching anything. For a bond key that the
  loader wants adapted: a record of neither length is refused with \<open>-EINVAL\<close> and never read; a read
  error is returned as it is; a short or non-SC record is refused with \<open>-EINVAL\<close>. In all these cases
  the host's handler (which deletes what it cannot parse) is not called: the only change of the world
  is the one made by the read.\<close>

theorem load_refusals:
  assumes "layout_asserts L" and "adapts steq name len arg" and "len \<noteq> BT_KEYS_STORAGE_LEN L"
    and "r = wrap_settings_call_set_handler L steq real_set name len reader arg w"
  shows "if len \<noteq> OLD_STORAGE_LEN L then r = (Err EINVAL, w)
    else (case reader len w of
        (Inl e, w') \<Rightarrow> r = (Err e, w')
      | (Inr bytes, w') \<Rightarrow>
          (length bytes \<noteq> OLD_STORAGE_LEN L \<or> \<not> sc_record L bytes \<longrightarrow> r = (Err EINVAL, w')) \<and>
          (length bytes = OLD_STORAGE_LEN L \<and> sc_record L bytes \<longrightarrow>
             (\<exists>val. length val = BT_KEYS_STORAGE_LEN L \<and> sc_record L val \<and>
                r = real_set name (BT_KEYS_STORAGE_LEN L) (read_adapted val) arg w')))"
proof -
  have "length bytes = OLD_STORAGE_LEN L \<Longrightarrow> length (expand L bytes) = BT_KEYS_STORAGE_LEN L \<and>
      sc_record L (expand L bytes) = sc_record L bytes" for bytes
    using length_expand [OF assms(1)] sc_record_expand [OF assms(1)] layout_lengths [OF assms(1)] by simp
  then show ?thesis using assms(2-4) by (auto simp: load_cases split: prod.split sum.split)
qed

theorem load_refusals_witness:
  "wrap_settings_call_set_handler (stub_layout 0) all_names (sink_set_handler :: (unit, settings_sink) set_handler)
     (Some ''bt/keys/1'') 57 (read_adapted sc_bond) None empty_store = (Err EINVAL, empty_store)"
proof -
  have ad: "adapts all_names (Some ''bt/keys/1'') 57 (None :: unit load_arg option)"
    by (simp add: adapts_def is_bond_key_def)
  have "57 \<noteq> BT_KEYS_STORAGE_LEN (stub_layout 0)" by (simp add: stub_lengths)
  from load_refusals [OF stub_layout_ok(1) ad this refl, of sink_set_handler "read_adapted sc_bond" empty_store]
  show ?thesis by (simp add: stub_lengths)
qed

text \<open>Everything that is not an adaptable bond record passes through unchanged, with the caller's own
  reader: other settings, a null name, the bare prefix, deletions (length 0), direct loads that asked for
  the stored bytes, subtrees that exclude the key, and full-size records; and saving other names, lengths
  and Legacy records or deleting a record is the host's plain save.\<close>

theorem pass_through:
  "(\<not> is_bond_key name \<or> len = 0 \<or> len = BT_KEYS_STORAGE_LEN L \<or>
      (\<exists>a. arg = Some a \<and> (load_cb a \<noteq> None \<or> (\<exists>t. subtree a = Some t \<and> \<not> steq (the name) t))) \<longrightarrow>
    wrap_settings_call_set_handler L steq real_set name len reader arg w = real_set name len reader arg w) \<and>
   (\<not> is_bond_key name \<or> len \<noteq> BT_KEYS_STORAGE_LEN L \<or> val = None \<or> \<not> sc_record L (the val) \<longrightarrow>
    wrap_settings_save_one L real_save name val len w' = real_save name val len w')"
proof -
  have "is_bond_key name \<and> len = BT_KEYS_STORAGE_LEN L \<and> sc_record L bytes \<longleftrightarrow>
        \<not> (\<not> is_bond_key name \<or> len \<noteq> BT_KEYS_STORAGE_LEN L \<or> \<not> sc_record L bytes)" for bytes by blast
  then show ?thesis
    by (cases val) (auto simp: load_cases save_cases adapts_def wrap_settings_save_one_def)
qed

theorem pass_through_witness:
  "wrap_settings_call_set_handler (stub_layout 0) all_names (sink_set_handler :: (unit, settings_sink) set_handler)
     (Some ''bt/keys/'') 56 (read_adapted sc_bond) None empty_store = (ok, empty_store\<lparr>sink_bytes := sc_bond\<rparr>)"
proof -
  have "\<not> is_bond_key (Some ''bt/keys/'')" by (simp add: is_bond_key_def)
  then have "wrap_settings_call_set_handler (stub_layout 0) all_names
      (sink_set_handler :: (unit, settings_sink) set_handler) (Some ''bt/keys/'') 56 (read_adapted sc_bond) None empty_store
    = sink_set_handler (Some ''bt/keys/'') 56 (read_adapted sc_bond) (None :: unit load_arg option) empty_store"
    using pass_through [of "Some ''bt/keys/''" 56 "stub_layout 0" "None :: unit load_arg option" all_names sink_set_handler
        "read_adapted sc_bond" empty_store None sink_save_one empty_store] by blast
  also have "\<dots> = (ok, empty_store\<lparr>sink_bytes := sc_bond\<rparr>)"
    using sc_bond_ok(1) by (simp add: sink_set_handler_def read_adapted_def empty_store_def)
  finally show ?thesis .
qed

end
