(* ===== verification/Button_State.thy ===== *)
theory Button_State
  imports Prelude
begin

text \<open>
  Model of \<open>src/button_state.c\<close>: the bookkeeping of the buttons that this module has
  forwarded to the input listener (\<open>forwarded\<close>) and of those that were held down
  across a reset and stay muted until they are let go (\<open>suppressed\<close>). Each word has
  one bit per button; the five mouse buttons are the bits of \<open>0x1f\<close>.

  The words implement, bit by bit, a three-state machine (\<open>button_phase\<close>); the
  refinement lemmas of the last sections carry the other components.
\<close>

section \<open>The code\<close>

record mouse_button_state =
  forwarded :: u8
  suppressed :: u8

record mouse_button_edges =
  press :: u8
  release :: u8

definition mouse_buttons_update ::
    "mouse_button_state \<Rightarrow> u8 \<Rightarrow> mouse_button_edges \<times> mouse_button_state" where
  "mouse_buttons_update state physical =
     (let physical = physical AND 0x1f;
          state = state\<lparr>suppressed := suppressed state AND physical\<rparr>;
          nxt = physical AND NOT (suppressed state);
          edges = \<lparr>press = nxt AND NOT (forwarded state),
                   release = forwarded state AND NOT nxt\<rparr>
      in (edges, state\<lparr>forwarded := nxt\<rparr>))"

definition mouse_buttons_reset ::
    "mouse_button_state \<Rightarrow> u8 \<Rightarrow> u8 \<times> mouse_button_state" where
  "mouse_buttons_reset state physical =
     (let rel = forwarded state
      in (rel, state\<lparr>forwarded := 0, suppressed := physical AND 0x1f\<rparr>))"

text \<open>The two calls that change the state, as one operation type for runs of calls.\<close>

datatype button_op = Update u8 | Reset u8

fun button_step :: "mouse_button_state \<Rightarrow> button_op \<Rightarrow> mouse_button_edges \<times> mouse_button_state" where
  "button_step st (Update p) = mouse_buttons_update st p"
| "button_step st (Reset p) =
     (let (rel, st') = mouse_buttons_reset st p in (\<lparr>press = 0, release = rel\<rparr>, st'))"

section \<open>Invariant\<close>

text \<open>Only the five mouse buttons are tracked, and no button is forwarded and muted at once.\<close>

definition button_inv :: "mouse_button_state \<Rightarrow> bool" where
  "button_inv st \<longleftrightarrow>
     (\<forall>n. bit (forwarded st) n \<longrightarrow> n < 5 \<and> \<not> bit (suppressed st) n) \<and>
     (\<forall>n. bit (suppressed st) n \<longrightarrow> n < 5)"

lemma button_inv_zero [simp]: "button_inv \<lparr>forwarded = 0, suppressed = 0\<rparr>"
  by (simp add: button_inv_def)

lemma update_bits [button_bits]:
  assumes "mouse_buttons_update st p = (e, st')"
  shows "bit (suppressed st') n \<longleftrightarrow> n < 5 \<and> bit (suppressed st) n \<and> bit p n"
    and "bit (forwarded st') n \<longleftrightarrow> n < 5 \<and> bit p n \<and> \<not> bit (suppressed st) n"
    and "bit (press e) n \<longleftrightarrow> n < 5 \<and> bit p n \<and> \<not> bit (suppressed st) n \<and> \<not> bit (forwarded st) n"
    and "bit (release e) n \<longleftrightarrow>
           bit (forwarded st) n \<and> \<not> (n < 5 \<and> bit p n \<and> \<not> bit (suppressed st) n)"
proof -
  define m :: u8 where "m = 0x1f"
  have m: "bit m k \<longleftrightarrow> k < 5" for k unfolding m_def by (rule bit_0x1f)
  have e: "e = \<lparr>press = ((p AND m) AND NOT (suppressed st AND (p AND m))) AND NOT (forwarded st),
                release = forwarded st AND NOT ((p AND m) AND NOT (suppressed st AND (p AND m)))\<rparr>"
    and st': "forwarded st' = (p AND m) AND NOT (suppressed st AND (p AND m))"
             "suppressed st' = suppressed st AND (p AND m)"
    using assms by (auto simp: mouse_buttons_update_def Let_def simp flip: m_def)
  show "bit (suppressed st') n \<longleftrightarrow> n < 5 \<and> bit (suppressed st) n \<and> bit p n"
    "bit (forwarded st') n \<longleftrightarrow> n < 5 \<and> bit p n \<and> \<not> bit (suppressed st) n"
    "bit (press e) n \<longleftrightarrow> n < 5 \<and> bit p n \<and> \<not> bit (suppressed st) n \<and> \<not> bit (forwarded st) n"
    "bit (release e) n \<longleftrightarrow>
       bit (forwarded st) n \<and> \<not> (n < 5 \<and> bit p n \<and> \<not> bit (suppressed st) n)"
    by (auto simp: e st' m bit_and_iff bit_or_iff bit_NOT_u8 dest: bit_u8_bound)
qed

lemma reset_bits [button_bits]:
  assumes "mouse_buttons_reset st p = (r, st')"
  shows "bit (suppressed st') n \<longleftrightarrow> n < 5 \<and> bit p n"
    and "\<not> bit (forwarded st') n"
    and "bit r n \<longleftrightarrow> bit (forwarded st) n"
  using assms by (auto simp: mouse_buttons_reset_def Let_def button_bits)

lemma update_inv: "mouse_buttons_update st p = (e, st') \<Longrightarrow> button_inv st'"
  by (auto simp: button_inv_def update_bits)

lemma reset_inv: "mouse_buttons_reset st p = (r, st') \<Longrightarrow> button_inv st'"
  by (auto simp: button_inv_def reset_bits)

lemma button_step_inv: "button_step st oper = (e, st') \<Longrightarrow> button_inv st'"
  by (cases oper) (auto intro: update_inv reset_inv split: prod.splits)

section \<open>Refinement: one three-state machine per button\<close>

datatype button_phase = Up | Down | Muted

definition phase :: "mouse_button_state \<Rightarrow> nat \<Rightarrow> button_phase" where
  "phase st n = (if bit (forwarded st) n then Down else if bit (suppressed st) n then Muted else Up)"

text \<open>A report says whether the button is held; a reset releases it and mutes it while held.\<close>

fun phase_update :: "bool \<Rightarrow> button_phase \<Rightarrow> button_phase" where
  "phase_update held Muted = (if held then Muted else Up)"
| "phase_update held _ = (if held then Down else Up)"

definition phase_reset :: "bool \<Rightarrow> button_phase \<Rightarrow> button_phase" where
  "phase_reset held _ = (if held then Muted else Up)"

lemma update_refines:
  assumes "mouse_buttons_update st p = (e, st')" and "button_inv st" and "n < 5"
  shows "phase st' n = phase_update (bit p n) (phase st n)"
    and "bit (press e) n \<longleftrightarrow> phase st n \<noteq> Down \<and> phase st' n = Down"
    and "bit (release e) n \<longleftrightarrow> phase st n = Down \<and> phase st' n \<noteq> Down"
  using assms by (auto simp: phase_def button_inv_def update_bits)

lemma reset_refines:
  assumes "mouse_buttons_reset st p = (r, st')" and "n < 5"
  shows "phase st' n = phase_reset (bit p n) (phase st n)"
    and "bit r n \<longleftrightarrow> phase st n = Down"
  using assms by (auto simp: phase_def phase_reset_def reset_bits)

section \<open>Edge sources: balanced presses and releases\<close>

text \<open>
  What a consumer of the edges relies on: a press is only reported for a button that is
  not down, a release only for one that is, and the level follows the edges.
\<close>

locale edge_source =
  fixes level :: "'s \<Rightarrow> nat \<Rightarrow> bool"
    and step :: "'s \<Rightarrow> 'o \<Rightarrow> mouse_button_edges \<times> 's"
    and inv :: "'s \<Rightarrow> bool"
  assumes step_inv: "inv s \<Longrightarrow> step s x = (e, s') \<Longrightarrow> inv s'"
    and press_up: "inv s \<Longrightarrow> step s x = (e, s') \<Longrightarrow> bit (press e) n \<Longrightarrow> \<not> level s n \<and> level s' n"
    and release_down: "inv s \<Longrightarrow> step s x = (e, s') \<Longrightarrow> bit (release e) n \<Longrightarrow> level s n \<and> \<not> level s' n"
    and no_edge: "inv s \<Longrightarrow> step s x = (e, s') \<Longrightarrow> \<not> bit (press e) n \<Longrightarrow> \<not> bit (release e) n \<Longrightarrow>
      level s' n = level s n"
begin

fun run :: "'s \<Rightarrow> 'o list \<Rightarrow> mouse_button_edges list \<times> 's" where
  "run s [] = ([], s)"
| "run s (x # xs) = (let (e, s') = step s x; (es, s'') = run s' xs in (e # es, s''))"

definition presses :: "nat \<Rightarrow> mouse_button_edges list \<Rightarrow> nat" where
  "presses n es = sum_list (map (\<lambda>e. of_bool (bit (press e) n)) es)"

definition releases :: "nat \<Rightarrow> mouse_button_edges list \<Rightarrow> nat" where
  "releases n es = sum_list (map (\<lambda>e. of_bool (bit (release e) n)) es)"

lemma run_inv: "inv s \<Longrightarrow> run s xs = (es, s') \<Longrightarrow> inv s'"
proof (induction xs arbitrary: s es)
  case (Cons x xs)
  then show ?case by (auto split: prod.splits dest: step_inv)
qed simp

lemma step_balance:
  assumes "inv s" and "step s x = (e, s')"
  shows "of_bool (level s n) + of_bool (bit (press e) n) =
         of_bool (level s' n) + (of_bool (bit (release e) n) :: nat)"
  using press_up [OF assms] release_down [OF assms] no_edge [OF assms]
  by (cases "bit (press e) n"; cases "bit (release e) n") auto

lemma run_balance:
  "inv s \<Longrightarrow> run s xs = (es, s') \<Longrightarrow>
   of_bool (level s n) + presses n es = of_bool (level s' n) + releases n es"
proof (induction xs arbitrary: s es)
  case Nil
  then show ?case by (simp add: presses_def releases_def)
next
  case (Cons x xs)
  obtain e s1 where st: "step s x = (e, s1)" by fastforce
  from Cons.prems st obtain es1 where rest: "run s1 xs = (es1, s')" and es: "es = e # es1"
    by (auto split: prod.splits)
  have "of_bool (level s1 n) + presses n es1 = of_bool (level s' n) + releases n es1"
    using Cons.IH rest step_inv [OF Cons.prems(1) st] by blast
  with step_balance [OF Cons.prems(1) st, of n]
  have "of_bool (level s n) + (of_bool (bit (press e) n) + presses n es1) =
        of_bool (level s' n) + (of_bool (bit (release e) n) + releases n es1)"
    by linarith
  then show ?case by (simp only: es presses_def releases_def list.map sum_list.Cons)
qed

end

interpretation buttons: edge_source "\<lambda>st. bit (forwarded st)" button_step button_inv
proof (unfold_locales, goal_cases)
  case (1 s x e s')
  then show ?case by (blast intro: button_step_inv)
next
  case (2 s x e s' n)
  then show ?case by (cases x) (auto simp: button_bits split: prod.splits)
next
  case (3 s x e s' n)
  then show ?case by (cases x) (auto simp: button_bits split: prod.splits)
next
  case (4 s x e s' n)
  then show ?case
    by (cases x) (auto simp: button_bits button_inv_def split: prod.splits)
qed

section \<open>Properties\<close>

text \<open>C37: Bit by bit, the two words implement a three-state machine. For each of the five buttons a report moves
  it between up and down as the hand does, except that a muted button stays muted until it is reported
  up; a reset sends every held button to muted and every other one to up. Presses are reported exactly on
  entering down and releases exactly on leaving it; bits above the five buttons are never used.\<close>

theorem button_refinement:
  assumes "button_inv st" and "mouse_buttons_update st p = (e, st1)" and "mouse_buttons_reset st q = (r, st2)"
  shows "button_inv st1 \<and> button_inv st2 \<and>
    (\<forall>n < 5. phase st1 n = phase_update (bit p n) (phase st n) \<and>
             (bit (press e) n \<longleftrightarrow> phase st n \<noteq> Down \<and> phase st1 n = Down) \<and>
             (bit (release e) n \<longleftrightarrow> phase st n = Down \<and> phase st1 n \<noteq> Down) \<and>
             phase st2 n = phase_reset (bit q n) (phase st n) \<and>
             (bit r n \<longleftrightarrow> phase st n = Down)) \<and>
    (\<forall>n \<ge> 5. \<not> bit (press e) n \<and> \<not> bit (release e) n \<and> \<not> bit r n)"
proof (intro conjI allI impI)
  show "button_inv st1" "button_inv st2" using assms by (auto intro: update_inv reset_inv)
next
  fix n :: nat
  assume "5 \<le> n"
  then show "\<not> bit (press e) n" "\<not> bit (release e) n" "\<not> bit r n"
    using assms(1) by (auto simp: update_bits [OF assms(2)] reset_bits [OF assms(3)] button_inv_def)
qed (use update_refines [OF assms(2,1)] reset_refines [OF assms(3)] in simp_all)

theorem button_refinement_witness:
  "mouse_buttons_update \<lparr>forwarded = 1, suppressed = 8\<rparr> 0x1a =
     (\<lparr>press = 0x12, release = 1\<rparr>, \<lparr>forwarded = 0x12, suppressed = 8\<rparr>) \<and>
   phase \<lparr>forwarded = 0x12, suppressed = 8\<rparr> 3 = phase_update (bit (0x1a :: u8) 3) Muted"
proof -
  have st: "button_inv \<lparr>forwarded = 1, suppressed = 8\<rparr>"
  proof (rule update_inv)
    show "mouse_buttons_update \<lparr>forwarded = 0, suppressed = 8\<rparr> 9 =
      (\<lparr>press = 1, release = 0\<rparr>, \<lparr>forwarded = 1, suppressed = 8\<rparr>)" by code_simp
  qed
  have up: "mouse_buttons_update \<lparr>forwarded = 1, suppressed = 8\<rparr> 0x1a =
     (\<lparr>press = 0x12, release = 1\<rparr>, \<lparr>forwarded = 0x12, suppressed = 8\<rparr>)" by code_simp
  have re: "mouse_buttons_reset \<lparr>forwarded = 1, suppressed = 8\<rparr> 8 = (1, \<lparr>forwarded = 0, suppressed = 8\<rparr>)"
    by code_simp
  have "phase \<lparr>forwarded = 1, suppressed = 8\<rparr> 3 = Muted" by code_simp
  with button_refinement [OF st up re] up show ?thesis by simp
qed

text \<open>Whatever calls are made, in whatever order, presses and releases balance: starting from the cleared
  state, a button has been pressed exactly as often as it was released, plus one if it is forwarded now.\<close>

theorem button_balance:
  assumes "buttons.run \<lparr>forwarded = 0, suppressed = 0\<rparr> ops = (es, st)"
  shows "button_inv st \<and> buttons.presses n es = buttons.releases n es + of_bool (bit (forwarded st) n)"
  using buttons.run_inv [OF button_inv_zero assms] buttons.run_balance [OF button_inv_zero assms, of n]
  by simp

theorem button_balance_witness:
  "buttons.presses 3 (fst (buttons.run \<lparr>forwarded = 0, suppressed = 0\<rparr> [Update 9, Reset 9, Update 9, Update 0, Update 8])) = 2"
proof -
  define ops where "ops = [Update 9, Reset 9, Update 9, Update 0, Update 8]"
  obtain es st where r: "buttons.run \<lparr>forwarded = 0, suppressed = 0\<rparr> ops = (es, st)" by fastforce
  moreover have "buttons.run \<lparr>forwarded = 0, suppressed = 0\<rparr> ops =
    ([\<lparr>press = 9, release = 0\<rparr>, \<lparr>press = 0, release = 9\<rparr>, \<lparr>press = 0, release = 0\<rparr>,
      \<lparr>press = 0, release = 0\<rparr>, \<lparr>press = 8, release = 0\<rparr>], \<lparr>forwarded = 8, suppressed = 0\<rparr>)"
    unfolding ops_def
    by (simp add: mouse_buttons_update_def mouse_buttons_reset_def Let_def)
  ultimately have "bit (forwarded st) 3" "buttons.releases 3 es = 1"
    by (auto simp: buttons.releases_def bit_numeral_word_iff)
  with button_balance [OF r, of 3] show ?thesis using r by (simp add: ops_def)
qed

text \<open>C36: A button held across a reset is not pressed again while it stays held: no report that still holds it
  yields an edge for it. Once a report shows it up it works again, and the next report holding it presses it.\<close>

theorem muted_until_released:
  assumes "mouse_buttons_reset st p = (r, st1)" and "n < 5" and "bit p n"
    and "buttons.run st1 (map Update held) = (es, st2)" and "\<forall>q \<in> set held. bit q n"
    and "buttons.run st2 [Update q1, Update q2] = ([e1, e2], st3)" and "\<not> bit q1 n" and "bit q2 n"
  shows "(\<forall>e \<in> set es. \<not> bit (press e) n \<and> \<not> bit (release e) n) \<and> phase st2 n = Muted \<and>
    \<not> bit (press e1) n \<and> bit (press e2) n"
proof -
  have muted: "buttons.run s (map Update qs) = (es', s') \<Longrightarrow> button_inv s \<Longrightarrow> phase s n = Muted \<Longrightarrow>
      \<forall>q \<in> set qs. bit q n \<Longrightarrow>
      (\<forall>e \<in> set es'. \<not> bit (press e) n \<and> \<not> bit (release e) n) \<and> phase s' n = Muted \<and> button_inv s'" for qs s es' s'
  proof (induction qs arbitrary: s es')
    case (Cons q qs)
    obtain e s1 where st: "mouse_buttons_update s q = (e, s1)" by fastforce
    from Cons.prems(1) st obtain es1 where rest: "buttons.run s1 (map Update qs) = (es1, s')"
      and es': "es' = e # es1" by (auto split: prod.splits)
    note ref = update_refines [OF st Cons.prems(2) assms(2)]
    have "phase s1 n = Muted" using ref(1) Cons.prems by simp
    then show ?case using Cons.IH [OF rest update_inv [OF st]] Cons.prems ref(2,3) es' by simp
  qed simp
  have "phase st1 n = Muted" using reset_refines(1) [OF assms(1,2)] assms(3) by (simp add: phase_reset_def)
  from muted [OF assms(4) reset_inv [OF assms(1)] this assms(5)]
  have held: "\<forall>e \<in> set es. \<not> bit (press e) n \<and> \<not> bit (release e) n" "phase st2 n = Muted" "button_inv st2"
    by auto
  obtain s3 where u1: "mouse_buttons_update st2 q1 = (e1, s3)" and u2: "mouse_buttons_update s3 q2 = (e2, st3)"
    using assms(6) by (auto split: prod.splits)
  show ?thesis
    using held update_refines [OF u1 held(3) assms(2)] update_refines [OF u2 update_inv [OF u1] assms(2)] assms(7,8)
    by simp
qed

theorem muted_until_released_witness:
  "bit (press (fst (mouse_buttons_update \<lparr>forwarded = 0, suppressed = 0\<rparr> 8))) 3"
proof -
  define st where "st = \<lparr>forwarded = 9, suppressed = 0\<rparr>"
  have re: "mouse_buttons_reset st 9 = (9, \<lparr>forwarded = 0, suppressed = 9\<rparr>)" unfolding st_def by code_simp
  have r1: "buttons.run \<lparr>forwarded = 0, suppressed = 9\<rparr> (map Update [9, 25]) =
      ([\<lparr>press = 0, release = 0\<rparr>, \<lparr>press = 16, release = 0\<rparr>], \<lparr>forwarded = 16, suppressed = 9\<rparr>)"
    by (simp add: mouse_buttons_update_def Let_def)
  have r2: "buttons.run \<lparr>forwarded = 16, suppressed = 9\<rparr> [Update 0, Update 8] =
      ([\<lparr>press = 0, release = 16\<rparr>, \<lparr>press = 8, release = 0\<rparr>], \<lparr>forwarded = 8, suppressed = 0\<rparr>)"
    by (simp add: mouse_buttons_update_def Let_def)
  have b: "bit (9 :: u8) 3" "\<forall>q \<in> set [9, 25 :: u8]. bit q 3" "\<not> bit (0 :: u8) 3" "bit (8 :: u8) 3" by code_simp+
  have "bit (press \<lparr>press = 8, release = 0\<rparr>) 3"
    using muted_until_released [OF re _ b(1) r1 b(2) r2 b(3,4)] by simp
  then show ?thesis by (simp add: mouse_buttons_update_def Let_def)
qed

end
