(* ===== verification/Mouse_Output.thy ===== *)
theory Mouse_Output
  imports Button_State Hid_Map
begin

text \<open>
  Model of \<open>src/mouse_output.c\<close>: decoded frames are queued by the client together with the
  current stream epoch and are turned into input events by a work handler on the module's
  work queue. A reset of the stream (disconnect, endpoint change, queue overflow) starts a new
  epoch, empties the queue and asks the handler to let go of the buttons.

  The message queue is the kernel's: its three operations are parameters, described by the
  locale \<open>msgq\<close> and interpreted on the ring buffer of \<open>tests/fake_runtime.c\<close>.

  Concurrency. \<open>receive\<close> and \<open>reset_stream\<close> run with interrupts locked (\<open>k_spin_lock\<close>), so each is
  one step. The work handler is split into the steps between which such a step can change what it
  reads next: fetching an input, taking a pending reset, comparing the epoch, and each
  packet. \<open>buttons\<close> and the reported events are touched by the handler only.
\<close>

section \<open>The message queue\<close>

type_synonym ('a, 'q) put_fn = "'a \<Rightarrow> 'q \<Rightarrow> cret \<times> 'q"
type_synonym ('a, 'q) get_fn = "'q \<Rightarrow> 'a option \<times> 'q"

locale msgq =
  fixes put :: "('a, 'q) put_fn"
    and get :: "('a, 'q) get_fn"
    and purge :: "'q \<Rightarrow> 'q"
    and contents :: "'q \<Rightarrow> 'a list"
    and qinv :: "'q \<Rightarrow> bool"
    and capacity :: nat
  assumes bounded: "qinv q \<Longrightarrow> length (contents q) \<le> capacity"
    and put_result: "qinv q \<Longrightarrow> fst (put x q) = (if length (contents q) < capacity then ok else Err ENOMSG)"
    and put_contents: "qinv q \<Longrightarrow> contents (snd (put x q)) =
          (if length (contents q) < capacity then contents q @ [x] else contents q)"
    and get_result: "qinv q \<Longrightarrow> fst (get q) = (case contents q of [] \<Rightarrow> None | x # _ \<Rightarrow> Some x)"
    and get_contents: "qinv q \<Longrightarrow> contents (snd (get q)) = tl (contents q)"
    and purge_contents: "qinv q \<Longrightarrow> contents (purge q) = []"
    and put_inv: "qinv q \<Longrightarrow> qinv (snd (put x q))"
    and get_inv: "qinv q \<Longrightarrow> qinv (snd (get q))"
    and purge_inv: "qinv q \<Longrightarrow> qinv (purge q)"

text \<open>The ring buffer of \<open>tests/fake_runtime.c\<close>; its capacity is the length of the data array.\<close>

record 'a ring =
  ring_data :: "'a list"
  ring_head :: nat
  ring_tail :: nat
  ring_count :: nat

definition k_msgq_put :: "('a, 'a ring) put_fn" where
  "k_msgq_put x q =
     (if ring_count q = length (ring_data q) then (Err ENOMSG, q)
      else (ok, q\<lparr>ring_data := (ring_data q)[ring_tail q := x],
                   ring_tail := (ring_tail q + 1) mod length (ring_data q),
                   ring_count := ring_count q + 1\<rparr>))"

definition k_msgq_get :: "('a, 'a ring) get_fn" where
  "k_msgq_get q =
     (if ring_count q = 0 then (None, q)
      else (Some (ring_data q ! ring_head q),
            q\<lparr>ring_head := (ring_head q + 1) mod length (ring_data q), ring_count := ring_count q - 1\<rparr>))"

definition k_msgq_purge :: "'a ring \<Rightarrow> 'a ring" where
  "k_msgq_purge q = q\<lparr>ring_head := 0, ring_tail := 0, ring_count := 0\<rparr>"

definition ring_contents :: "'a ring \<Rightarrow> 'a list" where
  "ring_contents q = map (\<lambda>i. ring_data q ! ((ring_head q + i) mod length (ring_data q))) [0 ..< ring_count q]"

definition ring_inv :: "nat \<Rightarrow> 'a ring \<Rightarrow> bool" where
  "ring_inv n q \<longleftrightarrow> 0 < n \<and> length (ring_data q) = n \<and> ring_head q < n \<and> ring_count q \<le> n \<and>
     ring_tail q = (ring_head q + ring_count q) mod n"

lemma ring_put_contents:
  assumes "ring_inv n q" and "ring_count q < n"
  shows "ring_contents (snd (k_msgq_put x q)) = ring_contents q @ [x]"
proof -
  have n: "length (ring_data q) = n" "0 < n" "ring_tail q = (ring_head q + ring_count q) mod n" "ring_head q < n"
    using assms by (auto simp: ring_inv_def)
  have ne: "(ring_head q + ring_count q) mod n \<noteq> (ring_head q + i) mod n" if "i < ring_count q" for i
  proof
    assume "(ring_head q + ring_count q) mod n = (ring_head q + i) mod n"
    then have "n dvd (ring_head q + ring_count q) - (ring_head q + i)"
      using that by (intro mod_eq_dvd_iff_nat [THEN iffD1]) auto
    then show False using that assms(2) by (auto dest: dvd_imp_le)
  qed
  show ?thesis using n assms(2) by (auto dest: ne simp: ring_contents_def k_msgq_put_def nth_list_update)
qed

lemma ring_get_contents:
  assumes "ring_inv n q" and "ring_count q \<noteq> 0"
  shows "ring_contents q = ring_data q ! ring_head q # ring_contents (snd (k_msgq_get q))"
proof -
  have n: "length (ring_data q) = n" "0 < n" "ring_head q < n" using assms by (auto simp: ring_inv_def)
  have "[0 ..< ring_count q] = 0 # map Suc [0 ..< ring_count q - 1]"
    using assms(2) by (simp add: map_Suc_upt upt_conv_Cons)
  then show ?thesis using n assms(2)
    by (simp add: ring_contents_def k_msgq_get_def o_def mod_add_left_eq)
qed

lemma ring_tail_less: "ring_inv n q \<Longrightarrow> ring_tail q < n"
  by (simp add: ring_inv_def)

interpretation ring: msgq k_msgq_put k_msgq_get k_msgq_purge ring_contents "ring_inv n" n
proof (unfold_locales, goal_cases)
  case (1 q)
  then show ?case by (simp add: ring_inv_def ring_contents_def)
next
  case (2 q x)
  then show ?case by (auto simp: ring_inv_def ring_contents_def k_msgq_put_def)
next
  case (3 q x)
  then show ?case
  proof (cases "ring_count q < n")
    case True
    then show ?thesis using ring_put_contents [OF 3] by (simp add: ring_contents_def [of q])
  next
    case False
    then show ?thesis using 3 by (simp add: k_msgq_put_def ring_inv_def ring_contents_def)
  qed
next
  case (4 q)
  then show ?case
  proof (cases "ring_count q = 0")
    case True
    then show ?thesis by (simp add: k_msgq_get_def ring_contents_def)
  next
    case False
    then show ?thesis using ring_get_contents [OF 4] by (simp add: k_msgq_get_def)
  qed
next
  case (5 q)
  then show ?case
  proof (cases "ring_count q = 0")
    case True
    then show ?thesis by (simp add: k_msgq_get_def ring_contents_def)
  next
    case False
    then show ?thesis using ring_get_contents [OF 5] by simp
  qed
next
  case (6 q)
  then show ?case by (simp add: k_msgq_purge_def ring_contents_def)
next
  case (7 q x)
  then show ?case by (auto simp: ring_inv_def k_msgq_put_def mod_Suc_eq)
next
  case (8 q)
  then show ?case
    by (cases "ring_count q") (auto simp: ring_inv_def k_msgq_get_def mod_add_left_eq)
next
  case (9 q)
  then show ?case by (simp add: ring_inv_def k_msgq_purge_def)
qed

section \<open>The code\<close>

record queued_input =
  qi_frame :: mouse_hid_frame
  qi_epoch :: u32
  qi_buttons :: u8

text \<open>One \<open>input_report_key\<close> or \<open>input_report_rel\<close> call. The codes are those of the input subsystem.\<close>

record input_event =
  ev_code :: nat
  ev_value :: int
  ev_key :: bool
  ev_sync :: bool

definition INPUT_BTN_0 :: nat where "INPUT_BTN_0 = 0x100"
definition INPUT_REL_X :: nat where "INPUT_REL_X = 0"
definition INPUT_REL_Y :: nat where "INPUT_REL_Y = 1"
definition INPUT_REL_HWHEEL :: nat where "INPUT_REL_HWHEEL = 6"
definition INPUT_REL_WHEEL :: nat where "INPUT_REL_WHEEL = 8"

text \<open>The array \<open>events[9]\<close> after the two filling loops: code, value and \<open>key\<close>.\<close>

definition packet_events :: "mouse_button_edges \<Rightarrow> int \<Rightarrow> int \<Rightarrow> int \<Rightarrow> int \<Rightarrow> (nat \<times> int \<times> bool) list" where
  "packet_events edges x y wheel pan =
     map (\<lambda>i. (INPUT_BTN_0 + i, of_bool (press edges AND push_bit i 1 \<noteq> 0), True))
       (filter (\<lambda>i. (press edges OR release edges) AND push_bit i 1 \<noteq> 0) [0 ..< 5]) @
     filter (\<lambda>(code, val, key). val \<noteq> 0)
       [(INPUT_REL_X, x, False), (INPUT_REL_Y, y, False), (INPUT_REL_WHEEL, wheel, False),
        (INPUT_REL_HWHEEL, pan, False)]"

definition send_packet :: "mouse_button_edges \<Rightarrow> int \<Rightarrow> int \<Rightarrow> int \<Rightarrow> int \<Rightarrow> input_event list" where
  "send_packet edges x y wheel pan =
     (let events = packet_events edges x y wheel pan
      in map (\<lambda>i. case events ! i of (code, val, key) \<Rightarrow>
            \<lparr>ev_code = code, ev_value = val, ev_key = key, ev_sync = (i + 1 = length events)\<rparr>)
          [0 ..< length events])"

definition CLAMP :: "int \<Rightarrow> int \<Rightarrow> int \<Rightarrow> int" where
  "CLAMP v low high = (if v \<le> low then low else min v high)"

definition no_edges :: mouse_button_edges where
  "no_edges = \<lparr>press = 0, release = 0\<rparr>"

text \<open>
  One round of the loop of \<open>send_frame\<close>: the packet, and the frame with what it moved taken off.
  The loop ends when nothing is left.
\<close>

definition frame_part :: "mouse_button_edges \<Rightarrow> mouse_hid_frame \<Rightarrow> input_event list \<times> mouse_hid_frame" where
  "frame_part edges fr =
     (let x = CLAMP (fr_x fr) (-32767) 32767;
          y = CLAMP (fr_y fr) (-32767) 32767;
          wheel = CLAMP (fr_wheel fr) (-127) 127;
          pan = CLAMP (fr_pan fr) (-127) 127
      in (send_packet edges x y wheel pan,
          fr\<lparr>fr_x := fr_x fr - x, fr_y := fr_y fr - y, fr_wheel := fr_wheel fr - wheel,
             fr_pan := fr_pan fr - pan\<rparr>))"

definition frame_done :: "mouse_hid_frame \<Rightarrow> bool" where
  "frame_done fr \<longleftrightarrow> fr_x fr = 0 \<and> fr_y fr = 0 \<and> fr_wheel fr = 0 \<and> fr_pan fr = 0"

text \<open>
  \<open>send_frame\<close> as one call; \<open>epochs i\<close> is what \<open>atomic_get(&stream_epoch)\<close> returns in round \<open>i\<close>,
  \<open>n\<close> rounds of the 32 are left. The packets are returned one by one.
\<close>

fun send_loop :: "(nat \<Rightarrow> u32) \<Rightarrow> u32 \<Rightarrow> nat \<Rightarrow> nat \<Rightarrow> mouse_button_edges \<Rightarrow> mouse_hid_frame \<Rightarrow>
    input_event list list" where
  "send_loop epochs epoch 0 i edges fr = []"
| "send_loop epochs epoch (Suc n) i edges fr =
     (if i \<noteq> 0 \<and> epoch \<noteq> epochs i then []
      else let (packet, fr) = frame_part edges fr
           in if frame_done fr then [packet]
              else packet # send_loop epochs epoch n (i + 1) no_edges fr)"

definition send_frame :: "(nat \<Rightarrow> u32) \<Rightarrow> queued_input \<Rightarrow> mouse_button_state \<Rightarrow>
    input_event list list \<times> mouse_button_state" where
  "send_frame epochs inp st =
     (let (edges, st) = mouse_buttons_update st (qi_buttons inp)
      in (send_loop epochs (qi_epoch inp) 32 0 edges (qi_frame inp), st))"

text \<open>
  The handler's position: idle; before the first \<open>apply_pending_reset\<close>; before \<open>k_msgq_get\<close>; with an input,
  before the reset check of line 102 and before the epoch check of line 103; before round \<open>i\<close> of
  \<open>send_frame\<close>; before the last \<open>apply_pending_reset\<close>.
\<close>

datatype output_pc =
    WIdle | WStart | WGet | WGot queued_input | WCheck queued_input
  | WSend nat u32 mouse_hid_frame | WFinal

record 'q out_state =
  stream_epoch :: u32
  physical_buttons :: u8
  reset_pending :: bool
  reset_buttons :: u8
  buttons :: mouse_button_state
  mouse_inputs :: 'q
  reported :: "input_event list"
  output_submitted :: bool
  worker :: output_pc

definition apply_pending_reset :: "'q out_state \<Rightarrow> 'q out_state" where
  "apply_pending_reset st =
     (let pending = reset_pending st;
          physical = reset_buttons st;
          st = st\<lparr>reset_pending := False\<rparr>
      in if pending
         then let (rel, bs) = mouse_buttons_reset (buttons st) physical
              in st\<lparr>buttons := bs,
                    reported := reported st @ send_packet \<lparr>press = 0, release = rel\<rparr> 0 0 0 0\<rparr>
         else st)"

text \<open>Round \<open>i\<close> of \<open>send_frame\<close> in the handler.\<close>

definition send_round :: "nat \<Rightarrow> u32 \<Rightarrow> mouse_button_edges \<Rightarrow> mouse_hid_frame \<Rightarrow> 'q out_state \<Rightarrow> 'q out_state" where
  "send_round i epoch edges fr st =
     (let (packet, fr) = frame_part edges fr
      in st\<lparr>reported := reported st @ packet,
            worker := (if frame_done fr \<or> i + 1 = 32 then WGet else WSend (i + 1) epoch fr)\<rparr>)"

text \<open>\<open>output_work_cb\<close>, one step. Starting it takes it off the work queue.\<close>

definition output_work_step :: "(queued_input, 'q) get_fn \<Rightarrow> 'q out_state \<Rightarrow> 'q out_state option" where
  "output_work_step get st =
     (case worker st of
        WIdle \<Rightarrow> if output_submitted st
                  then Some (st\<lparr>output_submitted := False, worker := WStart\<rparr>) else None
      | WStart \<Rightarrow> Some ((apply_pending_reset st)\<lparr>worker := WGet\<rparr>)
      | WGet \<Rightarrow>
          (let (inp, q) = get (mouse_inputs st)
           in Some (st\<lparr>mouse_inputs := q,
                       worker := (case inp of None \<Rightarrow> WFinal | Some x \<Rightarrow> WGot x)\<rparr>))
      | WGot x \<Rightarrow> Some ((apply_pending_reset st)\<lparr>worker := WCheck x\<rparr>)
      | WCheck x \<Rightarrow>
          if qi_epoch x = stream_epoch st
          then let (edges, bs) = mouse_buttons_update (buttons st) (qi_buttons x)
               in Some (send_round 0 (qi_epoch x) edges (qi_frame x) (st\<lparr>buttons := bs\<rparr>))
          else Some (st\<lparr>worker := WGet\<rparr>)
      | WSend i epoch fr \<Rightarrow>
          if i \<noteq> 0 \<and> epoch \<noteq> stream_epoch st then Some (st\<lparr>worker := WGet\<rparr>)
          else Some (send_round i epoch no_edges fr st)
      | WFinal \<Rightarrow> Some ((apply_pending_reset st)\<lparr>worker := WIdle\<rparr>))"

definition zmk_mouse_output_receive ::
    "(queued_input, 'q) put_fn \<Rightarrow> ('q \<Rightarrow> 'q) \<Rightarrow> mouse_hid_frame \<Rightarrow> u8 \<Rightarrow> 'q out_state \<Rightarrow> 'q out_state" where
  "zmk_mouse_output_receive put purge frame physical st =
     (let st = st\<lparr>physical_buttons := physical AND 0x1f\<rparr>;
          inp = \<lparr>qi_frame = frame, qi_epoch = stream_epoch st, qi_buttons = physical\<rparr>;
          (err, q) = put inp (mouse_inputs st);
          st = st\<lparr>mouse_inputs := q\<rparr>;
          st = (if err \<noteq> ok
                then st\<lparr>stream_epoch := stream_epoch st + 1, reset_buttons := physical AND 0x1f,
                        reset_pending := True, mouse_inputs := purge (mouse_inputs st)\<rparr>
                else st)
      in st\<lparr>output_submitted := True\<rparr>)"

definition reset_stream :: "('q \<Rightarrow> 'q) \<Rightarrow> bool \<Rightarrow> 'q out_state \<Rightarrow> 'q out_state" where
  "reset_stream purge disconnected st =
     (let st = (if disconnected then st\<lparr>physical_buttons := 0\<rparr> else st)
      in st\<lparr>stream_epoch := stream_epoch st + 1, reset_buttons := physical_buttons st,
            reset_pending := True, mouse_inputs := purge (mouse_inputs st), output_submitted := True\<rparr>)"

definition zmk_mouse_output_disconnect :: "('q \<Rightarrow> 'q) \<Rightarrow> 'q out_state \<Rightarrow> 'q out_state" where
  "zmk_mouse_output_disconnect purge = reset_stream purge True"

text \<open>The listener is subscribed to endpoint changes; \<open>is_change\<close> is \<open>as_zmk_endpoint_changed(event) != NULL\<close>.\<close>

definition endpoint_changed :: "('q \<Rightarrow> 'q) \<Rightarrow> bool \<Rightarrow> 'q out_state \<Rightarrow> 'q out_state" where
  "endpoint_changed purge is_change st = (if is_change then reset_stream purge False st else st)"

definition output_init :: "'q \<Rightarrow> 'q out_state" where
  "output_init q = \<lparr>stream_epoch = 0, physical_buttons = 0, reset_pending = False, reset_buttons = 0,
     buttons = \<lparr>forwarded = 0, suppressed = 0\<rparr>, mouse_inputs = q, reported = [],
     output_submitted = False, worker = WIdle\<rparr>"

section \<open>Interleavings\<close>

datatype output_op = Receive mouse_hid_frame u8 | Disconnect | Endpoint bool | Work

inductive output_step ::
    "(queued_input, 'q) put_fn \<Rightarrow> (queued_input, 'q) get_fn \<Rightarrow> ('q \<Rightarrow> 'q) \<Rightarrow>
     'q out_state \<Rightarrow> output_op \<Rightarrow> 'q out_state \<Rightarrow> bool"
  for put :: "(queued_input, 'q) put_fn" and get :: "(queued_input, 'q) get_fn" and purge :: "'q \<Rightarrow> 'q" where
  receive: "output_step put get purge st (Receive fr p) (zmk_mouse_output_receive put purge fr p st)"
| disconnect: "output_step put get purge st Disconnect (zmk_mouse_output_disconnect purge st)"
| endpoint: "output_step put get purge st (Endpoint c) (endpoint_changed purge c st)"
| work: "output_work_step get st = Some st' \<Longrightarrow> output_step put get purge st Work st'"

inductive_cases output_stepE: "output_step put get purge st oper st'"
inductive_simps output_step_work: "output_step put get purge st Work st'"

inductive output_trace ::
    "(queued_input, 'q) put_fn \<Rightarrow> (queued_input, 'q) get_fn \<Rightarrow> ('q \<Rightarrow> 'q) \<Rightarrow>
     'q out_state \<Rightarrow> output_op list \<Rightarrow> 'q out_state \<Rightarrow> bool"
  for put :: "(queued_input, 'q) put_fn" and get :: "(queued_input, 'q) get_fn" and purge :: "'q \<Rightarrow> 'q"
    and st :: "'q out_state" where
  start: "output_trace put get purge st [] st"
| extend: "output_trace put get purge st ops st1 \<Longrightarrow> output_step put get purge st1 oper st2 \<Longrightarrow>
    output_trace put get purge st (ops @ [oper]) st2"

end
