(* ===== verification/Mouse_Output_Inv.thy ===== *)
theory Mouse_Output_Inv
  imports Mouse_Output
begin

text \<open>
  Facts about the output worker: what a packet contains, what \<open>send_frame\<close> reports in total, and
  the invariants of all interleavings of the worker with the client and the endpoint events.
\<close>

section \<open>Packets\<close>

definition report_of :: "input_event \<Rightarrow> nat \<times> int \<times> bool" where
  "report_of e = (ev_code e, ev_value e, ev_key e)"

lemma send_packet_reports: "map report_of (send_packet e x y w p) = packet_events e x y w p"
  by (rule nth_equalityI) (auto simp: send_packet_def report_of_def Let_def split: prod.split)

lemma send_packet_length: "length (send_packet e x y w p) = length (packet_events e x y w p)"
  by (simp add: send_packet_def Let_def)

lemma send_packet_sync:
  "i < length (send_packet e x y w p) \<Longrightarrow>
   ev_sync (send_packet e x y w p ! i) \<longleftrightarrow> i + 1 = length (send_packet e x y w p)"
  by (simp add: send_packet_def Let_def split: prod.split)

lemma packet_events_bound: "length (packet_events e x y w p) \<le> 9"
proof -
  have "length (filter (\<lambda>i. (press e OR release e) AND push_bit i 1 \<noteq> 0) [0 ..< 5]) \<le> 5"
    by (rule order_trans [OF length_filter_le]) simp
  moreover have "length (filter (\<lambda>(code, val, key). val \<noteq> 0)
      [(INPUT_REL_X, x, False), (INPUT_REL_Y, y, False), (INPUT_REL_WHEEL, w, False),
       (INPUT_REL_HWHEEL, p, False)]) \<le> 4"
    by (rule order_trans [OF length_filter_le]) simp
  ultimately show ?thesis unfolding packet_events_def length_append length_map by linarith
qed

text \<open>The successive values reported for button \<open>n\<close>, and the sum reported for an axis.\<close>

definition key_values :: "nat \<Rightarrow> input_event list \<Rightarrow> int list" where
  "key_values n evs = map (\<lambda>(c, v, k). v) (filter (\<lambda>(c, v, k). k \<and> c = INPUT_BTN_0 + n) (map report_of evs))"

definition axis_total :: "nat \<Rightarrow> input_event list \<Rightarrow> int" where
  "axis_total code evs = sum_list (map (\<lambda>(c, v, k). if \<not> k \<and> c = code then v else 0) (map report_of evs))"

lemma key_values_append [simp]: "key_values n (a @ b) = key_values n a @ key_values n b"
  by (simp add: key_values_def)

lemma key_values_Nil [simp]: "key_values n [] = []"
  by (simp add: key_values_def)

lemma axis_total_append [simp]: "axis_total c (a @ b) = axis_total c a + axis_total c b"
  by (simp add: axis_total_def)

lemma axis_total_Nil [simp]: "axis_total c [] = 0"
  by (simp add: axis_total_def)

lemma filter_eq_upt: "filter (\<lambda>i. P i \<and> i = n) [0 ..< m] = (if n < m \<and> P n then [n] else [])"
  by (induction m) (auto simp: less_Suc_eq)

lemma key_values_packet:
  "key_values n (send_packet e x y w p) =
     (if n < 5 \<and> (bit (press e) n \<or> bit (release e) n) then [of_bool (bit (press e) n)] else [])"
proof -
  define P where "P i \<longleftrightarrow> (press e OR release e) AND push_bit i 1 \<noteq> 0" for i
  define V where "V i = (INPUT_BTN_0 + i, of_bool (press e AND push_bit i 1 \<noteq> 0) :: int, True)" for i
  have "filter (\<lambda>(c, v, k). k \<and> c = INPUT_BTN_0 + n) (packet_events e x y w p) =
        map V (filter (\<lambda>i. P i \<and> i = n) [0 ..< 5])"
    unfolding packet_events_def P_def [symmetric] V_def [symmetric]
    by (auto simp: filter_map o_def V_def intro: arg_cong [of _ _ "map V"] filter_cong)
  also have "\<dots> = (if n < 5 \<and> P n then [V n] else [])" by (simp add: filter_eq_upt)
  finally show ?thesis
    unfolding key_values_def send_packet_reports P_def V_def and_BIT
    by (auto simp: bit_or_iff)
qed

lemma axis_total_packet:
  "axis_total INPUT_REL_X (send_packet e x y w p) = x"
  "axis_total INPUT_REL_Y (send_packet e x y w p) = y"
  "axis_total INPUT_REL_WHEEL (send_packet e x y w p) = w"
  "axis_total INPUT_REL_HWHEEL (send_packet e x y w p) = p"
proof -
  have keys: "sum_list (map (\<lambda>(c, v, k). if \<not> k \<and> c = code then v else (0 :: int))
      (map (\<lambda>i. (INPUT_BTN_0 + i, V i, True)) is)) = 0" for V code "is"
    by (induction "is") auto
  note defs = axis_total_def send_packet_reports packet_events_def keys map_append sum_list_append
    INPUT_REL_X_def INPUT_REL_Y_def INPUT_REL_WHEEL_def INPUT_REL_HWHEEL_def
  show "axis_total INPUT_REL_X (send_packet e x y w p) = x"
    "axis_total INPUT_REL_Y (send_packet e x y w p) = y"
    "axis_total INPUT_REL_WHEEL (send_packet e x y w p) = w"
    "axis_total INPUT_REL_HWHEEL (send_packet e x y w p) = p"
    unfolding defs by simp_all
qed

section \<open>Frames\<close>

lemma CLAMP_eq: "CLAMP v (- n) n = (if v \<le> - n then - n else if n \<le> v then n else v)" if "0 \<le> n"
  using that by (simp add: CLAMP_def)

lemma CLAMP_split:
  fixes L :: int
  assumes "0 \<le> L" and "0 \<le> m"
  shows "CLAMP v (- L) L + CLAMP (v - CLAMP v (- L) L) (- m) m = CLAMP v (- (L + m)) (L + m)"
  using assms by (auto simp: CLAMP_def min_def)

lemma CLAMP_0 [simp]: "0 \<le> n \<Longrightarrow> CLAMP 0 (- n) n = 0"
  by (simp add: CLAMP_def)

text \<open>\<open>n\<close> rounds move at most \<open>n\<close> times the limit of one round.\<close>

definition moved :: "mouse_hid_frame \<Rightarrow> int \<Rightarrow> input_event list \<Rightarrow> bool" where
  "moved fr n evs \<longleftrightarrow>
     axis_total INPUT_REL_X evs = CLAMP (fr_x fr) (- (32767 * n)) (32767 * n) \<and>
     axis_total INPUT_REL_Y evs = CLAMP (fr_y fr) (- (32767 * n)) (32767 * n) \<and>
     axis_total INPUT_REL_WHEEL evs = CLAMP (fr_wheel fr) (- (127 * n)) (127 * n) \<and>
     axis_total INPUT_REL_HWHEEL evs = CLAMP (fr_pan fr) (- (127 * n)) (127 * n)"

lemma moved_0: "moved fr 0 []"
  by (simp add: moved_def CLAMP_def)

lemma moved_done: "frame_done fr \<Longrightarrow> 0 \<le> n \<Longrightarrow> moved fr n []"
  by (simp add: moved_def frame_done_def)

lemma moved_part:
  assumes "frame_part edges fr = (packet, fr')" and "0 \<le> n" and "moved fr' n evs"
  shows "moved fr (1 + n) (packet @ evs)"
proof -
  note split = CLAMP_split [of 32767 "32767 * n"] CLAMP_split [of 127 "127 * n"]
  from assms(1) show ?thesis
    using assms(2,3) split
    by (auto simp: frame_part_def Let_def moved_def axis_total_packet distrib_left)
qed

lemma send_loop_moved: "moved fr (int n) (concat (send_loop (\<lambda>_. epoch) epoch n i edges fr))"
proof (induction n arbitrary: i edges fr)
  case 0
  then show ?case by (simp add: moved_0)
next
  case (Suc n)
  obtain packet fr' where part: "frame_part edges fr = (packet, fr')" by fastforce
  have "moved fr' (int n) (if frame_done fr' then [] else concat (send_loop (\<lambda>_. epoch) epoch n (i + 1) no_edges fr'))"
    using Suc.IH moved_done by simp
  from moved_part [OF part _ this] show ?case
    using part by (auto split: if_splits)
qed

lemma send_loop_start:
  assumes "frame_part edges fr = (packet, fr')"
  shows "send_loop epochs ep 32 0 edges fr =
    (if frame_done fr' then [packet] else packet # send_loop epochs ep 31 (Suc 0) no_edges fr')"
  using assms send_loop.simps(2) [of epochs ep 31 0 edges fr] by simp

lemma send_loop_length: "length (send_loop epochs epoch n i edges fr) \<le> n"
  by (induction n arbitrary: i edges fr) (auto split: prod.split simp: Let_def)

lemma frame_part_packet:
  assumes "frame_part edges fr = (packet, fr')"
  obtains x y w p where "packet = send_packet edges x y w p"
  using assms by (auto simp: frame_part_def Let_def)

lemma key_values_part:
  assumes "frame_part edges fr = (packet, fr')"
  shows "key_values n packet =
     (if n < 5 \<and> (bit (press edges) n \<or> bit (release edges) n) then [of_bool (bit (press edges) n)] else [])"
  using assms by (auto simp: frame_part_def Let_def key_values_packet)

lemma key_values_loop:
  "key_values m (concat (send_loop epochs epoch n (Suc i) no_edges fr)) = []"
proof (induction n arbitrary: i fr)
  case (Suc n)
  obtain packet fr' where part: "frame_part no_edges fr = (packet, fr')" by fastforce
  have "key_values m packet = []" using key_values_part [OF part, of m] by (simp add: no_edges_def)
  then show ?case using Suc part by (auto split: prod.splits if_splits)
qed simp

section \<open>The log of a button\<close>

text \<open>Reports of a button alternate, a press first; it is down at the end when a press came last.\<close>

definition key_log :: "nat \<Rightarrow> input_event list \<Rightarrow> bool \<Rightarrow> bool" where
  "key_log n evs down \<longleftrightarrow>
     (\<exists>k. key_values n evs = map (\<lambda>i. of_bool (even i)) [0 ..< k] \<and> (odd k \<longleftrightarrow> down))"

lemma key_log_Nil: "key_log n [] False"
  by (auto simp: key_log_def intro: exI [of _ 0])

lemma key_log_snoc:
  assumes "key_log n evs down" and "key_values n packet = (if down = down' then [] else [of_bool down'])"
  shows "key_log n (evs @ packet) down'"
proof -
  obtain k where k: "key_values n evs = map (\<lambda>i. of_bool (even i)) [0 ..< k]" "odd k \<longleftrightarrow> down"
    using assms(1) unfolding key_log_def by blast
  show ?thesis
  proof (cases "down = down'")
    case True
    then show ?thesis using k assms(2) unfolding key_log_def by auto
  next
    case False
    then have "key_values n (evs @ packet) = map (\<lambda>i. of_bool (even i)) [0 ..< Suc k]" "odd (Suc k) \<longleftrightarrow> down'"
      using k assms(2) by auto
    then show ?thesis unfolding key_log_def by blast
  qed
qed

definition keys_ok :: "'q out_state \<Rightarrow> bool" where
  "keys_ok st \<longleftrightarrow> button_inv (buttons st) \<and>
     (\<forall>n < 5. key_log n (reported st) (bit (forwarded (buttons st)) n))"

lemma keys_ok_packet:
  assumes "keys_ok st" and "button_step (buttons st) oper = (edges, bs)"
    and "\<And>n. key_values n packet =
      (if n < 5 \<and> (bit (press edges) n \<or> bit (release edges) n) then [of_bool (bit (press edges) n)] else [])"
    and "buttons st' = bs" and "reported st' = reported st @ packet"
  shows "keys_ok st'"
proof -
  have inv: "button_inv (buttons st)" using assms(1) by (simp add: keys_ok_def)
  note edge = buttons.press_up [OF inv assms(2)] buttons.release_down [OF inv assms(2)]
    buttons.no_edge [OF inv assms(2)]
  have "key_log n (reported st @ packet) (bit (forwarded bs) n)" if "n < 5" for n
  proof (rule key_log_snoc)
    show "key_log n (reported st) (bit (forwarded (buttons st)) n)"
      using assms(1) that by (simp add: keys_ok_def)
    show "key_values n packet = (if bit (forwarded (buttons st)) n = bit (forwarded bs) n then []
        else [of_bool (bit (forwarded bs) n)])"
      using edge [of n] that assms(3) [of n]
      by (cases "bit (press edges) n"; cases "bit (release edges) n") auto
  qed
  then show ?thesis using assms(4,5) button_step_inv [OF assms(2)] by (simp add: keys_ok_def)
qed

lemma keys_ok_cong: "buttons st' = buttons st \<Longrightarrow> reported st' = reported st \<Longrightarrow> keys_ok st' = keys_ok st"
  by (simp add: keys_ok_def)

lemma keys_ok_apply: "keys_ok st \<Longrightarrow> keys_ok (apply_pending_reset st)"
proof (cases "reset_pending st")
  case True
  assume ok: "keys_ok st"
  obtain r bs where r: "mouse_buttons_reset (buttons st) (reset_buttons st) = (r, bs)" by fastforce
  then have step: "button_step (buttons st) (Reset (reset_buttons st)) = (\<lparr>press = 0, release = r\<rparr>, bs)" by simp
  show ?thesis
    by (rule keys_ok_packet [OF ok step key_values_packet]) (simp_all add: True r apply_pending_reset_def Let_def)
qed (simp add: apply_pending_reset_def keys_ok_def Let_def)

lemma keys_ok_round:
  assumes "keys_ok st" and "button_step (buttons st) oper = (edges, bs)"
  shows "keys_ok (send_round i epoch edges fr (st\<lparr>buttons := bs\<rparr>))"
proof -
  obtain packet fr' where part: "frame_part edges fr = (packet, fr')" by fastforce
  show ?thesis
    by (rule keys_ok_packet [OF assms key_values_part [OF part]]) (simp_all add: part send_round_def)
qed

lemma keys_ok_round0:
  assumes "keys_ok st"
  shows "keys_ok (send_round i epoch no_edges fr st)"
proof -
  obtain packet fr' where part: "frame_part no_edges fr = (packet, fr')" by fastforce
  have "key_values n packet = []" for n using key_values_part [OF part, of n] by (simp add: no_edges_def)
  then have "key_log n (reported st @ packet) (bit (forwarded (buttons st)) n)" if "n < 5" for n
    using assms that by (intro key_log_snoc) (auto simp: keys_ok_def)
  then show ?thesis using part assms by (simp add: send_round_def keys_ok_def)
qed

lemma keys_ok_work:
  assumes "output_work_step get st = Some st'" and "keys_ok st"
  shows "keys_ok st'"
  using assms keys_ok_apply [of st] keys_ok_round [of st "Update p" for p] keys_ok_round0 [of st]
  by (auto simp: output_work_step_def keys_ok_def split: output_pc.splits prod.splits if_splits)

lemma keys_ok_step: "output_step put get purge st oper st' \<Longrightarrow> keys_ok st \<Longrightarrow> keys_ok st'"
  by (erule output_stepE)
    (auto dest: keys_ok_work simp: keys_ok_def zmk_mouse_output_receive_def zmk_mouse_output_disconnect_def
      endpoint_changed_def reset_stream_def Let_def split: prod.splits)

lemma keys_ok_init: "keys_ok (output_init q)"
  by (simp add: keys_ok_def output_init_def key_log_Nil)

section \<open>Queue, wake-ups and the level of the buttons\<close>

locale input_queue = msgq put get purge contents qinv capacity
  for put :: "(queued_input, 'q) put_fn" and get :: "(queued_input, 'q) get_fn" and purge :: "'q \<Rightarrow> 'q"
    and contents :: "'q \<Rightarrow> queued_input list" and qinv :: "'q \<Rightarrow> bool" and capacity :: nat
begin

text \<open>Everything queued belongs to the current epoch.\<close>

definition fresh_queue :: "'q out_state \<Rightarrow> bool" where
  "fresh_queue st \<longleftrightarrow> qinv (mouse_inputs st) \<and>
     (\<forall>x \<in> set (contents (mouse_inputs st)). qi_epoch x = stream_epoch st)"

text \<open>Work that is left is work the handler will still see: it was submitted again or is on its way.\<close>

definition no_lost_wakeup :: "'q out_state \<Rightarrow> bool" where
  "no_lost_wakeup st \<longleftrightarrow>
     (contents (mouse_inputs st) \<noteq> [] \<longrightarrow> output_submitted st \<or> worker st \<notin> {WIdle, WFinal}) \<and>
     (reset_pending st \<longrightarrow> output_submitted st \<or> worker st \<noteq> WIdle)"

text \<open>
  The last report of the mouse gets through: it is the last one queued, or the one in the worker's
  hands, or the one a pending reset will mute, or the forwarded and muted buttons together equal it.
\<close>

definition settled :: "'q out_state \<Rightarrow> bool" where
  "settled st \<longleftrightarrow> (\<forall>n. bit (physical_buttons st) n \<longleftrightarrow>
     bit (forwarded (buttons st)) n \<or> bit (suppressed (buttons st)) n)"

definition in_hand :: "'q out_state \<Rightarrow> queued_input option" where
  "in_hand st = (case worker st of
      WGot x \<Rightarrow> if qi_epoch x = stream_epoch st then Some x else None
    | WCheck x \<Rightarrow> if qi_epoch x = stream_epoch st then Some x else None
    | _ \<Rightarrow> None)"

definition tracks :: "'q out_state \<Rightarrow> bool" where
  "tracks st \<longleftrightarrow>
     (if contents (mouse_inputs st) \<noteq> []
      then physical_buttons st = qi_buttons (last (contents (mouse_inputs st))) AND 0x1f
      else case in_hand st of
        Some x \<Rightarrow> physical_buttons st = qi_buttons x AND 0x1f
      | None \<Rightarrow> if reset_pending st then reset_buttons st = physical_buttons st else settled st)"

text \<open>An input in hand is not newer than the stream; checked against a current one, no reset is pending.\<close>

definition epochs_ok :: "nat \<Rightarrow> 'q out_state \<Rightarrow> bool" where
  "epochs_ok k st \<longleftrightarrow> unat (stream_epoch st) \<le> k \<and>
     (case worker st of WGot x \<Rightarrow> qi_epoch x \<le> stream_epoch st | WCheck x \<Rightarrow> qi_epoch x \<le> stream_epoch st
      | WSend i ep _ \<Rightarrow> 0 < i \<and> i < 32 \<and> ep \<le> stream_epoch st | _ \<Rightarrow> True) \<and>
     (\<forall>x. worker st = WCheck x \<longrightarrow> qi_epoch x = stream_epoch st \<longrightarrow> \<not> reset_pending st) \<and>
     physical_buttons st AND 0x1f = physical_buttons st"

lemma apply_simps [simp]:
  "stream_epoch (apply_pending_reset st) = stream_epoch st"
  "physical_buttons (apply_pending_reset st) = physical_buttons st"
  "\<not> reset_pending (apply_pending_reset st)"
  "mouse_inputs (apply_pending_reset st) = mouse_inputs st"
  "output_submitted (apply_pending_reset st) = output_submitted st"
  "worker (apply_pending_reset st) = worker st"
  by (simp_all add: apply_pending_reset_def Let_def split: prod.split)

lemma round_simps [simp]:
  "stream_epoch (send_round i ep ed fr st) = stream_epoch st"
  "physical_buttons (send_round i ep ed fr st) = physical_buttons st"
  "reset_pending (send_round i ep ed fr st) = reset_pending st"
  "reset_buttons (send_round i ep ed fr st) = reset_buttons st"
  "mouse_inputs (send_round i ep ed fr st) = mouse_inputs st"
  "output_submitted (send_round i ep ed fr st) = output_submitted st"
  "buttons (send_round i ep ed fr st) = buttons st"
  by (simp_all add: send_round_def split: prod.split)

lemma round_worker:
  "worker (send_round i ep ed fr st) = WGet \<or>
   i + 1 \<noteq> 32 \<and> (\<exists>fr'. worker (send_round i ep ed fr st) = WSend (i + 1) ep fr')"
  by (simp add: send_round_def split: prod.split)

lemma receive_cases:
  assumes "fresh_queue st" and "st' = zmk_mouse_output_receive put purge fr p st"
  obtains (queued) q where "length (contents (mouse_inputs st)) < capacity" "qinv q"
      "contents q = contents (mouse_inputs st) @
         [\<lparr>qi_frame = fr, qi_epoch = stream_epoch st, qi_buttons = p\<rparr>]"
      "st' = st\<lparr>physical_buttons := p AND 0x1f, mouse_inputs := q, output_submitted := True\<rparr>"
    | (overflow) q where "length (contents (mouse_inputs st)) = capacity" "qinv q" "contents q = []"
      "st' = st\<lparr>physical_buttons := p AND 0x1f, stream_epoch := stream_epoch st + 1,
         reset_buttons := p AND 0x1f, reset_pending := True, mouse_inputs := q, output_submitted := True\<rparr>"
proof -
  have q: "qinv (mouse_inputs st)" using assms(1) by (simp add: fresh_queue_def)
  define x where "x = \<lparr>qi_frame = fr, qi_epoch = stream_epoch st, qi_buttons = p\<rparr>"
  obtain e q' where put: "put x (mouse_inputs st) = (e, q')" by fastforce
  note laws = put_result [OF q, of x] put_contents [OF q, of x] put_inv [OF q, of x]
  show thesis
  proof (cases "length (contents (mouse_inputs st)) < capacity")
    case True
    then show thesis using put laws
      by (intro queued [of q']) (auto simp: assms(2) zmk_mouse_output_receive_def Let_def x_def)
  next
    case False
    then show thesis using put laws bounded [OF q] purge_contents purge_inv
      by (intro overflow [of "purge q'"]) (auto simp: assms(2) zmk_mouse_output_receive_def Let_def x_def)
  qed
qed

text \<open>The steps of the handler, with the queue read through its contents.\<close>

lemma work_cases:
  assumes "fresh_queue st" and "output_work_step get st = Some st'"
  obtains (wake) "worker st = WIdle" "output_submitted st"
      "st' = st\<lparr>output_submitted := False, worker := WStart\<rparr>"
    | (reset) pc where "worker st = WStart \<and> pc = WGet \<or> worker st = WFinal \<and> pc = WIdle \<or>
        (\<exists>x. worker st = WGot x \<and> pc = WCheck x)" "st' = (apply_pending_reset st)\<lparr>worker := pc\<rparr>"
    | (empty) q where "worker st = WGet" "contents (mouse_inputs st) = []" "contents q = []" "qinv q"
      "st' = st\<lparr>mouse_inputs := q, worker := WFinal\<rparr>"
    | (fetch) x q where "worker st = WGet" "contents (mouse_inputs st) = x # contents q" "qinv q"
      "st' = st\<lparr>mouse_inputs := q, worker := WGot x\<rparr>"
    | (stale) x where "worker st = WCheck x" "qi_epoch x \<noteq> stream_epoch st" "st' = st\<lparr>worker := WGet\<rparr>"
    | (first) x edges bs where "worker st = WCheck x" "qi_epoch x = stream_epoch st"
      "mouse_buttons_update (buttons st) (qi_buttons x) = (edges, bs)"
      "st' = send_round 0 (qi_epoch x) edges (qi_frame x) (st\<lparr>buttons := bs\<rparr>)"
    | (stop) i ep fr where "worker st = WSend i ep fr" "i \<noteq> 0" "ep \<noteq> stream_epoch st" "st' = st\<lparr>worker := WGet\<rparr>"
    | (round) i ep fr where "worker st = WSend i ep fr" "i = 0 \<or> ep = stream_epoch st"
      "st' = send_round i ep no_edges fr st"
proof -
  have q: "qinv (mouse_inputs st)" using assms(1) by (simp add: fresh_queue_def)
  show thesis
  proof (cases "worker st")
    case WGet
    obtain inp q' where g: "get (mouse_inputs st) = (inp, q')" by fastforce
    note laws = get_result [OF q] get_contents [OF q] get_inv [OF q]
    show thesis
    proof (cases "contents (mouse_inputs st)")
      case Nil
      then show thesis using assms(2) g laws WGet
        by (intro empty [of q']) (auto simp: output_work_step_def)
    next
      case (Cons x xs)
      then show thesis using assms(2) g laws WGet
        by (intro fetch [of x q']) (auto simp: output_work_step_def)
    qed
  qed (use assms(2) wake reset stale first stop round in
      \<open>auto simp: output_work_step_def split: prod.splits if_splits\<close>)
qed

lemma fresh_queue_cong:
  "mouse_inputs st' = mouse_inputs st \<Longrightarrow> stream_epoch st' = stream_epoch st \<Longrightarrow> fresh_queue st' = fresh_queue st"
  by (simp add: fresh_queue_def)

lemma receive_queue:
  assumes "fresh_queue st" and "st' = zmk_mouse_output_receive put purge fr p st"
  shows "fresh_queue st'" and "no_lost_wakeup st'"
proof -
  show "fresh_queue st'"
    by (cases rule: receive_cases [OF assms]) (use assms(1) in \<open>simp_all add: fresh_queue_def\<close>)
  show "no_lost_wakeup st'"
    by (simp add: no_lost_wakeup_def assms(2) zmk_mouse_output_receive_def Let_def split: prod.split)
qed

lemma reset_queue:
  assumes "fresh_queue st"
  shows "fresh_queue (reset_stream purge d st)" and "no_lost_wakeup (reset_stream purge d st)"
    and "contents (mouse_inputs (reset_stream purge d st)) = []"
  using assms purge_contents purge_inv
  by (simp_all add: fresh_queue_def no_lost_wakeup_def reset_stream_def Let_def)

lemma work_queue:
  assumes "fresh_queue st" and "no_lost_wakeup st" and "output_work_step get st = Some st'"
  shows "fresh_queue st'" and "no_lost_wakeup st'"
proof -
  show "fresh_queue st'"
    by (cases rule: work_cases [OF assms(1,3)]) (use assms(1) in \<open>auto simp: fresh_queue_def\<close>)
  from assms(1,3) show "no_lost_wakeup st'"
  proof (cases rule: work_cases)
    case (first x edges bs)
    then show ?thesis using assms(2)
        round_worker [of 0 "qi_epoch x" edges "qi_frame x" "st\<lparr>buttons := bs\<rparr>"]
      by (auto simp: no_lost_wakeup_def)
  next
    case (round i ep fr)
    then show ?thesis using assms(2) round_worker [of i ep no_edges fr st]
      by (auto simp: no_lost_wakeup_def)
  qed (use assms(2) in \<open>auto simp: no_lost_wakeup_def\<close>)
qed

lemma step_queue:
  assumes "output_step put get purge st oper st'" and "fresh_queue st" and "no_lost_wakeup st"
  shows "fresh_queue st' \<and> no_lost_wakeup st'"
  using assms(1)
proof cases
  case (receive fr p)
  then show ?thesis using receive_queue [OF assms(2)] by blast
next
  case disconnect
  then show ?thesis using reset_queue [OF assms(2)] by (simp add: zmk_mouse_output_disconnect_def)
next
  case (endpoint c)
  then show ?thesis using reset_queue [OF assms(2)] assms(2,3) by (simp add: endpoint_changed_def)
next
  case work
  then show ?thesis using work_queue [OF assms(2,3)] by blast
qed

lemma epoch_bump:
  fixes e :: u32
  assumes "unat e \<le> k" and "Suc k < 2 ^ 32"
  shows "unat (e + 1) \<le> Suc k" and "x \<le> e \<Longrightarrow> x \<noteq> e + 1"
proof -
  have u: "unat (e + 1) = Suc (unat e)" using assms by (simp add: unat_word_ariths)
  then show "unat (e + 1) \<le> Suc k" using assms(1) by simp
  show "x \<noteq> e + 1" if "x \<le> e" using that u by (auto simp: word_le_nat_alt)
qed

lemma epoch_bump_le:
  fixes e :: u32
  assumes "unat e \<le> k" and "Suc k < 2 ^ 32" and "x \<le> e"
  shows "x \<le> e + 1"
proof -
  have "unat (e + 1) = Suc (unat e)" using assms by (simp add: unat_word_ariths)
  then show ?thesis using assms(3) by (simp add: word_le_nat_alt)
qed

text \<open>A reset of the stream, by overflow, disconnection or endpoint change.\<close>

lemma bump_tracks:
  assumes "epochs_ok k st" and "Suc k < 2 ^ 32" and "contents (mouse_inputs st') = []"
    and "stream_epoch st' = stream_epoch st + 1" and "worker st' = worker st"
    and "reset_pending st'" and "reset_buttons st' = physical_buttons st'"
    and "physical_buttons st' AND 0x1f = physical_buttons st'"
  shows "tracks st'" and "epochs_ok (Suc k) st'"
proof -
  have e: "unat (stream_epoch st) \<le> k" using assms(1) by (simp add: epochs_ok_def)
  note bump = epoch_bump [OF e assms(2)] epoch_bump_le [OF e assms(2)]
  have "in_hand st' = None"
    using assms(1,4,5) bump(2) by (auto simp: in_hand_def epochs_ok_def split: output_pc.splits)
  then show "tracks st'" using assms by (simp add: tracks_def)
  show "epochs_ok (Suc k) st'"
    using assms(1,4,5,8) bump by (auto simp: epochs_ok_def split: output_pc.splits)
qed

lemma and_31_idem: "(p AND 0x1f) AND 0x1f = (p AND 0x1f :: u8)"
  by (simp add: and.assoc)

lemma receive_tracks:
  assumes "fresh_queue st" and "epochs_ok k st" and "Suc k < 2 ^ 32"
    and "st' = zmk_mouse_output_receive put purge fr p st"
  shows "tracks st' \<and> epochs_ok (Suc k) st'"
  using assms(1,4)
proof (cases rule: receive_cases)
  case (queued q)
  then show ?thesis using assms(2) and_31_idem [of p]
    by (auto simp: tracks_def epochs_ok_def split: output_pc.splits)
next
  case (overflow q)
  then show ?thesis using bump_tracks [OF assms(2,3), of st'] and_31_idem [of p] by simp
qed

lemma reset_simps [simp]:
  "stream_epoch (reset_stream purge d st) = stream_epoch st + 1"
  "worker (reset_stream purge d st) = worker st"
  "reset_pending (reset_stream purge d st)"
  "physical_buttons (reset_stream purge d st) = (if d then 0 else physical_buttons st)"
  "reset_buttons (reset_stream purge d st) = (if d then 0 else physical_buttons st)"
  by (simp_all add: reset_stream_def Let_def)

lemma reset_tracks:
  assumes "fresh_queue st" and "epochs_ok k st" and "Suc k < 2 ^ 32"
  shows "tracks (reset_stream purge d st) \<and> epochs_ok (Suc k) (reset_stream purge d st)"
  using bump_tracks [OF assms(2,3), of "reset_stream purge d st"] reset_queue(3) [OF assms(1)] assms(2)
  by (simp add: epochs_ok_def)

lemma apply_settled:
  assumes "reset_pending st \<Longrightarrow> reset_buttons st = physical_buttons st"
    and "\<not> reset_pending st \<Longrightarrow> settled st" and "physical_buttons st AND 0x1f = physical_buttons st"
  shows "settled (apply_pending_reset st)"
proof (cases "reset_pending st")
  case True
  have "bit (physical_buttons st) n \<longleftrightarrow> n < 5 \<and> bit (physical_buttons st) n" for n
    using arg_cong [OF assms(3), of "\<lambda>w. bit w n"] bit_0x1f [of n] by (auto simp: bit_and_iff)
  moreover obtain r bs where r: "mouse_buttons_reset (buttons st) (reset_buttons st) = (r, bs)" by fastforce
  ultimately show ?thesis
    using True assms(1) reset_bits [OF r] by (auto simp: settled_def apply_pending_reset_def Let_def)
next
  case False
  then show ?thesis using assms(2) by (simp add: settled_def apply_pending_reset_def Let_def)
qed

lemma update_settled:
  assumes "mouse_buttons_update (buttons st) p = (edges, bs)" and "physical_buttons st = p AND 0x1f"
    and "buttons st' = bs" and "physical_buttons st' = physical_buttons st"
  shows "settled st'"
  using update_bits [OF assms(1)] assms(2-) bit_0x1f by (auto simp: settled_def bit_and_iff)

lemma settled_cong:
  "physical_buttons st' = physical_buttons st \<Longrightarrow> buttons st' = buttons st \<Longrightarrow> settled st' = settled st"
  by (simp add: settled_def)

lemma tracks_cong:
  assumes "contents (mouse_inputs st') = contents (mouse_inputs st)" and "in_hand st' = in_hand st"
    and "physical_buttons st' = physical_buttons st" and "reset_pending st' = reset_pending st"
    and "reset_buttons st' = reset_buttons st" and "buttons st' = buttons st"
  shows "tracks st' = tracks st"
  using assms by (simp add: tracks_def settled_cong [of st' st] split: option.split)

lemma work_tracks:
  assumes "fresh_queue st" and "epochs_ok k st" and "tracks st" and "output_work_step get st = Some st'"
  shows "tracks st' \<and> epochs_ok k st'"
  using assms(1,4)
proof (cases rule: work_cases)
  case wake
  then have "tracks st' = tracks st" by (intro tracks_cong) (simp_all add: in_hand_def)
  then show ?thesis using assms(2,3) wake by (simp add: epochs_ok_def)
next
  case (reset pc)
  have sets: "settled (apply_pending_reset st)"
    if "contents (mouse_inputs st) = []" "in_hand st = None"
    using assms(2,3) that by (intro apply_settled) (auto simp: tracks_def epochs_ok_def split: if_splits)
  have hand: "in_hand st' = in_hand st" using reset by (auto simp: in_hand_def)
  have "settled st' = settled (apply_pending_reset st)" using reset(2) by (simp add: settled_def)
  then have "tracks st'"
    using assms(3) sets hand reset(2) by (auto simp: tracks_def split: option.splits)
  then show ?thesis using assms(2) reset by (auto simp: epochs_ok_def)
next
  case (empty q)
  then have "tracks st' = tracks st" by (intro tracks_cong) (simp_all add: in_hand_def)
  then show ?thesis using assms(2,3) empty by (simp add: epochs_ok_def)
next
  case (fetch x q)
  then have "qi_epoch x = stream_epoch st" using assms(1) by (simp add: fresh_queue_def)
  then show ?thesis using assms(2,3) fetch
    by (auto simp: tracks_def epochs_ok_def in_hand_def)
next
  case (stale x)
  then have "tracks st' = tracks st" by (intro tracks_cong) (simp_all add: in_hand_def)
  then show ?thesis using assms(2,3) stale by (simp add: epochs_ok_def)
next
  case (first x edges bs)
  have worker: "in_hand st' = None" "worker st' = WGet \<or> (\<exists>fr. worker st' = WSend 1 (stream_epoch st) fr)"
    using first(2) round_worker [of 0 "qi_epoch x" edges "qi_frame x" "st\<lparr>buttons := bs\<rparr>"] first(4)
    by (auto simp: in_hand_def)
  have pend: "\<not> reset_pending st" using assms(2) first(1,2) by (simp add: epochs_ok_def)
  have "settled st'" if "contents (mouse_inputs st) = []"
  proof (rule update_settled [OF first(3)])
    show "physical_buttons st = qi_buttons x AND 0x1f"
      using that assms(3) first(1,2) by (simp add: tracks_def in_hand_def)
  qed (simp_all add: first(4))
  then have "tracks st'" using assms(3) first(4) worker(1) pend by (auto simp: tracks_def)
  moreover have "epochs_ok k st'" using assms(2) first(1,2,4) worker(2)
    by (auto simp: epochs_ok_def)
  ultimately show ?thesis by blast
next
  case (stop i ep fr)
  then have "tracks st' = tracks st" by (intro tracks_cong) (simp_all add: in_hand_def)
  then show ?thesis using assms(2,3) stop by (simp add: epochs_ok_def)
next
  case (round i ep fr)
  have worker: "in_hand st' = None" "worker st' = WGet \<or> i + 1 \<noteq> 32 \<and> (\<exists>fr. worker st' = WSend (i + 1) ep fr)"
    using round_worker [of i ep no_edges fr st] round(3) by (auto simp: in_hand_def)
  have "tracks st' = tracks st"
    using round worker(1) by (intro tracks_cong) (simp_all add: in_hand_def)
  moreover have "epochs_ok k st'" using assms(2) round(1,3) worker(2)
    by (auto simp: epochs_ok_def)
  ultimately show ?thesis using assms(3) by blast
qed

text \<open>All traces from the initial state.\<close>

lemma queue_init: "qinv q \<Longrightarrow> contents q = [] \<Longrightarrow> fresh_queue (output_init q) \<and> no_lost_wakeup (output_init q)"
  by (simp add: fresh_queue_def no_lost_wakeup_def output_init_def)

lemma tracks_init: "contents q = [] \<Longrightarrow> tracks (output_init q) \<and> epochs_ok 0 (output_init q)"
  by (simp add: tracks_def epochs_ok_def output_init_def in_hand_def settled_def)

lemma trace_queue:
  assumes "output_trace put get purge (output_init q) ops st" and "qinv q" and "contents q = []"
  shows "fresh_queue st \<and> no_lost_wakeup st"
  using assms(1)
proof induction
  case start
  then show ?case using queue_init assms(2,3) by blast
next
  case (extend ops st1 oper st2)
  then show ?case using step_queue by blast
qed

lemma step_tracks:
  assumes "output_step put get purge st oper st'" and "fresh_queue st" and "tracks st" and "epochs_ok k st"
    and "oper \<noteq> Work \<Longrightarrow> Suc k < 2 ^ 32"
  shows "tracks st' \<and> epochs_ok (if oper = Work then k else Suc k) st'"
  using assms(1)
proof cases
  case (receive fr p)
  then show ?thesis using receive_tracks [OF assms(2,4)] assms(5) by auto
next
  case disconnect
  then show ?thesis using reset_tracks [OF assms(2,4)] assms(5) by (simp add: zmk_mouse_output_disconnect_def)
next
  case (endpoint c)
  show ?thesis
  proof (cases c)
    case True
    then show ?thesis using endpoint reset_tracks [OF assms(2,4)] assms(5) by (simp add: endpoint_changed_def)
  next
    case False
    then show ?thesis using endpoint assms(3,4)
      by (auto simp: endpoint_changed_def epochs_ok_def)
  qed
next
  case work
  then show ?thesis using work_tracks [OF assms(2,4,3)] by simp
qed

lemma trace_tracks:
  assumes "output_trace put get purge (output_init q) ops st" and "qinv q" and "contents q = []"
    and "length (filter (\<lambda>oper. oper \<noteq> Work) ops) < 2 ^ 32"
  shows "tracks st \<and> epochs_ok (length (filter (\<lambda>oper. oper \<noteq> Work) ops)) st"
  using assms(1,4)
proof induction
  case start
  then show ?case using tracks_init assms(3) by simp
next
  case (extend ops st1 oper st2)
  have "fresh_queue st1" using trace_queue [OF extend.hyps(1) assms(2,3)] ..
  then show ?case using extend step_tracks [OF extend.hyps(2)] by (cases "oper = Work") auto
qed

text \<open>
  A bound on the steps of the handler while nobody else runs. A frame takes at most 32 packets, so
  every queued input costs at most 36 steps.
\<close>

definition work_left :: "'q out_state \<Rightarrow> nat" where
  "work_left st = (if output_submitted st then 4 else 0) + 36 * length (contents (mouse_inputs st)) +
     (case worker st of
        WIdle \<Rightarrow> 0 | WFinal \<Rightarrow> 1 | WGet \<Rightarrow> 2 | WStart \<Rightarrow> 3
      | WSend i _ _ \<Rightarrow> 3 + (33 - i) | WCheck _ \<Rightarrow> 36 | WGot _ \<Rightarrow> 37)"

lemma work_decreases:
  assumes "fresh_queue st" and "output_work_step get st = Some st'"
    and "\<forall>i ep fr. worker st = WSend i ep fr \<longrightarrow> 0 < i \<and> i < 32"
  shows "work_left st' < work_left st"
  using assms(1,2)
proof (cases rule: work_cases)
  case (reset pc)
  then show ?thesis by (auto simp: work_left_def)
next
  case (first x edges bs)
  then show ?thesis by (auto simp: work_left_def send_round_def split: prod.split)
next
  case (round i ep fr)
  then show ?thesis using assms(3) by (auto simp: work_left_def send_round_def split: prod.split)
qed (auto simp: work_left_def)

lemma work_progress: "output_work_step get st = None \<longleftrightarrow> worker st = WIdle \<and> \<not> output_submitted st"
  by (auto simp: output_work_step_def split: output_pc.split prod.split)

text \<open>After a disconnection the handler, left alone, only lets go of buttons.\<close>

definition stale_hand :: "'q out_state \<Rightarrow> bool" where
  "stale_hand st \<longleftrightarrow> contents (mouse_inputs st) = [] \<and>
     (case worker st of WGot x \<Rightarrow> qi_epoch x \<noteq> stream_epoch st | WCheck x \<Rightarrow> qi_epoch x \<noteq> stream_epoch st
      | WSend i ep _ \<Rightarrow> i \<noteq> 0 \<and> ep \<noteq> stream_epoch st | _ \<Rightarrow> True)"

lemma disconnect_stale:
  assumes "fresh_queue st" and "epochs_ok k st" and "Suc k < 2 ^ 32"
  shows "stale_hand (zmk_mouse_output_disconnect purge st)"
proof -
  have "unat (stream_epoch st) \<le> k" using assms(2) by (simp add: epochs_ok_def)
  from epoch_bump(2) [OF this assms(3)] show ?thesis
    using assms(2) reset_queue(3) [OF assms(1)]
    by (auto simp: stale_hand_def zmk_mouse_output_disconnect_def epochs_ok_def split: output_pc.splits)
qed

lemma release_packet:
  "e \<in> set (send_packet \<lparr>press = 0, release = r\<rparr> 0 0 0 0) \<Longrightarrow> ev_key e \<and> ev_value e = 0"
proof -
  assume "e \<in> set (send_packet \<lparr>press = 0, release = r\<rparr> 0 0 0 0)"
  then have "report_of e \<in> set (packet_events \<lparr>press = 0, release = r\<rparr> 0 0 0 0)"
    unfolding send_packet_reports [symmetric] by simp
  then show ?thesis by (auto simp: packet_events_def report_of_def split: if_splits)
qed

lemma stale_work:
  assumes "fresh_queue st" and "stale_hand st" and "output_work_step get st = Some st'"
  shows "stale_hand st' \<and>
    (\<exists>rel. reported st' = reported st @ rel \<and> (\<forall>e \<in> set rel. ev_key e \<and> ev_value e = 0))"
  using assms(1,3)
proof (cases rule: work_cases)
  case (reset pc)
  have "\<exists>rel. reported (apply_pending_reset st) = reported st @ rel \<and> (\<forall>e \<in> set rel. ev_key e \<and> ev_value e = 0)"
    using release_packet by (auto simp: apply_pending_reset_def Let_def split: prod.split)
  then show ?thesis using assms(2) reset by (auto simp: stale_hand_def)
qed (use assms(2) in \<open>auto simp: stale_hand_def\<close>)

lemma trace_hand:
  assumes "output_trace put get purge (output_init q) ops st" and "qinv q" and "contents q = []"
    and "length (filter (\<lambda>oper. oper \<noteq> Work) ops) < 2 ^ 32"
    and "output_trace put get purge st (replicate k Work) st'"
  shows "fresh_queue st' \<and> no_lost_wakeup st' \<and> tracks st' \<and>
    epochs_ok (length (filter (\<lambda>oper. oper \<noteq> Work) ops)) st' \<and> k + work_left st' \<le> work_left st"
  using assms(5)
proof (induction "replicate k Work" st' arbitrary: k rule: output_trace.induct)
  case start
  then show ?case using trace_queue [OF assms(1-3)] trace_tracks [OF assms(1-4)] by simp
next
  case (extend ops' st1 oper st2)
  obtain j where j: "k = Suc j" "oper = Work" "ops' = replicate j Work"
    using snoc_eq_replicate [OF extend.hyps(4)] by blast
  have work: "output_work_step get st1 = Some st2" using extend.hyps(3) j(2) by (simp add: output_step_work)
  have ih: "fresh_queue st1" "no_lost_wakeup st1" "tracks st1"
    "epochs_ok (length (filter (\<lambda>oper. oper \<noteq> Work) ops)) st1" "j + work_left st1 \<le> work_left st"
    using extend.hyps(2) [OF j(3)] by auto
  have "\<forall>i ep fr. worker st1 = WSend i ep fr \<longrightarrow> 0 < i \<and> i < 32"
    using ih(4) by (auto simp: epochs_ok_def)
  from work_decreases [OF ih(1) work this] have "work_left st2 < work_left st1" .
  then have "k + work_left st2 \<le> work_left st" using ih(5) j(1) by linarith
  then show ?case using work_queue [OF ih(1,2) work] work_tracks [OF ih(1,4,3) work] by blast
qed

lemma stale_works:
  assumes "output_trace put get purge st (replicate k Work) st'" and "fresh_queue st" and "no_lost_wakeup st"
    and "stale_hand st"
  shows "fresh_queue st' \<and> no_lost_wakeup st' \<and> stale_hand st' \<and>
    (\<exists>rel. reported st' = reported st @ rel \<and> (\<forall>e \<in> set rel. ev_key e \<and> ev_value e = 0))"
  using assms(1)
proof (induction "replicate k Work" st' arbitrary: k rule: output_trace.induct)
  case start
  then show ?case using assms(2-4) by simp
next
  case (extend ops' st1 oper st2)
  obtain j where j: "k = Suc j" "oper = Work" "ops' = replicate j Work"
    using snoc_eq_replicate [OF extend.hyps(4)] by blast
  have work: "output_work_step get st1 = Some st2" using extend.hyps(3) j(2) by (simp add: output_step_work)
  obtain rel where ih: "fresh_queue st1" "no_lost_wakeup st1" "stale_hand st1" "reported st1 = reported st @ rel"
    "\<forall>e \<in> set rel. ev_key e \<and> ev_value e = 0"
    using extend.hyps(2) [OF j(3)] by auto
  show ?case using work_queue [OF ih(1,2) work] stale_work [OF ih(1,3) work] ih(4,5)
    by (auto simp: ball_Un)
qed

end

interpretation ring_inputs: input_queue k_msgq_put k_msgq_get k_msgq_purge ring_contents "ring_inv n" n
  by unfold_locales

section \<open>Running the handler\<close>

primrec works :: "(queued_input, 'q) get_fn \<Rightarrow> nat \<Rightarrow> 'q out_state \<Rightarrow> 'q out_state option" where
  "works get 0 st = Some st"
| "works get (Suc k) st = Option.bind (works get k st) (output_work_step get)"

lemma works_trace:
  "works get k st = Some st' \<Longrightarrow> output_trace put get purge st (replicate k Work) st'"
proof (induction k arbitrary: st')
  case 0
  then show ?case by (simp add: output_trace.start)
next
  case (Suc k)
  then obtain st1 where st1: "works get k st = Some st1" "output_work_step get st1 = Some st'"
    by (auto simp: bind_eq_Some_conv)
  have "output_trace put get purge st (replicate k Work @ [Work]) st'"
    using output_trace.extend [OF Suc.IH [OF st1(1)] output_step.work [OF st1(2)]] .
  then show ?case by (simp add: replicate_append_same)
qed

lemma trace_append:
  assumes "output_trace put get purge st ops st1" and "output_trace put get purge st1 ops' st2"
  shows "output_trace put get purge st (ops @ ops') st2"
  using assms(2)
proof induction
  case start
  then show ?case using assms(1) by simp
next
  case (extend ops' st2 oper st3)
  then show ?case using output_trace.extend [of put get purge st "ops @ ops'"] by simp
qed

text \<open>The buttons that the mouse last reported held.\<close>

definition hand :: "output_op list \<Rightarrow> u8" where
  "hand ops = fold (\<lambda>oper h. case oper of Receive _ p \<Rightarrow> p AND 0x1f | Disconnect \<Rightarrow> 0 | _ \<Rightarrow> h) ops 0"

lemma hand_works: "hand (ops @ replicate k Work) = hand ops"
proof (induction k)
  case (Suc k)
  then show ?case by (simp add: hand_def replicate_append_same [symmetric] del: replicate_Suc)
qed simp

lemma work_physical: "output_work_step get st = Some st' \<Longrightarrow> physical_buttons st' = physical_buttons st"
  by (auto simp: output_work_step_def apply_pending_reset_def send_round_def Let_def
      split: output_pc.splits prod.splits if_splits)

lemma trace_physical:
  "output_trace put get purge (output_init q) ops st \<Longrightarrow> physical_buttons st = hand ops"
proof (induction rule: output_trace.induct)
  case start
  then show ?case by (simp add: hand_def output_init_def)
next
  case (extend ops st1 oper st2)
  from extend.hyps(2) show ?case
    by cases (use extend.IH in \<open>auto dest: work_physical simp: hand_def zmk_mouse_output_receive_def
      zmk_mouse_output_disconnect_def endpoint_changed_def reset_stream_def Let_def split: prod.splits\<close>)
qed

lemma trace_keys: "output_trace put get purge (output_init q) ops st \<Longrightarrow> keys_ok st"
  by (induction rule: output_trace.induct) (auto intro: keys_ok_init keys_ok_step)

text \<open>What is in force when the worker has nothing left to do.\<close>

lemma rest_state:
  assumes "input_queue put get purge contents qinv capacity" and "qinv q" and "contents q = []"
    and "output_trace put get purge (output_init q) ops st"
    and "length (filter (\<lambda>oper. oper \<noteq> Work) ops) < 2 ^ 32"
    and "worker st = WIdle" and "\<not> output_submitted st"
  shows "contents (mouse_inputs st) = []" "\<not> reset_pending st" "physical_buttons st = hand ops"
    "bit (hand ops) n \<longleftrightarrow> bit (forwarded (buttons st)) n \<noteq> bit (suppressed (buttons st)) n"
proof -
  note q = input_queue.trace_queue [OF assms(1,4,2,3)] input_queue.trace_tracks [OF assms(1,4,2,3,5)]
  show idle: "contents (mouse_inputs st) = []" "\<not> reset_pending st"
    using q(1) assms(6,7) by (auto simp: input_queue.no_lost_wakeup_def [OF assms(1)])
  then have "input_queue.settled st"
    using q(2) assms(6) by (simp add: input_queue.tracks_def [OF assms(1)] input_queue.in_hand_def [OF assms(1)])
  then show "physical_buttons st = hand ops"
    "bit (hand ops) n \<longleftrightarrow> bit (forwarded (buttons st)) n \<noteq> bit (suppressed (buttons st)) n"
    using trace_physical [OF assms(4)] trace_keys [OF assms(4)]
    by (auto simp: input_queue.settled_def [OF assms(1)] keys_ok_def button_inv_def)
qed

lemma works_front:
  "output_work_step get st = Some st1 \<Longrightarrow> works get k st1 = Some st2 \<Longrightarrow> works get (Suc k) st = Some st2"
  by (induction k arbitrary: st2) (auto simp: bind_eq_Some_conv)

text \<open>Rounds \<open>i\<close> to 31 of the worker, undisturbed, are those of \<open>send_loop\<close>.\<close>

lemma works_rounds:
  assumes "worker st = WSend i ep fr" and "ep = stream_epoch st" and "i < 32"
  shows "\<exists>k. works get k st = Some (st\<lparr>worker := WGet,
    reported := reported st @ concat (send_loop (\<lambda>_. ep) ep (32 - i) i no_edges fr)\<rparr>)"
  using assms
proof (induction "32 - i" arbitrary: i st fr)
  case (Suc n)
  obtain packet fr' where part: "frame_part no_edges fr = (packet, fr')" by fastforce
  have step: "output_work_step get st = Some (send_round i ep no_edges fr st)"
    using Suc.prems by (simp add: output_work_step_def)
  have n: "32 - i = Suc n" "32 - (i + 1) = n" using Suc.hyps(2) by simp_all
  show ?case
  proof (cases "frame_done fr' \<or> i + 1 = 32")
    case True
    then have "concat (send_loop (\<lambda>_. ep) ep (32 - i) i no_edges fr) = packet" using part n by auto
    moreover have "send_round i ep no_edges fr st = st\<lparr>worker := WGet, reported := reported st @ packet\<rparr>"
      using True part by (simp add: send_round_def)
    ultimately have "works get (Suc 0) st = Some (st\<lparr>worker := WGet,
        reported := reported st @ concat (send_loop (\<lambda>_. ep) ep (32 - i) i no_edges fr)\<rparr>)"
      using step by simp
    then show ?thesis by blast
  next
    case False
    define st1 where "st1 = send_round i ep no_edges fr st"
    have st1: "st1 = st\<lparr>worker := WSend (i + 1) ep fr', reported := reported st @ packet\<rparr>"
      using False part by (simp add: st1_def send_round_def)
    obtain k where "works get k st1 = Some (st1\<lparr>worker := WGet,
        reported := reported st1 @ concat (send_loop (\<lambda>_. ep) ep n (i + 1) no_edges fr')\<rparr>)"
      using Suc.hyps(1) [of "i + 1" st1 fr'] n st1 Suc.prems False by auto
    from works_front [OF step [folded st1_def] this] show ?thesis
      using False part n st1 by (intro exI [of _ "Suc k"]) simp
  qed
qed simp

lemma works_frame:
  assumes "worker st = WCheck x" and "qi_epoch x = stream_epoch st"
    and "send_frame (\<lambda>_. stream_epoch st) x (buttons st) = (packets, bs)"
  shows "\<exists>k. works get k st = Some (st\<lparr>worker := WGet, buttons := bs, reported := reported st @ concat packets\<rparr>)"
proof -
  define ep where "ep = stream_epoch st"
  obtain edges where up: "mouse_buttons_update (buttons st) (qi_buttons x) = (edges, bs)"
    and ps: "packets = send_loop (\<lambda>_. ep) ep 32 0 edges (qi_frame x)"
    using assms(2,3) by (auto simp: send_frame_def ep_def split: prod.splits)
  obtain packet fr where part: "frame_part edges (qi_frame x) = (packet, fr)" by fastforce
  define st1 where "st1 = send_round 0 ep edges (qi_frame x) (st\<lparr>buttons := bs\<rparr>)"
  have step: "output_work_step get st = Some st1"
    using assms(1,2) up by (simp add: output_work_step_def st1_def ep_def)
  show ?thesis
  proof (cases "frame_done fr")
    case True
    then have "concat packets = packet" using send_loop_start [OF part] ps by simp
    with True have "works get (Suc 0) st = Some (st\<lparr>worker := WGet, buttons := bs, reported := reported st @ concat packets\<rparr>)"
      using step part by (simp add: st1_def send_round_def)
    then show ?thesis by blast
  next
    case False
    have st1: "st1 = st\<lparr>buttons := bs, worker := WSend 1 ep fr, reported := reported st @ packet\<rparr>"
      using False part by (simp add: st1_def send_round_def)
    have ps': "concat packets = packet @ concat (send_loop (\<lambda>_. ep) ep 31 1 no_edges fr)"
      using False send_loop_start [OF part] ps by simp
    obtain k where "works get k st1 = Some (st1\<lparr>worker := WGet,
        reported := reported st1 @ concat (send_loop (\<lambda>_. ep) ep 31 1 no_edges fr)\<rparr>)"
      using works_rounds [of st1 1 ep fr get] st1 by (auto simp: ep_def)
    from works_front [OF step this] show ?thesis
      using st1 ps' by (intro exI [of _ "Suc k"]) simp
  qed
qed

end
