(* ===== verification/Mouse_Output_Props.thy ===== *)
theory Mouse_Output_Props
  imports Mouse_Output_Inv
begin

text \<open>
  The properties of the output component, each with a run of the model on the ring buffer of
  the host tests that meets its hypotheses.
\<close>

section \<open>A run\<close>

definition blank_input :: queued_input where
  "blank_input = \<lparr>qi_frame = empty_frame, qi_epoch = 0, qi_buttons = 0\<rparr>"

definition empty_ring :: "queued_input ring" where
  "empty_ring = \<lparr>ring_data = replicate 8 blank_input, ring_head = 0, ring_tail = 0, ring_count = 0\<rparr>"

lemma empty_ring_ok: "ring_inv 8 empty_ring" "ring_contents empty_ring = []"
  by (simp_all add: ring_inv_def empty_ring_def ring_contents_def)

abbreviation ring_trace where
  "ring_trace \<equiv> output_trace k_msgq_put k_msgq_get k_msgq_purge"

abbreviation demo_receive where
  "demo_receive \<equiv> zmk_mouse_output_receive k_msgq_put k_msgq_purge"

definition held :: "queued_input ring out_state" where
  "held = demo_receive (empty_frame\<lparr>fr_x := 40000\<rparr>) 9 (output_init empty_ring)"

lemma held_trace: "ring_trace (output_init empty_ring) [Receive (empty_frame\<lparr>fr_x := 40000\<rparr>) 9] held"
  using output_trace.extend [OF output_trace.start output_step.receive] by (simp add: held_def)

definition held_done :: "queued_input ring out_state" where
  "held_done = the (works k_msgq_get 8 held)"

lemma held_works: "works k_msgq_get 8 held = Some held_done"
proof -
  have "works k_msgq_get 8 held \<noteq> None" by code_simp
  then show ?thesis by (auto simp: held_done_def)
qed

lemma held_done_trace:
  "ring_trace (output_init empty_ring) (Receive (empty_frame\<lparr>fr_x := 40000\<rparr>) 9 # replicate 8 Work) held_done"
  using trace_append [OF held_trace works_trace [OF held_works]] by simp

section \<open>Properties\<close>

text \<open>C11: However the calls of the client, the endpoint events and the steps of the worker interleave, the
  input listener sees each button's presses and releases strictly alternate, a press first, and the
  button is down there exactly when the module's bookkeeping has it forwarded.\<close>

theorem button_reports_alternate:
  assumes "output_trace put get purge (output_init q) ops st" and "n < 5"
  shows "\<exists>k. key_values n (reported st) = map (\<lambda>i. of_bool (even i)) [0 ..< k] \<and>
    (odd k \<longleftrightarrow> bit (forwarded (buttons st)) n)"
  using trace_keys [OF assms(1)] assms(2) by (simp add: keys_ok_def key_log_def)

theorem button_reports_alternate_witness:
  "\<exists>k. key_values 3 (reported held_done) = map (\<lambda>i. of_bool (even i)) [0 ..< k] \<and> odd k"
proof -
  have "bit (forwarded (buttons held_done)) 3" by code_simp
  with button_reports_alternate [OF held_done_trace, of 3] show ?thesis by auto
qed


lemma held_done_state:
  "worker held_done = WIdle" "\<not> output_submitted held_done"
  "forwarded (buttons held_done) = 9" "suppressed (buttons held_done) = 0"
  by code_simp+




text \<open>C1: A disconnection ends cleanly. At any moment, after \<open>zmk_mouse_output_disconnect\<close> the worker on its own
  reports nothing but releases (no motion, no press, no stale frame), and when it comes to rest every
  button is up for the listener and nothing is muted.\<close>

theorem disconnect_releases:
  assumes "input_queue put get purge contents qinv capacity" and "qinv q" and "contents q = []"
    and "output_trace put get purge (output_init q) ops st"
    and "length (filter (\<lambda>oper. oper \<noteq> Work) ops) + 1 < 2 ^ 32"
    and "output_trace put get purge (zmk_mouse_output_disconnect purge st) (replicate k Work) st'"
  shows "(\<exists>rel. reported st' = reported st @ rel \<and> (\<forall>e \<in> set rel. ev_key e \<and> ev_value e = 0)) \<and>
    (worker st' = WIdle \<and> \<not> output_submitted st' \<longrightarrow>
       forwarded (buttons st') = 0 \<and> suppressed (buttons st') = 0 \<and>
       (\<forall>n < 5. even (length (key_values n (reported st')))))"
proof -
  define ops' where "ops' = ops @ [Disconnect]"
  have bound: "length (filter (\<lambda>oper. oper \<noteq> Work) ops) < 2 ^ 32"
    "length (filter (\<lambda>oper. oper \<noteq> Work) ops') < 2 ^ 32"
    "Suc (length (filter (\<lambda>oper. oper \<noteq> Work) ops)) < 2 ^ 32"
    using assms(5) by (simp_all add: ops'_def)
  have tr: "output_trace put get purge (output_init q) ops' (zmk_mouse_output_disconnect purge st)"
    using output_trace.extend [OF assms(4) output_step.disconnect] by (simp add: ops'_def)
  note q = input_queue.trace_queue [OF assms(1,4,2,3)] input_queue.trace_queue [OF assms(1) tr assms(2,3)]
  have "input_queue.stale_hand contents (zmk_mouse_output_disconnect purge st)"
    using q(1) input_queue.trace_tracks [OF assms(1,4,2,3) bound(1)] bound(3)
    by (blast intro: input_queue.disconnect_stale [OF assms(1)])
  note rel = input_queue.stale_works [OF assms(1,6) conjunct1 [OF q(2)] conjunct2 [OF q(2)] this]
  moreover have "reported (zmk_mouse_output_disconnect purge st) = reported st"
    by (simp add: zmk_mouse_output_disconnect_def reset_stream_def Let_def)
  moreover have "forwarded (buttons st') = 0 \<and> suppressed (buttons st') = 0 \<and>
      (\<forall>n < 5. even (length (key_values n (reported st'))))"
    if idle: "worker st' = WIdle" "\<not> output_submitted st'"
  proof -
    have tr': "output_trace put get purge (output_init q) (ops' @ replicate k Work) st'"
      by (rule trace_append [OF tr assms(6)])
    note fin = input_queue.trace_hand [OF assms(1) tr assms(2,3) bound(2) assms(6)]
    have "contents (mouse_inputs st') = []" "\<not> reset_pending st'"
      using fin idle by (auto simp: input_queue.no_lost_wakeup_def [OF assms(1)])
    then have "input_queue.settled st'"
      using fin idle by (simp add: input_queue.tracks_def [OF assms(1)] input_queue.in_hand_def [OF assms(1)])
    moreover have "physical_buttons st' = 0"
      using trace_physical [OF tr'] by (simp add: hand_works) (simp add: hand_def ops'_def)
    ultimately have none: "\<not> bit (forwarded (buttons st')) n" "\<not> bit (suppressed (buttons st')) n" for n
      by (simp_all add: input_queue.settled_def [OF assms(1)])
    then have "forwarded (buttons st') = 0" "suppressed (buttons st') = 0"
      by (auto intro: bit_eqI)
    moreover have "even (length (key_values n (reported st')))" if "n < 5" for n
      using trace_keys [OF tr'] that none unfolding keys_ok_def key_log_def by fastforce
    ultimately show ?thesis by blast
  qed
  ultimately show ?thesis by auto
qed

definition released :: "queued_input ring out_state" where
  "released = the (works k_msgq_get 4 (zmk_mouse_output_disconnect k_msgq_purge held_done))"

theorem disconnect_releases_witness:
  "even (length (key_values 3 (reported released))) \<and> length (reported released) = 6"
proof -
  have "works k_msgq_get 4 (zmk_mouse_output_disconnect k_msgq_purge held_done) \<noteq> None" by code_simp
  then have "works k_msgq_get 4 (zmk_mouse_output_disconnect k_msgq_purge held_done) = Some released"
    by (auto simp: released_def)
  note run = works_trace [OF this]
  have len: "length (filter (\<lambda>oper. oper \<noteq> Work) (Receive (empty_frame\<lparr>fr_x := 40000\<rparr>) 9 # replicate 8 Work)) + 1 < 2 ^ 32"
    by (simp add: filter_replicate)
  have "worker released = WIdle \<and> \<not> output_submitted released" "length (reported released) = 6" by code_simp+
  then show ?thesis
    using disconnect_releases [OF ring_inputs.input_queue_axioms empty_ring_ok held_done_trace len run] by auto
qed

text \<open>C29: The worker always finishes. From any reachable state it can run on its own to rest (idle and not
  submitted), and every run of it alone, whatever the frames, takes at most 36 steps per queued input and 41 more.\<close>

theorem worker_terminates:
  assumes "input_queue put get purge contents qinv capacity" and "qinv q" and "contents q = []"
    and "output_trace put get purge (output_init q) ops st"
    and "length (filter (\<lambda>oper. oper \<noteq> Work) ops) < 2 ^ 32"
  shows "(\<exists>k st'. output_trace put get purge st (replicate k Work) st' \<and>
      worker st' = WIdle \<and> \<not> output_submitted st') \<and>
    (\<forall>k st'. output_trace put get purge st (replicate k Work) st' \<longrightarrow>
      k \<le> 36 * length (contents (mouse_inputs st)) + 41)"
proof -
  define P where "P k \<longleftrightarrow> (\<exists>st'. output_trace put get purge st (replicate k Work) st')" for k
  have left: "input_queue.work_left contents st \<le> 36 * length (contents (mouse_inputs st)) + 41"
    by (auto simp: input_queue.work_left_def [OF assms(1)] split: output_pc.split)
  have bound: "k \<le> 36 * length (contents (mouse_inputs st)) + 41"
    if "output_trace put get purge st (replicate k Work) st'" for k st'
    using input_queue.trace_hand [OF assms(1,4,2,3,5) that] left by linarith
  have "P 0" by (auto simp: P_def intro: output_trace.start)
  then have max: "P (Greatest P)" "\<And>k. P k \<Longrightarrow> k \<le> Greatest P"
    using GreatestI_nat [of P 0] Greatest_le_nat [of P] bound unfolding P_def by blast+
  obtain st' where run: "output_trace put get purge st (replicate (Greatest P) Work) st'"
    using max(1) unfolding P_def by blast
  have "output_work_step get st' = None"
  proof (rule ccontr)
    assume "output_work_step get st' \<noteq> None"
    then obtain st'' where "output_work_step get st' = Some st''" by blast
    from output_trace.extend [OF run output_step.work [OF this]] have "P (Suc (Greatest P))"
      unfolding P_def by (auto simp: replicate_append_same)
    then show False using max(2) by fastforce
  qed
  then have "worker st' = WIdle \<and> \<not> output_submitted st'"
    by (simp add: input_queue.work_progress [OF assms(1)])
  then show ?thesis using run bound by blast
qed

theorem worker_terminates_witness:
  "\<exists>k st'. ring_trace held (replicate k Work) st' \<and> worker st' = WIdle \<and> \<not> output_submitted st'"
proof -
  have "length (filter (\<lambda>oper. oper \<noteq> Work) [Receive (empty_frame\<lparr>fr_x := 40000\<rparr>) 9]) < 2 ^ 32" by simp
  from worker_terminates [OF ring_inputs.input_queue_axioms empty_ring_ok held_trace this] show ?thesis by blast
qed

text \<open>C28: What one frame reports. With the epoch unchanged, the packets of \<open>send_frame\<close> are at most 32 and move each axis
  by exactly the frame's delta, cut off at 32 times the limit of a packet; each changed button is reported
  once and no other. The worker's steps, undisturbed, do exactly this.\<close>

theorem frame_reported:
  assumes "worker st = WCheck x" and "qi_epoch x = stream_epoch st"
    and "send_frame (\<lambda>_. stream_epoch st) x (buttons st) = (packets, bs)"
    and "mouse_buttons_update (buttons st) (qi_buttons x) = (edges, bs')"
  shows "length packets \<le> 32 \<and> bs = bs' \<and>
    axis_total INPUT_REL_X (concat packets) = CLAMP (fr_x (qi_frame x)) (- 1048544) 1048544 \<and>
    axis_total INPUT_REL_Y (concat packets) = CLAMP (fr_y (qi_frame x)) (- 1048544) 1048544 \<and>
    axis_total INPUT_REL_WHEEL (concat packets) = CLAMP (fr_wheel (qi_frame x)) (- 4064) 4064 \<and>
    axis_total INPUT_REL_HWHEEL (concat packets) = CLAMP (fr_pan (qi_frame x)) (- 4064) 4064 \<and>
    (\<forall>n. key_values n (concat packets) =
       (if n < 5 \<and> (bit (press edges) n \<or> bit (release edges) n) then [of_bool (bit (press edges) n)] else [])) \<and>
    (\<exists>k. works get k st = Some (st\<lparr>worker := WGet, buttons := bs, reported := reported st @ concat packets\<rparr>))"
proof -
  have ps: "packets = send_loop (\<lambda>_. qi_epoch x) (qi_epoch x) 32 0 edges (qi_frame x)" "bs = bs'"
    using assms(2-4) by (auto simp: send_frame_def)
  have "moved (qi_frame x) (int 32) (concat packets)" unfolding ps(1) by (rule send_loop_moved)
  moreover have "key_values n (concat packets) =
      (if n < 5 \<and> (bit (press edges) n \<or> bit (release edges) n) then [of_bool (bit (press edges) n)] else [])" for n
  proof -
    obtain packet fr where part: "frame_part edges (qi_frame x) = (packet, fr)" by fastforce
    have "concat packets = packet @ (if frame_done fr then [] else
        concat (send_loop (\<lambda>_. qi_epoch x) (qi_epoch x) 31 (Suc 0) no_edges fr))"
      using send_loop_start [OF part] ps(1) by simp
    then show ?thesis using key_values_part [OF part, of n] by (simp add: key_values_loop)
  qed
  moreover have "length packets \<le> 32" unfolding ps(1) by (rule send_loop_length)
  moreover note works_frame [OF assms(1-3), of get]
  ultimately show ?thesis using ps(2) by (simp add: moved_def)
qed

definition checked :: "queued_input ring out_state" where
  "checked = the (works k_msgq_get 4 held)"

definition demo_input :: queued_input where
  "demo_input = \<lparr>qi_frame = empty_frame\<lparr>fr_x := 40000\<rparr>, qi_epoch = 0, qi_buttons = 9\<rparr>"

theorem frame_reported_witness:
  "axis_total INPUT_REL_X (concat (fst (send_frame (\<lambda>_. 0) demo_input \<lparr>forwarded = 0, suppressed = 0\<rparr>))) = 40000"
proof -
  obtain packets bs where f: "send_frame (\<lambda>_. 0) demo_input \<lparr>forwarded = 0, suppressed = 0\<rparr> = (packets, bs)"
    by fastforce
  obtain edges bs' where u: "mouse_buttons_update \<lparr>forwarded = 0, suppressed = 0\<rparr> 9 = (edges, bs')" by fastforce
  have "worker checked = WCheck demo_input" "stream_epoch checked = 0"
    "buttons checked = \<lparr>forwarded = 0, suppressed = 0\<rparr>" by code_simp+
  moreover have "qi_epoch demo_input = 0" "qi_buttons demo_input = 9" "fr_x (qi_frame demo_input) = 40000"
    by (simp_all add: demo_input_def)
  ultimately have "axis_total INPUT_REL_X (concat packets) = CLAMP 40000 (- 1048544) 1048544"
    using frame_reported [of checked demo_input packets bs edges bs'] f u by simp
  then show ?thesis by (simp add: f CLAMP_def)
qed

text \<open>C38: The shape of a packet. It never exceeds the nine-element array, only its last event carries the sync
  flag, it reports each button whose edge is set once with its new level and no other button, sums to
  the given motion on each axis, and never reports an axis that does not move.\<close>

theorem packet_shape:
  "length (send_packet e x y w p) \<le> 9 \<and>
   (\<forall>i < length (send_packet e x y w p).
      ev_sync (send_packet e x y w p ! i) = (i + 1 = length (send_packet e x y w p))) \<and>
   (\<forall>n. key_values n (send_packet e x y w p) =
      (if n < 5 \<and> (bit (press e) n \<or> bit (release e) n) then [of_bool (bit (press e) n)] else [])) \<and>
   axis_total INPUT_REL_X (send_packet e x y w p) = x \<and> axis_total INPUT_REL_Y (send_packet e x y w p) = y \<and>
   axis_total INPUT_REL_WHEEL (send_packet e x y w p) = w \<and>
   axis_total INPUT_REL_HWHEEL (send_packet e x y w p) = p \<and>
   (\<forall>ev \<in> set (send_packet e x y w p). ev_key ev \<or> ev_value ev \<noteq> 0)"
proof -
  have "ev_key ev \<or> ev_value ev \<noteq> 0" if "ev \<in> set (send_packet e x y w p)" for ev
  proof -
    have "report_of ev \<in> set (packet_events e x y w p)"
      using that unfolding send_packet_reports [symmetric] by simp
    then show ?thesis by (auto simp: packet_events_def report_of_def split: if_splits)
  qed
  then show ?thesis
    using send_packet_sync packet_events_bound key_values_packet axis_total_packet
    by (simp add: send_packet_length)
qed

theorem packet_shape_witness:
  "ev_sync (send_packet \<lparr>press = 8, release = 1\<rparr> 5 0 (- 1) 0 ! 3)"
proof -
  have "length (send_packet \<lparr>press = 8, release = 1\<rparr> 5 0 (- 1) 0) = 4" by code_simp
  then show ?thesis
    using packet_shape [of "\<lparr>press = 8, release = 1\<rparr>" 5 0 "- 1" 0] by simp
qed



end
