(* ===== verification/Mouse_Output_Motion.thy ===== *)
theory Mouse_Output_Motion
  imports Mouse_Output_Props
begin

text \<open>
  The motion that passes through the output: what has been reported and what is still owed for the
  frames received change together, so that between two resets of the stream no motion is lost or made up.
\<close>

section \<open>The motion of a frame\<close>

text \<open>What \<open>n\<close> packets can report of the frame on the axis with the code.\<close>

definition motion :: "nat \<Rightarrow> int \<Rightarrow> mouse_hid_frame \<Rightarrow> int" where
  "motion code n fr =
     (if code = INPUT_REL_X then CLAMP (fr_x fr) (- (32767 * n)) (32767 * n)
      else if code = INPUT_REL_Y then CLAMP (fr_y fr) (- (32767 * n)) (32767 * n)
      else if code = INPUT_REL_WHEEL then CLAMP (fr_wheel fr) (- (127 * n)) (127 * n)
      else if code = INPUT_REL_HWHEEL then CLAMP (fr_pan fr) (- (127 * n)) (127 * n)
      else 0)"

lemma motion_0 [simp]: "motion code 0 fr = 0"
  by (simp add: motion_def CLAMP_def)

lemma motion_done: "frame_done fr \<Longrightarrow> 0 \<le> n \<Longrightarrow> motion code n fr = 0"
  by (simp add: motion_def frame_done_def)

lemma axis_total_other:
  assumes "code \<notin> {INPUT_REL_X, INPUT_REL_Y, INPUT_REL_WHEEL, INPUT_REL_HWHEEL}"
  shows "axis_total code (send_packet e x y w p) = 0"
proof -
  have keys: "sum_list (map (\<lambda>(c, v, k). if \<not> k \<and> c = code then v else (0 :: int))
      (map (\<lambda>i. (INPUT_BTN_0 + i, V i, True)) is)) = 0" for V "is"
    by (induction "is") auto
  then show ?thesis using assms
    unfolding axis_total_def send_packet_reports packet_events_def map_append sum_list_append by simp
qed

lemma axis_total_part:
  assumes "frame_part edges fr = (packet, fr')" and "0 \<le> n"
  shows "axis_total code packet + motion code n fr' = motion code (1 + n) fr"
proof -
  note split = CLAMP_split [of 32767 "32767 * n"] CLAMP_split [of 127 "127 * n"]
  from assms(1) show ?thesis using assms(2) split
    by (auto simp: frame_part_def Let_def motion_def axis_total_packet axis_total_other distrib_left)
qed

lemma axis_total_release: "axis_total code (send_packet e 0 0 0 0) = 0"
  using axis_total_packet [of e 0 0 0 0] axis_total_other by (cases "code \<in> {INPUT_REL_X, INPUT_REL_Y, INPUT_REL_WHEEL, INPUT_REL_HWHEEL}") auto

lemma reset_motion [simp]: "axis_total code (reported (apply_pending_reset st)) = axis_total code (reported st)"
  by (simp add: apply_pending_reset_def axis_total_release Let_def split: prod.split)

lemma round_motion:
  assumes "i < 32"
  shows "axis_total code (reported (send_round i ep edges fr st)) +
      (case worker (send_round i ep edges fr st) of WSend j ep' fr' \<Rightarrow> motion code (32 - int j) fr' | _ \<Rightarrow> 0) =
    axis_total code (reported st) + motion code (32 - int i) fr"
proof -
  obtain packet fr' where part: "frame_part edges fr = (packet, fr')" by fastforce
  have "axis_total code packet + motion code (31 - int i) fr' = motion code (32 - int i) fr"
    using axis_total_part [OF part, of "31 - int i" code] assms by simp
  moreover have "motion code (31 - int i) fr' = 0" if "frame_done fr' \<or> i + 1 = 32"
    using that assms motion_done [of fr' "31 - int i"] by auto
  ultimately show ?thesis using part by (auto simp: send_round_def)
qed

section \<open>What is owed\<close>

definition received :: "nat \<Rightarrow> output_op \<Rightarrow> int" where
  "received code oper = (case oper of Receive fr p \<Rightarrow> motion code 32 fr | _ \<Rightarrow> 0)"

definition in_work :: "nat \<Rightarrow> 'q out_state \<Rightarrow> int" where
  "in_work code st =
     (case worker st of
        WGot x \<Rightarrow> if qi_epoch x = stream_epoch st then motion code 32 (qi_frame x) else 0
      | WCheck x \<Rightarrow> if qi_epoch x = stream_epoch st then motion code 32 (qi_frame x) else 0
      | WSend i ep fr \<Rightarrow> if ep = stream_epoch st then motion code (32 - int i) fr else 0
      | _ \<Rightarrow> 0)"

lemma in_work_cong: "worker st' = worker st \<Longrightarrow> stream_epoch st' = stream_epoch st \<Longrightarrow> in_work code st' = in_work code st"
  by (auto simp: in_work_def split: output_pc.split)

definition rounds_ok :: "'q out_state \<Rightarrow> bool" where
  "rounds_ok st \<longleftrightarrow> (\<forall>i ep fr. worker st = WSend i ep fr \<longrightarrow> 0 < i \<and> i < 32)"

context input_queue
begin

definition owed :: "nat \<Rightarrow> 'q out_state \<Rightarrow> int" where
  "owed code st = sum_list (map (\<lambda>x. motion code 32 (qi_frame x)) (contents (mouse_inputs st))) + in_work code st"

lemma work_motion:
  assumes "fresh_queue st" and "rounds_ok st" and "output_work_step get st = Some st'"
  shows "rounds_ok st' \<and> stream_epoch st' = stream_epoch st \<and>
    axis_total code (reported st') + owed code st' = axis_total code (reported st) + owed code st"
  using assms(1,3)
proof (cases rule: work_cases)
  case (first x edges bs)
  let ?st = "st\<lparr>buttons := bs\<rparr>"
  note next_pc = round_worker [of 0 "qi_epoch x" edges "qi_frame x" ?st]
  have "in_work code st' = (case worker st' of WSend j ep' fr' \<Rightarrow> motion code (32 - int j) fr' | _ \<Rightarrow> 0)"
    using next_pc first by (auto simp: in_work_def)
  moreover have "axis_total code (reported st') + (case worker st' of WSend j ep' fr' \<Rightarrow> motion code (32 - int j) fr' | _ \<Rightarrow> 0) =
      axis_total code (reported st) + motion code 32 (qi_frame x)"
    using round_motion [of 0 code "qi_epoch x" edges "qi_frame x" ?st] first(4) by simp
  moreover have "rounds_ok st'" using next_pc first by (auto simp: rounds_ok_def)
  moreover have "in_work code st = motion code 32 (qi_frame x)" using first by (simp add: in_work_def)
  moreover have "mouse_inputs st' = mouse_inputs st" "stream_epoch st' = stream_epoch st" using first by simp_all
  ultimately show ?thesis by (simp add: owed_def)
next
  case (fetch x q)
  moreover have "qi_epoch x = stream_epoch st" using fetch(2) assms(1) by (simp add: fresh_queue_def)
  ultimately show ?thesis by (simp add: owed_def in_work_def rounds_ok_def)
next
  case (round i ep fr)
  have i: "0 < i" "i < 32" using assms(2) round(1) by (auto simp: rounds_ok_def)
  note next_pc = round_worker [of i ep no_edges fr st]
  have "in_work code st' = (case worker st' of WSend j ep' fr' \<Rightarrow> motion code (32 - int j) fr' | _ \<Rightarrow> 0)"
    using next_pc round i by (auto simp: in_work_def)
  moreover have "axis_total code (reported st') + (case worker st' of WSend j ep' fr' \<Rightarrow> motion code (32 - int j) fr' | _ \<Rightarrow> 0) =
      axis_total code (reported st) + motion code (32 - int i) fr"
    using round_motion [OF i(2), of code ep no_edges fr st] round(3) by simp
  moreover have "rounds_ok st'" using next_pc round(3) i by (auto simp: rounds_ok_def)
  moreover have "in_work code st = motion code (32 - int i) fr" using round i by (simp add: in_work_def)
  moreover have "mouse_inputs st' = mouse_inputs st" "stream_epoch st' = stream_epoch st" using round(3) by simp_all
  ultimately show ?thesis by (simp add: owed_def)
qed (auto simp: owed_def in_work_def rounds_ok_def)

lemma step_motion:
  assumes "output_step put get purge st oper st'" and "fresh_queue st" and "rounds_ok st"
  shows "rounds_ok st' \<and> (stream_epoch st' = stream_epoch st \<and>
      axis_total code (reported st') + owed code st' = axis_total code (reported st) + owed code st + received code oper \<or>
    stream_epoch st' = stream_epoch st + 1 \<and> oper \<noteq> Work)"
  using assms(1)
proof cases
  case (receive fr p)
  from assms(2) receive(2) show ?thesis
  proof (cases rule: receive_cases)
    case (queued q)
    then have "in_work code st' = in_work code st" by (intro in_work_cong) simp_all
    then show ?thesis using queued assms(3) receive(1) by (simp add: rounds_ok_def owed_def received_def)
  next
    case (overflow q)
    then show ?thesis using assms(3) receive(1) by (simp add: rounds_ok_def)
  qed
next
  case disconnect
  then show ?thesis using assms(3) by (simp add: zmk_mouse_output_disconnect_def reset_stream_def rounds_ok_def Let_def)
next
  case (endpoint c)
  then show ?thesis using assms(3)
    by (simp add: endpoint_changed_def reset_stream_def rounds_ok_def received_def Let_def)
next
  case work
  then have "received code oper = 0" by (simp add: received_def)
  then show ?thesis using work_motion [OF assms(2,3) work(2), of code] by (auto simp only: add_0_right)
qed

lemma trace_motion:
  assumes "output_trace put get purge st ops st'" and "fresh_queue st" and "no_lost_wakeup st" and "rounds_ok st"
  shows "fresh_queue st' \<and> no_lost_wakeup st' \<and> rounds_ok st' \<and>
    (\<exists>r \<le> length (filter (\<lambda>oper. oper \<noteq> Work) ops). stream_epoch st' = stream_epoch st + of_nat r \<and>
      (r = 0 \<longrightarrow> axis_total code (reported st') + owed code st' =
         axis_total code (reported st) + owed code st + sum_list (map (received code) ops)))"
  using assms(1)
proof induction
  case start
  then show ?case using assms(2-4) by simp
next
  case (extend ops st1 oper st2)
  then obtain r where r: "r \<le> length (filter (\<lambda>oper. oper \<noteq> Work) ops)" "stream_epoch st1 = stream_epoch st + of_nat r"
    "r = 0 \<longrightarrow> axis_total code (reported st1) + owed code st1 =
       axis_total code (reported st) + owed code st + sum_list (map (received code) ops)" by blast
  have inv: "fresh_queue st1" "no_lost_wakeup st1" "rounds_ok st1" using extend.IH by auto
  from step_motion [OF extend.hyps(2) inv(1,3), of code]
  consider (same) "stream_epoch st2 = stream_epoch st1"
      "axis_total code (reported st2) + owed code st2 = axis_total code (reported st1) + owed code st1 + received code oper"
    | (reset) "stream_epoch st2 = stream_epoch st1 + 1" "oper \<noteq> Work"
    by blast
  then have "\<exists>r \<le> length (filter (\<lambda>oper. oper \<noteq> Work) (ops @ [oper])). stream_epoch st2 = stream_epoch st + of_nat r \<and>
      (r = 0 \<longrightarrow> axis_total code (reported st2) + owed code st2 =
         axis_total code (reported st) + owed code st + sum_list (map (received code) (ops @ [oper])))"
  proof cases
    case same
    then show ?thesis using r by (intro exI [of _ r]) auto
  next
    case reset
    then show ?thesis using r by (intro exI [of _ "Suc r"]) (auto simp: add.assoc)
  qed
  then show ?case using step_queue [OF extend.hyps(2) inv(1,2)] step_motion [OF extend.hyps(2) inv(1,3), of code] by blast
qed

lemma owed_rest: "no_lost_wakeup st \<Longrightarrow> worker st = WIdle \<Longrightarrow> \<not> output_submitted st \<Longrightarrow> owed code st = 0"
  by (auto simp: no_lost_wakeup_def owed_def in_work_def)

end

section \<open>The property\<close>

text \<open>C5: Motion is conserved. Between two moments at which the worker is at rest and between which the stream was not
  reset, the motion reported on each axis is the motion of the frames received in between: nothing is lost,
  reported twice or made up, whatever the interleaving (a frame counts up to the 32 packets it may take).\<close>

theorem motion_conserved:
  assumes "input_queue put get purge contents qinv capacity" and "qinv q" and "contents q = []"
    and "output_trace put get purge (output_init q) past st"
    and "worker st = WIdle" and "\<not> output_submitted st"
    and "output_trace put get purge st ops st'"
    and "length (filter (\<lambda>oper. oper \<noteq> Work) ops) < 2 ^ 32" and "stream_epoch st' = stream_epoch st"
    and "worker st' = WIdle" and "\<not> output_submitted st'"
  shows "axis_total code (reported st') = axis_total code (reported st) + sum_list (map (received code) ops)"
proof -
  note q = input_queue.trace_queue [OF assms(1,4,2,3)]
  have "rounds_ok st" using assms(5) by (simp add: rounds_ok_def)
  from input_queue.trace_motion [OF assms(1,7) conjunct1 [OF q] conjunct2 [OF q] this, of code] obtain r where
    r: "r \<le> length (filter (\<lambda>oper. oper \<noteq> Work) ops)" "stream_epoch st' = stream_epoch st + of_nat r"
    and fin: "input_queue.no_lost_wakeup contents st'"
    and sum: "r = 0 \<longrightarrow> axis_total code (reported st') + input_queue.owed contents code st' =
      axis_total code (reported st) + input_queue.owed contents code st + sum_list (map (received code) ops)"
    by blast
  have "unat (of_nat r :: u32) = r" using r(1) assms(8) by (simp add: unat_of_nat)
  then have "r = 0" using r(2) assms(9) by simp
  then show ?thesis
    using sum input_queue.owed_rest [OF assms(1) fin assms(10,11), of code]
      input_queue.owed_rest [OF assms(1) conjunct2 [OF q] assms(5,6), of code] by simp
qed

theorem motion_conserved_witness: "axis_total INPUT_REL_X (reported held_done) = 40000"
proof -
  have ops: "length (filter (\<lambda>oper. oper \<noteq> Work) (Receive (empty_frame\<lparr>fr_x := 40000\<rparr>) 9 # replicate 8 Work)) < 2 ^ 32"
    by (simp add: filter_replicate)
  have start: "worker (output_init empty_ring) = WIdle" "\<not> output_submitted (output_init empty_ring)"
    "reported (output_init empty_ring) = []" "stream_epoch (output_init empty_ring) = 0"
    by (simp_all add: output_init_def)
  have "stream_epoch held_done = stream_epoch (output_init empty_ring)" unfolding start by code_simp
  from motion_conserved [OF ring_inputs.input_queue_axioms empty_ring_ok output_trace.start start(1,2)
    held_done_trace ops this held_done_state(1,2), of INPUT_REL_X]
  show ?thesis by (simp add: start received_def motion_def CLAMP_def sum_list_replicate)
qed

end
