(* ===== verification/Central_Scan.thy ===== *)
theory Central_Scan
  imports Prelude
begin

text \<open>
  Model of \<open>src/central_scan.c\<close>: the module's work queue and its use of the radio. It scans for
  the mouse only while the client wants it and the split keyboard is completely connected, gives
  the scan up when a connection changes, and passes one connection request at a time to the client.

  Two threads run this code: the module's work queue (\<open>scan_work\<close>, \<open>connect_work\<close>,
  \<open>settle_work\<close>) and the Bluetooth callback \<open>connection_changed\<close>. Each is split at every access
  to a variable that the other one changes, so that all interleavings are steps of the model. The
  scanner of the Bluetooth host is a parameter on a world \<open>'w\<close>; \<open>zmk_ble_mouse_wants_scan\<close>, the
  transports' status and the result of the client's connect function are answers of the
  environment, carried by the step.
\<close>

section \<open>The code\<close>

record transport_status =
  available :: bool
  enabled :: bool
  all_connected :: bool \<comment> \<open>\<open>connections == ..._ALL_CONNECTED\<close>\<close>

text \<open>The loop of \<open>split_ready\<close> over the transports; \<open>en\<close> is the local variable \<open>enabled\<close>.\<close>

fun split_ready_from :: "transport_status list \<Rightarrow> bool \<Rightarrow> bool \<Rightarrow> bool" where
  "split_ready_from [] en settling = (en \<and> \<not> settling)"
| "split_ready_from (t # ts) en settling =
     (if \<not> available t \<or> \<not> enabled t then split_ready_from ts en settling
      else if \<not> all_connected t then False
      else split_ready_from ts True settling)"

definition split_ready :: "transport_status list \<Rightarrow> bool \<Rightarrow> bool" where
  "split_ready transports settling = split_ready_from transports False settling"

text \<open>What follows a call of \<open>stop_own_scan\<close>: lines 65, 82 and 89.\<close>

datatype after_stop = AfterWait bool | AfterRecheck | AfterDial

datatype queue_pc =
    QIdle | QScan | QDecide | QOwned | QStarted | QRecheck
  | QStopTry after_stop | QStopCall after_stop | QDial

datatype rx_pc = RIdle | RTry | RCall

record ('a, 'w) scanner =
  registered :: bool
  initialized :: bool
  connecting :: bool
  scan_owned :: bool
  split_settling :: bool
  pending_address :: "'a option"
  scan_due :: "nat option"
  settle_due :: "nat option"
  connect_submitted :: bool
  queue_pc :: queue_pc
  rx_pc :: rx_pc
  radio :: 'w

text \<open>\<open>zmk_ble_mouse_schedule\<close> on the two delayable items, \<open>zmk_ble_mouse_submit\<close> on \<open>connect_work\<close>.\<close>

definition schedule_scan :: "nat \<Rightarrow> ('a, 'w) scanner \<Rightarrow> ('a, 'w) scanner" where
  "schedule_scan ms st = (if initialized st then st\<lparr>scan_due := Some ms\<rparr> else st)"

definition schedule_settle :: "nat \<Rightarrow> ('a, 'w) scanner \<Rightarrow> ('a, 'w) scanner" where
  "schedule_settle ms st = (if initialized st then st\<lparr>settle_due := Some ms\<rparr> else st)"

definition submit_connect :: "('a, 'w) scanner \<Rightarrow> ('a, 'w) scanner" where
  "submit_connect st = (if initialized st then st\<lparr>connect_submitted := True\<rparr> else st)"

definition zmk_ble_central_scan_refresh :: "('a, 'w) scanner \<Rightarrow> ('a, 'w) scanner" where
  "zmk_ble_central_scan_refresh = schedule_scan 0"

definition zmk_ble_central_connection_complete :: "('a, 'w) scanner \<Rightarrow> ('a, 'w) scanner" where
  "zmk_ble_central_connection_complete = zmk_ble_central_scan_refresh"

text \<open>
  \<open>stop_own_scan\<close> in two steps: the compare-and-swap, whose success (\<open>True\<close>) leads to the call of
  \<open>bt_le_scan_stop\<close>; the call, which gives the ownership back when it fails.
\<close>

definition stop_try :: "('a, 'w) scanner \<Rightarrow> bool \<times> ('a, 'w) scanner" where
  "stop_try st = (if scan_owned st then (True, st\<lparr>scan_owned := False\<rparr>) else (False, st))"

definition stop_call :: "('w \<Rightarrow> cret \<times> 'w) \<Rightarrow> ('a, 'w) scanner \<Rightarrow> cret \<times> ('a, 'w) scanner" where
  "stop_call stop st =
     (let (err, w) = stop (radio st); st = st\<lparr>radio := w\<rparr>
      in if err \<noteq> ok \<and> err \<noteq> Err EALREADY then (err, st\<lparr>scan_owned := True\<rparr>) else (ok, st))"

text \<open>The code after \<open>stop_own_scan\<close> returned \<open>err\<close>, up to the end of the handler or the call of the client.\<close>

definition stop_returned :: "after_stop \<Rightarrow> cret \<Rightarrow> ('a, 'w) scanner \<Rightarrow> ('a, 'w) scanner" where
  "stop_returned k err st =
     (case k of
        AfterWait needed \<Rightarrow> (if needed then schedule_scan 1000 st else st)\<lparr>queue_pc := QIdle\<rparr>
      | AfterRecheck \<Rightarrow> (schedule_scan 1000 st)\<lparr>queue_pc := QIdle\<rparr>
      | AfterDial \<Rightarrow>
          if err = ok then st\<lparr>queue_pc := QDial\<rparr>
          else (schedule_scan 1000 (st\<lparr>connecting := False\<rparr>))\<lparr>queue_pc := QIdle\<rparr>)"

text \<open>
  The next step of the running work item: \<open>needed\<close> and \<open>transports\<close> are what \<open>wants_scan\<close> and
  \<open>get_status\<close> answer, \<open>dial\<close> is the result of \<open>pending_connect\<close>.
\<close>

definition queue_step :: "('w \<Rightarrow> cret \<times> 'w) \<Rightarrow> ('w \<Rightarrow> cret \<times> 'w) \<Rightarrow> bool \<Rightarrow> transport_status list \<Rightarrow> cret \<Rightarrow>
    ('a, 'w) scanner \<Rightarrow> ('a, 'w) scanner option" where
  "queue_step start stop needed transports dial st =
     (case queue_pc st of
        QIdle \<Rightarrow> None
      | QScan \<Rightarrow> Some (st\<lparr>queue_pc := (if connecting st then QIdle else QDecide)\<rparr>)
      | QDecide \<Rightarrow>
          Some (if \<not> needed \<or> \<not> split_ready transports (split_settling st)
                then st\<lparr>queue_pc := QStopTry (AfterWait needed)\<rparr> else st\<lparr>queue_pc := QOwned\<rparr>)
      | QOwned \<Rightarrow>
          Some (if scan_owned st then st\<lparr>queue_pc := QIdle\<rparr>
                else
                  let (err, w) = start (radio st); st = st\<lparr>radio := w\<rparr>
                  in if err \<noteq> ok then (schedule_scan 1000 st)\<lparr>queue_pc := QIdle\<rparr>
                     else st\<lparr>queue_pc := QStarted\<rparr>)
      | QStarted \<Rightarrow> Some (st\<lparr>scan_owned := True, queue_pc := QRecheck\<rparr>)
      | QRecheck \<Rightarrow>
          Some (if \<not> split_ready transports (split_settling st)
                then st\<lparr>queue_pc := QStopTry AfterRecheck\<rparr> else st\<lparr>queue_pc := QIdle\<rparr>)
      | QStopTry k \<Rightarrow>
          (let (got, st) = stop_try st
           in Some (if got then st\<lparr>queue_pc := QStopCall k\<rparr> else stop_returned k ok st))
      | QStopCall k \<Rightarrow> (let (err, st) = stop_call stop st in Some (stop_returned k err st))
      | QDial \<Rightarrow>
          (let st = st\<lparr>connecting := False\<rparr>
           in Some ((if dial \<noteq> ok then schedule_scan 1000 st else st)\<lparr>queue_pc := QIdle\<rparr>)))"

text \<open>The queue takes up a due item: \<open>scan_work\<close>, \<open>connect_work\<close>, or \<open>settle_work\<close> (which is one step).\<close>

definition take_scan :: "('a, 'w) scanner \<Rightarrow> ('a, 'w) scanner option" where
  "take_scan st =
     (if queue_pc st = QIdle \<and> scan_due st \<noteq> None
      then Some (st\<lparr>scan_due := None, queue_pc := QScan\<rparr>) else None)"

definition take_connect :: "('a, 'w) scanner \<Rightarrow> ('a, 'w) scanner option" where
  "take_connect st =
     (if queue_pc st = QIdle \<and> connect_submitted st
      then Some (st\<lparr>connect_submitted := False, queue_pc := QStopTry AfterDial\<rparr>) else None)"

definition settle_work_cb :: "('a, 'w) scanner \<Rightarrow> ('a, 'w) scanner" where
  "settle_work_cb st = zmk_ble_central_scan_refresh (st\<lparr>split_settling := False\<rparr>)"

definition take_settle :: "('a, 'w) scanner \<Rightarrow> ('a, 'w) scanner option" where
  "take_settle st =
     (if queue_pc st = QIdle \<and> settle_due st \<noteq> None
      then Some (settle_work_cb (st\<lparr>settle_due := None\<rparr>)) else None)"

text \<open>\<open>connection_changed\<close>: entry, the two steps of \<open>stop_own_scan\<close>, and the end.\<close>

definition connection_changed :: "('a, 'w) scanner \<Rightarrow> ('a, 'w) scanner option" where
  "connection_changed st =
     (if registered st \<and> rx_pc st = RIdle then Some (st\<lparr>split_settling := True, rx_pc := RTry\<rparr>) else None)"

definition rx_step :: "('w \<Rightarrow> cret \<times> 'w) \<Rightarrow> ('a, 'w) scanner \<Rightarrow> ('a, 'w) scanner option" where
  "rx_step stop st =
     (case rx_pc st of
        RIdle \<Rightarrow> None
      | RTry \<Rightarrow>
          (let (got, st) = stop_try st
           in Some (if got then st\<lparr>rx_pc := RCall\<rparr> else (schedule_settle 1000 st)\<lparr>rx_pc := RIdle\<rparr>))
      | RCall \<Rightarrow> Some ((schedule_settle 1000 (snd (stop_call stop st)))\<lparr>rx_pc := RIdle\<rparr>))"

definition zmk_ble_central_connect :: "'a \<Rightarrow> ('a, 'w) scanner \<Rightarrow> cret \<times> ('a, 'w) scanner" where
  "zmk_ble_central_connect addr st =
     (if \<not> initialized st \<or> connecting st then (Err EBUSY, st)
      else (ok, submit_connect (st\<lparr>connecting := True, pending_address := Some addr\<rparr>)))"

text \<open>\<open>zmk_ble_central_scan_init\<close>: the callbacks are registered before the flag is set.\<close>

definition scan_init_register :: "('a, 'w) scanner \<Rightarrow> ('a, 'w) scanner" where
  "scan_init_register st = (if initialized st then st else st\<lparr>registered := True\<rparr>)"

definition scan_init_finish :: "('a, 'w) scanner \<Rightarrow> ('a, 'w) scanner" where
  "scan_init_finish st = (if registered st then st\<lparr>initialized := True\<rparr> else st)"

definition scan_boot :: "'w \<Rightarrow> ('a, 'w) scanner" where
  "scan_boot w = \<lparr>registered = False, initialized = False, connecting = False, scan_owned = False,
     split_settling = False, pending_address = None, scan_due = None, settle_due = None,
     connect_submitted = False, queue_pc = QIdle, rx_pc = RIdle, radio = w\<rparr>"

definition zmk_ble_central_scan_init :: "('a, 'w) scanner \<Rightarrow> ('a, 'w) scanner" where
  "zmk_ble_central_scan_init st = scan_init_finish (scan_init_register st)"

section \<open>Interleavings\<close>

datatype 'a scan_op =
    ScanWork | ConnectWork | SettleWork | QueueStep bool "transport_status list" cret
  | ConnectionChanged | RxStep | ConnectRequest 'a | Refresh | ConnectionComplete | InitRegister | InitFinish | Environment

inductive scan_step ::
    "('w \<Rightarrow> cret \<times> 'w) \<Rightarrow> ('w \<Rightarrow> cret \<times> 'w) \<Rightarrow> ('w \<Rightarrow> 'w \<Rightarrow> bool) \<Rightarrow>
     ('a, 'w) scanner \<Rightarrow> 'a scan_op \<Rightarrow> ('a, 'w) scanner \<Rightarrow> bool"
  for start :: "'w \<Rightarrow> cret \<times> 'w" and stop :: "'w \<Rightarrow> cret \<times> 'w" and env :: "'w \<Rightarrow> 'w \<Rightarrow> bool" where
  scan_work: "take_scan st = Some st' \<Longrightarrow> scan_step start stop env st ScanWork st'"
| connect_work: "take_connect st = Some st' \<Longrightarrow> scan_step start stop env st ConnectWork st'"
| settle_work: "take_settle st = Some st' \<Longrightarrow> scan_step start stop env st SettleWork st'"
| queue: "queue_step start stop needed ts dial st = Some st' \<Longrightarrow>
    scan_step start stop env st (QueueStep needed ts dial) st'"
| changed: "connection_changed st = Some st' \<Longrightarrow> scan_step start stop env st ConnectionChanged st'"
| rx: "rx_step stop st = Some st' \<Longrightarrow> scan_step start stop env st RxStep st'"
| connect: "zmk_ble_central_connect a st = (e, st') \<Longrightarrow> scan_step start stop env st (ConnectRequest a) st'"
| refresh: "scan_step start stop env st Refresh (zmk_ble_central_scan_refresh st)"
| complete: "scan_step start stop env st ConnectionComplete (zmk_ble_central_connection_complete st)"
| init_register: "scan_step start stop env st InitRegister (scan_init_register st)"
| init_finish: "scan_step start stop env st InitFinish (scan_init_finish st)"
| environment: "env (radio st) w \<Longrightarrow> scan_step start stop env st Environment (st\<lparr>radio := w\<rparr>)"

inductive_cases scan_stepE: "scan_step start stop env st oper st'"

inductive scan_trace ::
    "('w \<Rightarrow> cret \<times> 'w) \<Rightarrow> ('w \<Rightarrow> cret \<times> 'w) \<Rightarrow> ('w \<Rightarrow> 'w \<Rightarrow> bool) \<Rightarrow>
     ('a, 'w) scanner \<Rightarrow> 'a scan_op list \<Rightarrow> ('a, 'w) scanner \<Rightarrow> bool"
  for start :: "'w \<Rightarrow> cret \<times> 'w" and stop :: "'w \<Rightarrow> cret \<times> 'w" and env :: "'w \<Rightarrow> 'w \<Rightarrow> bool"
    and st :: "('a, 'w) scanner" where
  here: "scan_trace start stop env st [] st"
| more: "scan_trace start stop env st ops st1 \<Longrightarrow> scan_step start stop env st1 oper st2 \<Longrightarrow>
    scan_trace start stop env st (ops @ [oper]) st2"

section \<open>Reading the steps\<close>

lemma schedule_scan_simps [simp]:
  "registered (schedule_scan ms st) = registered st" "initialized (schedule_scan ms st) = initialized st"
  "connecting (schedule_scan ms st) = connecting st" "scan_owned (schedule_scan ms st) = scan_owned st"
  "split_settling (schedule_scan ms st) = split_settling st"
  "pending_address (schedule_scan ms st) = pending_address st"
  "scan_due (schedule_scan ms st) = (if initialized st then Some ms else scan_due st)"
  "settle_due (schedule_scan ms st) = settle_due st"
  "connect_submitted (schedule_scan ms st) = connect_submitted st"
  "queue_pc (schedule_scan ms st) = queue_pc st" "rx_pc (schedule_scan ms st) = rx_pc st"
  "radio (schedule_scan ms st) = radio st"
  by (simp_all add: schedule_scan_def)

lemma schedule_settle_simps [simp]:
  "registered (schedule_settle ms st) = registered st" "initialized (schedule_settle ms st) = initialized st"
  "connecting (schedule_settle ms st) = connecting st" "scan_owned (schedule_settle ms st) = scan_owned st"
  "split_settling (schedule_settle ms st) = split_settling st"
  "pending_address (schedule_settle ms st) = pending_address st"
  "scan_due (schedule_settle ms st) = scan_due st"
  "settle_due (schedule_settle ms st) = (if initialized st then Some ms else settle_due st)"
  "connect_submitted (schedule_settle ms st) = connect_submitted st"
  "queue_pc (schedule_settle ms st) = queue_pc st" "rx_pc (schedule_settle ms st) = rx_pc st"
  "radio (schedule_settle ms st) = radio st"
  by (simp_all add: schedule_settle_def)

lemma stop_returned_simps [simp]:
  "stop_returned (AfterWait needed) e st = (if needed then schedule_scan 1000 st else st)\<lparr>queue_pc := QIdle\<rparr>"
  "stop_returned AfterRecheck e st = (schedule_scan 1000 st)\<lparr>queue_pc := QIdle\<rparr>"
  "stop_returned AfterDial e st =
     (if e = ok then st\<lparr>queue_pc := QDial\<rparr>
      else (schedule_scan 1000 (st\<lparr>connecting := False\<rparr>))\<lparr>queue_pc := QIdle\<rparr>)"
  by (simp_all add: stop_returned_def)

lemma stop_call_shape:
  assumes "stop_call stop st = (e, st')"
  obtains r w where "stop (radio st) = (r, w)" and "e = (if r = Err EALREADY then ok else r)"
    and "st' = st\<lparr>radio := w, scan_owned := (e \<noteq> ok \<or> scan_owned st)\<rparr>"
proof -
  obtain r w where "stop (radio st) = (r, w)" by fastforce
  then show thesis using assms that [of r w] by (auto simp: stop_call_def Let_def split: if_splits)
qed

lemma queue_cases:
  assumes "queue_step start stop needed ts dial st = Some st'"
  obtains (busy) "queue_pc st = QScan" "connecting st" "st' = st\<lparr>queue_pc := QIdle\<rparr>"
    | (decide) "queue_pc st = QScan" "\<not> connecting st" "st' = st\<lparr>queue_pc := QDecide\<rparr>"
    | (wait) "queue_pc st = QDecide" "\<not> needed \<or> \<not> split_ready ts (split_settling st)"
        "st' = st\<lparr>queue_pc := QStopTry (AfterWait needed)\<rparr>"
    | (go) "queue_pc st = QDecide" "needed" "split_ready ts (split_settling st)" "st' = st\<lparr>queue_pc := QOwned\<rparr>"
    | (already) "queue_pc st = QOwned" "scan_owned st" "st' = st\<lparr>queue_pc := QIdle\<rparr>"
    | (refused) e w where "queue_pc st = QOwned" "\<not> scan_owned st" "start (radio st) = (e, w)" "e \<noteq> ok"
        "st' = (schedule_scan 1000 (st\<lparr>radio := w\<rparr>))\<lparr>queue_pc := QIdle\<rparr>"
    | (started) w where "queue_pc st = QOwned" "\<not> scan_owned st" "start (radio st) = (ok, w)"
        "st' = st\<lparr>radio := w, queue_pc := QStarted\<rparr>"
    | (own) "queue_pc st = QStarted" "st' = st\<lparr>scan_owned := True, queue_pc := QRecheck\<rparr>"
    | (recheck) "queue_pc st = QRecheck" "\<not> split_ready ts (split_settling st)"
        "st' = st\<lparr>queue_pc := QStopTry AfterRecheck\<rparr>"
    | (keep) "queue_pc st = QRecheck" "split_ready ts (split_settling st)" "st' = st\<lparr>queue_pc := QIdle\<rparr>"
    | (grab) k where "queue_pc st = QStopTry k" "scan_owned st"
        "st' = st\<lparr>scan_owned := False, queue_pc := QStopCall k\<rparr>"
    | (missing) k where "queue_pc st = QStopTry k" "\<not> scan_owned st" "st' = stop_returned k ok st"
    | (call) k e st1 where "queue_pc st = QStopCall k" "stop_call stop st = (e, st1)" "st' = stop_returned k e st1"
    | (dialled) "queue_pc st = QDial" "dial = ok" "st' = st\<lparr>connecting := False, queue_pc := QIdle\<rparr>"
    | (failed) "queue_pc st = QDial" "dial \<noteq> ok"
        "st' = (schedule_scan 1000 (st\<lparr>connecting := False\<rparr>))\<lparr>queue_pc := QIdle\<rparr>"
proof (cases "queue_pc st")
  case QOwned
  then show thesis using assms already refused started
    by (cases "start (radio st)") (auto simp: queue_step_def Let_def split: if_splits)
next
  case (QStopCall k)
  then show thesis using assms call by (cases "stop_call stop st") (simp add: queue_step_def)
next
  case QIdle
  then show thesis using assms by (simp add: queue_step_def)
next
  case QScan
  then show thesis using assms busy decide by (simp add: queue_step_def split: if_splits)
next
  case QDecide
  then show thesis using assms wait go by (auto simp: queue_step_def split: if_splits)
next
  case QStarted
  then show thesis using assms own by (simp add: queue_step_def)
next
  case QRecheck
  then show thesis using assms recheck keep by (simp add: queue_step_def split: if_splits)
next
  case (QStopTry k)
  show thesis
  proof (cases "scan_owned st")
    case True
    then show thesis using assms QStopTry grab by (simp add: queue_step_def stop_try_def)
  next
    case False
    then have "st' = stop_returned k ok st" using assms QStopTry by (simp add: queue_step_def stop_try_def)
    then show thesis using missing QStopTry False by blast
  qed
next
  case QDial
  then show thesis using assms dialled failed by (cases "dial = ok") (auto simp: queue_step_def Let_def)
qed

lemma rx_cases:
  assumes "rx_step stop st = Some st'"
  obtains (grab) "rx_pc st = RTry" "scan_owned st" "st' = st\<lparr>scan_owned := False, rx_pc := RCall\<rparr>"
    | (missing) "rx_pc st = RTry" "\<not> scan_owned st" "st' = (schedule_settle 1000 st)\<lparr>rx_pc := RIdle\<rparr>"
    | (call) e st1 where "rx_pc st = RCall" "stop_call stop st = (e, st1)"
        "st' = (schedule_settle 1000 st1)\<lparr>rx_pc := RIdle\<rparr>"
proof (cases "rx_pc st")
  case RCall
  then show thesis using assms call by (cases "stop_call stop st") (simp add: rx_step_def)
next
  case RIdle
  then show thesis using assms by (simp add: rx_step_def)
next
  case RTry
  show thesis
  proof (cases "scan_owned st")
    case True
    then show thesis using assms RTry grab by (simp add: rx_step_def stop_try_def)
  next
    case False
    then have "st' = (schedule_settle 1000 st)\<lparr>rx_pc := RIdle\<rparr>"
      using assms RTry by (simp add: rx_step_def stop_try_def)
    then show thesis using missing RTry False by blast
  qed
qed

text \<open>All other steps.\<close>

lemmas simple_steps = take_scan_def take_connect_def take_settle_def settle_work_cb_def
  connection_changed_def zmk_ble_central_connect_def zmk_ble_central_scan_refresh_def
  zmk_ble_central_connection_complete_def scan_init_register_def scan_init_finish_def submit_connect_def

section \<open>The scanner of the host\<close>

text \<open>
  Who owns the running scan is the host's knowledge. The module relies on the documented results of
  start and stop, and on nobody else starting or stopping a scan in its name (\<open>env\<close>).
\<close>

datatype scan_owner = OUR_SCAN | OTHER_SCAN

locale scanner_host =
  fixes start :: "'w \<Rightarrow> cret \<times> 'w" and stop :: "'w \<Rightarrow> cret \<times> 'w"
    and env :: "'w \<Rightarrow> 'w \<Rightarrow> bool" and owner :: "'w \<Rightarrow> scan_owner option"
  assumes start_ok: "start w = (ok, w') \<Longrightarrow> owner w = None \<and> owner w' = Some OUR_SCAN"
    and start_fails: "start w = (e, w') \<Longrightarrow> e \<noteq> ok \<Longrightarrow> owner w' = owner w"
    and stop_ok: "stop w = (ok, w') \<Longrightarrow> owner w' = None"
    and stop_idle: "stop w = (Err EALREADY, w') \<Longrightarrow> owner w = None \<and> owner w' = None"
    and stop_fails: "stop w = (e, w') \<Longrightarrow> e \<noteq> ok \<Longrightarrow> e \<noteq> Err EALREADY \<Longrightarrow> owner w' = owner w"
    and others: "env w w' \<Longrightarrow> owner w = Some OUR_SCAN \<longleftrightarrow> owner w' = Some OUR_SCAN"
begin

text \<open>
  The running scan of the module has exactly one holder: the flag, the worker that just started it
  or is about to stop it, or the callback about to stop it.
\<close>

definition queue_holds :: "queue_pc \<Rightarrow> bool" where
  "queue_holds pc = (case pc of QStarted \<Rightarrow> True | QStopCall _ \<Rightarrow> True | _ \<Rightarrow> False)"

lemma queue_holds_simps [simp]:
  "queue_holds QStarted" "queue_holds (QStopCall k)" "\<not> queue_holds QIdle" "\<not> queue_holds QScan"
  "\<not> queue_holds QDecide" "\<not> queue_holds QOwned" "\<not> queue_holds QRecheck" "\<not> queue_holds (QStopTry k)"
  "\<not> queue_holds QDial"
  by (simp_all add: queue_holds_def)

definition one_holder :: "('a, 'w) scanner \<Rightarrow> bool" where
  "one_holder st \<longleftrightarrow>
     (owner (radio st) = Some OUR_SCAN \<longleftrightarrow> scan_owned st \<or> queue_holds (queue_pc st) \<or> rx_pc st = RCall) \<and>
     \<not> (scan_owned st \<and> queue_holds (queue_pc st)) \<and> \<not> (scan_owned st \<and> rx_pc st = RCall) \<and>
     \<not> (queue_holds (queue_pc st) \<and> rx_pc st = RCall)"

lemma one_holder_queue:
  assumes "one_holder st" and "queue_step start stop needed ts dial st = Some st'"
  shows "one_holder st'"
  using assms(2)
proof (cases rule: queue_cases)
  case (refused e w)
  then show ?thesis using assms(1) start_fails by (auto simp: one_holder_def)
next
  case (started w)
  then show ?thesis using assms(1) start_ok [of "radio st" w] by (auto simp: one_holder_def)
next
  case (missing k)
  then show ?thesis using assms(1) by (cases k) (auto simp: one_holder_def)
next
  case (call k e st1)
  from call(2) obtain r w where r: "stop (radio st) = (r, w)" "e = (if r = Err EALREADY then ok else r)"
    "st1 = st\<lparr>radio := w, scan_owned := (e \<noteq> ok \<or> scan_owned st)\<rparr>" by (rule stop_call_shape)
  have "owner w = (if e = ok then None else Some OUR_SCAN)"
    using r(1,2) call(1) assms(1) stop_ok [of "radio st" w] stop_idle [of "radio st" w] stop_fails [OF r(1)]
    by (auto simp: one_holder_def)
  then show ?thesis using assms(1) call(1,3) r(3)
    by (cases k) (auto simp: one_holder_def)
qed (use assms(1) in \<open>auto simp: one_holder_def\<close>)

lemma one_holder_rx:
  assumes "one_holder st" and "rx_step stop st = Some st'"
  shows "one_holder st'"
  using assms(2)
proof (cases rule: rx_cases)
  case (call e st1)
  from call(2) obtain r w where r: "stop (radio st) = (r, w)" "e = (if r = Err EALREADY then ok else r)"
    "st1 = st\<lparr>radio := w, scan_owned := (e \<noteq> ok \<or> scan_owned st)\<rparr>" by (rule stop_call_shape)
  have "owner w = (if e = ok then None else Some OUR_SCAN)"
    using r(1,2) call(1) assms(1) stop_ok [of "radio st" w] stop_idle [of "radio st" w] stop_fails [OF r(1)]
    by (auto simp: one_holder_def)
  then show ?thesis using assms(1) call(1,3) r(3) by (auto simp: one_holder_def)
qed (use assms(1) in \<open>auto simp: one_holder_def\<close>)

lemma one_holder_step:
  assumes "scan_step start stop env st oper st'" and "one_holder st"
  shows "one_holder st'"
  using assms(1)
proof cases
  case queue
  then show ?thesis using one_holder_queue assms(2) by blast
next
  case rx
  then show ?thesis using one_holder_rx assms(2) by blast
next
  case (environment w)
  then show ?thesis using others assms(2) by (simp add: one_holder_def)
qed (use assms(2) in \<open>auto simp: one_holder_def simple_steps split: if_splits\<close>)

lemma one_holder_trace:
  "scan_trace start stop env st ops st' \<Longrightarrow> one_holder st \<Longrightarrow> one_holder st'"
  by (induction rule: scan_trace.induct) (auto intro: one_holder_step)

lemma one_holder_boot: "owner w \<noteq> Some OUR_SCAN \<Longrightarrow> one_holder (scan_boot w)"
  by (simp add: one_holder_def scan_boot_def)

text \<open>Another owner's scan survives every step that is not the other owner's.\<close>

lemma spares_others:
  assumes "scan_step start stop env st oper st'" and "one_holder st" and "oper \<noteq> Environment"
    and "owner (radio st) = Some OTHER_SCAN"
  shows "owner (radio st') = Some OTHER_SCAN"
proof -
  have free: "\<not> scan_owned st" "rx_pc st \<noteq> RCall" "queue_pc st \<noteq> QStarted" "\<And>k. queue_pc st \<noteq> QStopCall k"
    using assms(2,4) by (auto simp: one_holder_def)
  show ?thesis
    using assms(1)
  proof cases
    case (queue needed ts dial)
    from queue(2) show ?thesis
    proof (cases rule: queue_cases)
      case (refused e w)
      then show ?thesis using start_fails assms(4) by simp
    next
      case (started w)
      then show ?thesis using start_ok [of "radio st" w] assms(4) by simp
    next
      case (missing k)
      then show ?thesis using assms(4) by (cases k) auto
    qed (use free assms(4) in auto)
  next
    case rx
    from rx(2) show ?thesis by (cases rule: rx_cases) (use free assms(4) in auto)
  qed (use assms(3,4) in \<open>auto simp: simple_steps split: if_splits\<close>)
qed

end

section \<open>Requests, settling and persistence\<close>

fun dialling :: "queue_pc \<Rightarrow> bool" where
  "dialling (QStopTry k) = (k = AfterDial)"
| "dialling (QStopCall k) = (k = AfterDial)"
| "dialling QDial = True"
| "dialling _ = False"

text \<open>\<open>connecting\<close> is set exactly while the request is queued or being carried out.\<close>

definition request_inv :: "('a, 'w) scanner \<Rightarrow> bool" where
  "request_inv st \<longleftrightarrow> (connecting st \<longleftrightarrow> connect_submitted st \<or> dialling (queue_pc st)) \<and>
     \<not> (connect_submitted st \<and> dialling (queue_pc st)) \<and> (connecting st \<longrightarrow> pending_address st \<noteq> None)"

lemma queue_request:
  assumes "queue_step start stop needed ts dial st = Some st'" and "request_inv st"
  shows "request_inv st'" and "pending_address st' = pending_address st"
    and "connecting st \<Longrightarrow> connecting st' \<or> dialling (queue_pc st)"
proof -
  have "request_inv st' \<and> pending_address st' = pending_address st \<and>
      (connecting st \<longrightarrow> connecting st' \<or> dialling (queue_pc st))"
    using assms(1)
  proof (cases rule: queue_cases)
    case (missing k)
    then show ?thesis using assms(2) by (cases k) (auto simp: request_inv_def)
  next
    case (call k e st1)
    from call(2) obtain r w where "st1 = st\<lparr>radio := w, scan_owned := (e \<noteq> ok \<or> scan_owned st)\<rparr>"
      by (rule stop_call_shape)
    then show ?thesis using assms(2) call(1,3) by (cases k) (auto simp: request_inv_def)
  qed (use assms(2) in \<open>auto simp: request_inv_def\<close>)
  then show "request_inv st'" "pending_address st' = pending_address st"
    "connecting st \<Longrightarrow> connecting st' \<or> dialling (queue_pc st)" by auto
qed

lemma rx_frame:
  assumes "rx_step stop st = Some st'"
  shows "connecting st' = connecting st" "connect_submitted st' = connect_submitted st"
    "queue_pc st' = queue_pc st" "pending_address st' = pending_address st" "initialized st' = initialized st"
    "scan_due st' = scan_due st" "split_settling st' = split_settling st"
proof -
  have "connecting st' = connecting st \<and> connect_submitted st' = connect_submitted st \<and>
      queue_pc st' = queue_pc st \<and> pending_address st' = pending_address st \<and>
      initialized st' = initialized st \<and> scan_due st' = scan_due st \<and> split_settling st' = split_settling st"
    using assms by (cases rule: rx_cases) (auto elim: stop_call_shape)
  then show "connecting st' = connecting st" "connect_submitted st' = connect_submitted st"
    "queue_pc st' = queue_pc st" "pending_address st' = pending_address st" "initialized st' = initialized st"
    "scan_due st' = scan_due st" "split_settling st' = split_settling st" by auto
qed

lemma request_inv_step:
  assumes "scan_step start stop env st oper st'" and "request_inv st"
  shows "request_inv st' \<and>
    (connecting st \<longrightarrow> pending_address st' = pending_address st \<and> (connecting st' \<or> dialling (queue_pc st)))"
  using assms(1)
proof cases
  case queue
  then show ?thesis using queue_request [OF queue(2) assms(2)] by blast
next
  case rx
  then show ?thesis using rx_frame [OF rx(2)] assms(2) by (simp add: request_inv_def)
qed (use assms(2) in \<open>auto simp: request_inv_def simple_steps split: if_splits\<close>)

lemma request_inv_trace:
  "scan_trace start stop env st ops st' \<Longrightarrow> request_inv st \<Longrightarrow> request_inv st'"
  by (induction rule: scan_trace.induct) (auto dest: request_inv_step)

text \<open>With a scanner that can always be stopped, no scan outlives the start of a settling period.\<close>

definition stop_never_fails :: "('w \<Rightarrow> cret \<times> 'w) \<Rightarrow> bool" where
  "stop_never_fails stop \<longleftrightarrow> (\<forall>w. fst (stop w) = ok \<or> fst (stop w) = Err EALREADY)"

definition about_to_stop :: "queue_pc \<Rightarrow> bool" where
  "about_to_stop pc = (case pc of QRecheck \<Rightarrow> True | QStopTry _ \<Rightarrow> True | _ \<Rightarrow> False)"

definition settle_inv :: "('a, 'w) scanner \<Rightarrow> bool" where
  "settle_inv st \<longleftrightarrow>
     (split_settling st \<and> scan_owned st \<longrightarrow> about_to_stop (queue_pc st) \<or> rx_pc st = RTry)"

lemma split_ready_settling [simp]: "\<not> split_ready ts True"
proof -
  have "\<not> split_ready_from ts en True" for en by (induction ts arbitrary: en) auto
  then show ?thesis by (simp add: split_ready_def)
qed

lemma stop_call_ok:
  assumes "stop_never_fails stop" and "stop_call stop st = (e, st')"
  shows "e = ok \<and> (\<exists>w. st' = st\<lparr>radio := w\<rparr>)"
proof -
  from assms(2) obtain r w where r: "stop (radio st) = (r, w)" "e = (if r = Err EALREADY then ok else r)"
    "st' = st\<lparr>radio := w, scan_owned := (e \<noteq> ok \<or> scan_owned st)\<rparr>" by (rule stop_call_shape)
  have "r = ok \<or> r = Err EALREADY" using assms(1) r(1) by (metis fst_conv stop_never_fails_def)
  then show ?thesis using r(2,3) by auto
qed

lemma settle_inv_step:
  assumes "stop_never_fails stop" and "scan_step start stop env st oper st'" and "settle_inv st"
  shows "settle_inv st'"
  using assms(2)
proof cases
  case (queue needed ts dial)
  from queue(2) show ?thesis
  proof (cases rule: queue_cases)
    case (missing k)
    then show ?thesis using assms(3) by (cases k) (auto simp: settle_inv_def about_to_stop_def)
  next
    case (call k e st1)
    then show ?thesis using assms(3) stop_call_ok [OF assms(1) call(2)]
      by (cases k) (auto simp: settle_inv_def about_to_stop_def)
  qed (use assms(3) in \<open>auto simp: settle_inv_def about_to_stop_def\<close>)
next
  case rx
  from rx(2) show ?thesis
  proof (cases rule: rx_cases)
    case (call e st1)
    then show ?thesis using assms(3) stop_call_ok [OF assms(1) call(2)]
      by (auto simp: settle_inv_def)
  qed (use assms(3) in \<open>auto simp: settle_inv_def\<close>)
qed (use assms(3) in \<open>auto simp: settle_inv_def about_to_stop_def simple_steps split: if_splits\<close>)

lemma settle_inv_trace:
  assumes "stop_never_fails stop" and "scan_trace start stop env st ops st'" and "settle_inv st"
  shows "settle_inv st'"
  using assms(2) by (induction rule: scan_trace.induct) (auto intro: assms(3) settle_inv_step [OF assms(1)])

lemma boot_invs: "settle_inv (scan_boot w)" "request_inv (scan_boot w)"
  by (simp_all add: settle_inv_def request_inv_def scan_boot_def)

text \<open>Once initialised, a settling period has its end scheduled.\<close>

definition settle_ends :: "('a, 'w) scanner \<Rightarrow> bool" where
  "settle_ends st \<longleftrightarrow> initialized st \<and> (split_settling st \<longrightarrow> settle_due st \<noteq> None \<or> rx_pc st \<noteq> RIdle)"

lemma queue_frame:
  assumes "queue_step start stop needed ts dial st = Some st'"
  shows "initialized st' = initialized st" "split_settling st' = split_settling st"
    "settle_due st' = settle_due st" "rx_pc st' = rx_pc st"
proof -
  have "initialized st' = initialized st \<and> split_settling st' = split_settling st \<and>
      settle_due st' = settle_due st \<and> rx_pc st' = rx_pc st"
    using assms
  proof (cases rule: queue_cases)
    case (missing k)
    then show ?thesis by (cases k) auto
  next
    case (call k e st1)
    from call(2) obtain r w where "st1 = st\<lparr>radio := w, scan_owned := (e \<noteq> ok \<or> scan_owned st)\<rparr>"
      by (rule stop_call_shape)
    then show ?thesis using call(3) by (cases k) auto
  qed auto
  then show "initialized st' = initialized st" "split_settling st' = split_settling st"
    "settle_due st' = settle_due st" "rx_pc st' = rx_pc st" by auto
qed

lemma settle_ends_step:
  assumes "scan_step start stop env st oper st'" and "settle_ends st"
  shows "settle_ends st'"
  using assms(1)
proof cases
  case queue
  then show ?thesis using queue_frame [OF queue(2)] assms(2) by (simp add: settle_ends_def)
next
  case rx
  from rx(2) show ?thesis
    by (cases rule: rx_cases) (use assms(2) in \<open>auto simp: settle_ends_def elim!: stop_call_shape\<close>)
qed (use assms(2) in \<open>auto simp: settle_ends_def simple_steps split: if_splits\<close>)

text \<open>
  While the client wants the scan and its connect function has not taken over, something is going on
  that leads back to scanning.
\<close>

definition keeps_trying :: "('a, 'w) scanner \<Rightarrow> bool" where
  "keeps_trying st \<longleftrightarrow> initialized st \<and>
     (scan_owned st \<or> scan_due st \<noteq> None \<or> settle_due st \<noteq> None \<or> connecting st \<or>
      queue_pc st \<noteq> QIdle \<or> rx_pc st \<noteq> RIdle) \<and>
     (queue_pc st = QRecheck \<longrightarrow> scan_owned st \<or> settle_due st \<noteq> None \<or> rx_pc st \<noteq> RIdle) \<and>
     queue_pc st \<noteq> QStopTry (AfterWait False) \<and> queue_pc st \<noteq> QStopCall (AfterWait False)"

definition client_wants :: "'a scan_op \<Rightarrow> bool" where
  "client_wants oper = (case oper of QueueStep needed _ dial \<Rightarrow> needed \<and> dial \<noteq> ok | _ \<Rightarrow> True)"

lemma keeps_trying_step:
  assumes "scan_step start stop env st oper st'" and "keeps_trying st" and "client_wants oper" and "request_inv st"
  shows "keeps_trying st'"
  using assms(1)
proof cases
  case (queue needed ts dial)
  then have want: "needed" "dial \<noteq> ok" using assms(3) by (auto simp: client_wants_def)
  from queue(2) show ?thesis
  proof (cases rule: queue_cases)
    case (missing k)
    then show ?thesis using assms(2,4) want
      by (cases k) (auto simp: keeps_trying_def request_inv_def)
  next
    case (call k e st1)
    from call(2) obtain r w where "st1 = st\<lparr>radio := w, scan_owned := (e \<noteq> ok \<or> scan_owned st)\<rparr>"
      by (rule stop_call_shape)
    then show ?thesis using assms(2,4) call(1,3) want
      by (cases k) (auto simp: keeps_trying_def request_inv_def)
  qed (use assms(2,4) want in \<open>auto simp: keeps_trying_def request_inv_def\<close>)
next
  case rx
  from rx(2) show ?thesis
    by (cases rule: rx_cases) (use assms(2) in \<open>auto simp: keeps_trying_def elim!: stop_call_shape\<close>)
next
  case scan_work
  then show ?thesis using assms(2) by (auto simp: keeps_trying_def take_scan_def split: if_splits)
next
  case connect_work
  then show ?thesis using assms(2) by (auto simp: keeps_trying_def take_connect_def split: if_splits)
next
  case settle_work
  then show ?thesis using assms(2)
    by (auto simp: keeps_trying_def take_settle_def settle_work_cb_def zmk_ble_central_scan_refresh_def
        split: if_splits)
next
  case changed
  then show ?thesis using assms(2) by (auto simp: keeps_trying_def connection_changed_def split: if_splits)
next
  case (connect a e)
  then show ?thesis using assms(2)
    by (cases "connecting st")
      (auto simp: keeps_trying_def zmk_ble_central_connect_def submit_connect_def)
next
  case refresh
  then show ?thesis using assms(2) by (simp add: keeps_trying_def zmk_ble_central_scan_refresh_def)
next
  case complete
  then show ?thesis using assms(2)
    by (simp add: keeps_trying_def zmk_ble_central_connection_complete_def zmk_ble_central_scan_refresh_def)
next
  case init_register
  then show ?thesis using assms(2) by (simp add: keeps_trying_def scan_init_register_def)
next
  case init_finish
  then show ?thesis using assms(2) by (simp add: keeps_trying_def scan_init_finish_def)
next
  case environment
  then show ?thesis using assms(2) by (simp add: keeps_trying_def)
qed

text \<open>
  A connection callback between the registration of the callbacks and the setting of \<open>initialized\<close>
  finds its timer request ignored: the settling period then has no end of its own.
\<close>

definition stuck :: "('a, 'w) scanner \<Rightarrow> bool" where
  "stuck st \<longleftrightarrow> split_settling st \<and> settle_due st = None \<and> rx_pc st = RIdle \<and>
     queue_pc st \<notin> {QOwned, QStarted}"

lemma stuck_step:
  assumes "scan_step start stop env st oper st'" and "stuck st" and "oper \<noteq> ConnectionChanged"
  shows "stuck st'"
  using assms(1)
proof cases
  case (queue needed ts dial)
  note frame = queue_frame [OF queue(2)]
  from queue(2) have "queue_pc st' \<notin> {QOwned, QStarted}"
  proof (cases rule: queue_cases)
    case (missing k)
    then show ?thesis by (cases k) auto
  next
    case (call k e st1)
    then show ?thesis by (cases k) (auto elim!: stop_call_shape)
  qed (use assms(2) in \<open>auto simp: stuck_def\<close>)
  then show ?thesis using frame assms(2) by (simp add: stuck_def)
qed (use assms(2,3) in \<open>auto simp: stuck_def rx_step_def simple_steps split: if_splits\<close>)

end
