(* ===== verification/Central_Scan_Props.thy ===== *)
theory Central_Scan_Props
  imports Central_Scan
begin

text \<open>
  The scanner of the host tests as an instance of the interface, an executable version of the
  step relation for concrete runs, and the properties of the scan coordinator.
\<close>

section \<open>The repository's own scanner\<close>

text \<open>\<open>bt_le_scan_start\<close> and \<open>bt_le_scan_stop\<close> of \<open>tests/fake_runtime.c\<close>; the callback tells whose scan it is.\<close>

record fake_radio =
  fake_scan_active :: bool
  fake_scan_callback :: "scan_owner option"

definition fake_scan_start :: "scan_owner \<Rightarrow> fake_radio \<Rightarrow> cret \<times> fake_radio" where
  "fake_scan_start callback w =
     (if fake_scan_active w then (Err EALREADY, w)
      else (ok, w\<lparr>fake_scan_active := True, fake_scan_callback := Some callback\<rparr>))"

definition fake_scan_stop :: "fake_radio \<Rightarrow> cret \<times> fake_radio" where
  "fake_scan_stop w =
     (if \<not> fake_scan_active w then (Err EALREADY, w)
      else (ok, w\<lparr>fake_scan_active := False, fake_scan_callback := None\<rparr>))"

definition fake_owner :: "fake_radio \<Rightarrow> scan_owner option" where
  "fake_owner w = (if fake_scan_active w then fake_scan_callback w else None)"

text \<open>Another module uses the same functions for a scan of its own.\<close>

definition fake_others :: "fake_radio \<Rightarrow> fake_radio \<Rightarrow> bool" where
  "fake_others w w' \<longleftrightarrow> w' = snd (fake_scan_start OTHER_SCAN w) \<or>
     fake_owner w = Some OTHER_SCAN \<and> w' = snd (fake_scan_stop w)"

interpretation fake: scanner_host "fake_scan_start OUR_SCAN" fake_scan_stop fake_others fake_owner
  by unfold_locales
    (auto simp: fake_scan_start_def fake_scan_stop_def fake_owner_def fake_others_def split: if_splits)

definition quiet_radio :: fake_radio where
  "quiet_radio = \<lparr>fake_scan_active = False, fake_scan_callback = None\<rparr>"

section \<open>Runs\<close>

definition scan_exec :: "('w \<Rightarrow> cret \<times> 'w) \<Rightarrow> ('w \<Rightarrow> cret \<times> 'w) \<Rightarrow> 'a scan_op \<Rightarrow> ('a, 'w) scanner \<Rightarrow>
    ('a, 'w) scanner option" where
  "scan_exec start stop oper st =
     (case oper of
        ScanWork \<Rightarrow> take_scan st | ConnectWork \<Rightarrow> take_connect st | SettleWork \<Rightarrow> take_settle st
      | QueueStep needed ts dial \<Rightarrow> queue_step start stop needed ts dial st
      | ConnectionChanged \<Rightarrow> connection_changed st | RxStep \<Rightarrow> rx_step stop st
      | ConnectRequest a \<Rightarrow> Some (snd (zmk_ble_central_connect a st))
      | Refresh \<Rightarrow> Some (zmk_ble_central_scan_refresh st)
      | ConnectionComplete \<Rightarrow> Some (zmk_ble_central_connection_complete st)
      | InitRegister \<Rightarrow> Some (scan_init_register st) | InitFinish \<Rightarrow> Some (scan_init_finish st)
      | Environment \<Rightarrow> None)"

lemma scan_exec_step: "scan_exec start stop oper st = Some st' \<Longrightarrow> scan_step start stop env st oper st'"
  by (cases oper) (auto simp: scan_exec_def intro: scan_step.intros prod.collapse [symmetric])

primrec scan_run :: "('w \<Rightarrow> cret \<times> 'w) \<Rightarrow> ('w \<Rightarrow> cret \<times> 'w) \<Rightarrow> 'a scan_op list \<Rightarrow> ('a, 'w) scanner \<Rightarrow>
    ('a, 'w) scanner option" where
  "scan_run start stop [] st = Some st"
| "scan_run start stop (oper # ops) st = Option.bind (scan_exec start stop oper st) (scan_run start stop ops)"

lemma scan_trace_front:
  assumes "scan_step start stop env st oper st1" and "scan_trace start stop env st1 ops st2"
  shows "scan_trace start stop env st (oper # ops) st2"
  using assms(2)
proof induction
  case here
  then show ?case using scan_trace.more [OF scan_trace.here assms(1)] by simp
next
  case (more ops st2 oper' st3)
  then show ?case using scan_trace.more [of start stop env st "oper # ops"] by simp
qed

lemma scan_run_trace: "scan_run start stop ops st = Some st' \<Longrightarrow> scan_trace start stop env st ops st'"
  by (induction ops arbitrary: st)
    (auto simp: bind_eq_Some_conv intro: scan_trace.here scan_trace_front scan_exec_step)

abbreviation fake_trace where
  "fake_trace \<equiv> scan_trace (fake_scan_start OUR_SCAN) fake_scan_stop fake_others"

abbreviation fake_run where
  "fake_run \<equiv> scan_run (fake_scan_start OUR_SCAN) fake_scan_stop"

definition split_up :: "transport_status list" where
  "split_up = [\<lparr>available = True, enabled = True, all_connected = True\<rparr>]"

text \<open>Start-up, and a scan that is running.\<close>

definition booted :: "(nat, fake_radio) scanner" where
  "booted = zmk_ble_central_scan_init (scan_boot quiet_radio)"

definition scanning_ops :: "nat scan_op list" where
  "scanning_ops = [InitRegister, InitFinish, Refresh, ScanWork] @ replicate 5 (QueueStep True split_up ok)"

definition scanning :: "(nat, fake_radio) scanner" where
  "scanning = the (fake_run scanning_ops (scan_boot quiet_radio))"

lemma scanning_trace: "fake_trace (scan_boot quiet_radio) scanning_ops scanning"
proof -
  have "fake_run scanning_ops (scan_boot quiet_radio) \<noteq> None" by code_simp
  then show ?thesis by (intro scan_run_trace) (auto simp: scanning_def)
qed

section \<open>Properties\<close>

text \<open>C22: The module never touches a scan of the split transport or another module: in every reachable state, no
  step of its own ends or replaces a scan that somebody else is running. And it never loses its own: when
  its work queue and its callback are at rest, its scan is running exactly when \<open>scan_owned\<close> is set.\<close>

theorem spares_other_scans:
  assumes "scanner_host start stop env owner" and "owner w \<noteq> Some OUR_SCAN"
    and "scan_trace start stop env (scan_boot w) ops st"
    and "scan_step start stop env st oper st'" and "oper \<noteq> Environment"
  shows "(owner (radio st) = Some OTHER_SCAN \<longrightarrow> owner (radio st') = Some OTHER_SCAN) \<and>
    (queue_pc st = QIdle \<and> rx_pc st = RIdle \<longrightarrow> (owner (radio st) = Some OUR_SCAN \<longleftrightarrow> scan_owned st))"
proof -
  have "scanner_host.one_holder owner st"
    using scanner_host.one_holder_trace [OF assms(1,3)] scanner_host.one_holder_boot [OF assms(1,2)] by blast
  then show ?thesis using scanner_host.spares_others [OF assms(1,4) _ assms(5)]
    by (auto simp: scanner_host.one_holder_def [OF assms(1)])
qed

theorem spares_other_scans_witness: "fake_owner (radio scanning) = Some OUR_SCAN \<longleftrightarrow> scan_owned scanning"
proof -
  have rest: "queue_pc scanning = QIdle" "rx_pc scanning = RIdle" by code_simp+
  have "fake_owner quiet_radio \<noteq> Some OUR_SCAN" by code_simp
  from spares_other_scans [OF fake.scanner_host_axioms this scanning_trace scan_step.refresh] rest
  show ?thesis by simp
qed

text \<open>C23: The keyboard's connections come first. If the radio can always be stopped, then whenever the module is at
  rest during a settling period (from any change of a connection until the settle timer ran), its scan is
  not running, whatever interleaving of the two threads led there.\<close>

theorem no_scan_while_settling:
  assumes "scanner_host start stop env owner" and "owner w \<noteq> Some OUR_SCAN" and "stop_never_fails stop"
    and "scan_trace start stop env (scan_boot w) ops st"
    and "split_settling st" and "queue_pc st = QIdle" and "rx_pc st = RIdle"
  shows "owner (radio st) \<noteq> Some OUR_SCAN \<and> \<not> scan_owned st"
proof -
  have one: "scanner_host.one_holder owner st"
    using scanner_host.one_holder_trace [OF assms(1,4)] scanner_host.one_holder_boot [OF assms(1,2)] by blast
  have "settle_inv st" by (rule settle_inv_trace [OF assms(3,4) boot_invs(1)])
  then show ?thesis using one assms(5-7)
    by (simp add: scanner_host.one_holder_def [OF assms(1)] settle_inv_def about_to_stop_def)
qed

definition settling :: "(nat, fake_radio) scanner" where
  "settling = the (fake_run (scanning_ops @ [ConnectionChanged, RxStep, RxStep]) (scan_boot quiet_radio))"

theorem no_scan_while_settling_witness:
  "scan_owned scanning \<and> fake_owner (radio settling) \<noteq> Some OUR_SCAN"
proof -
  have "fake_run (scanning_ops @ [ConnectionChanged, RxStep, RxStep]) (scan_boot quiet_radio) \<noteq> None" by code_simp
  then have tr: "fake_trace (scan_boot quiet_radio) (scanning_ops @ [ConnectionChanged, RxStep, RxStep]) settling"
    by (intro scan_run_trace) (auto simp: settling_def)
  have st: "split_settling settling" "queue_pc settling = QIdle" "rx_pc settling = RIdle" "scan_owned scanning"
    by code_simp+
  have "stop_never_fails fake_scan_stop" by (simp add: stop_never_fails_def fake_scan_stop_def)
  moreover have "fake_owner quiet_radio \<noteq> Some OUR_SCAN" by code_simp
  ultimately show ?thesis
    using no_scan_while_settling [OF fake.scanner_host_axioms _ _ tr st(1-3)] st(4) by blast
qed

text \<open>C30: One connection request at a time, and none is forgotten. While a request is open, another one is refused
  with \<open>-EBUSY\<close> and changes nothing, the address stays the one accepted, and the request is either
  waiting for the work queue or being carried out; only the step that ends it clears it. Before
  initialisation every request is refused.\<close>

theorem single_request:
  assumes "scan_trace start stop env (scan_boot w) ops st"
  shows "(connecting st \<or> \<not> initialized st \<longrightarrow> zmk_ble_central_connect a st = (Err EBUSY, st)) \<and>
    (initialized st \<and> \<not> connecting st \<longrightarrow>
       (\<exists>st'. zmk_ble_central_connect a st = (ok, st') \<and> connecting st' \<and> connect_submitted st' \<and>
          pending_address st' = Some a)) \<and>
    (connecting st \<longrightarrow> connect_submitted st \<or> dialling (queue_pc st)) \<and>
    (\<forall>oper st'. connecting st \<longrightarrow> scan_step start stop env st oper st' \<longrightarrow>
       pending_address st' = pending_address st \<and> (connecting st' \<or> dialling (queue_pc st)))"
proof -
  have inv: "request_inv st" using request_inv_trace [OF assms boot_invs(2)] .
  then show ?thesis using request_inv_step [of start stop env st _ _]
    by (auto simp: zmk_ble_central_connect_def submit_connect_def request_inv_def)
qed

definition dialling_st :: "(nat, fake_radio) scanner" where
  "dialling_st = the (fake_run (scanning_ops @ [ConnectRequest 7]) (scan_boot quiet_radio))"

theorem single_request_witness: "zmk_ble_central_connect 9 dialling_st = (Err EBUSY, dialling_st)"
proof -
  have "fake_run (scanning_ops @ [ConnectRequest 7]) (scan_boot quiet_radio) \<noteq> None" by code_simp
  then have "fake_trace (scan_boot quiet_radio) (scanning_ops @ [ConnectRequest 7]) dialling_st"
    by (intro scan_run_trace) (auto simp: dialling_st_def)
  moreover have "connecting dialling_st" by code_simp
  ultimately show ?thesis using single_request [of _ _ fake_others quiet_radio _ dialling_st 9] by blast
qed

text \<open>The radio is started only for a client that wants it and next to a keyboard that is complete: the worker
  goes on to start a scan exactly when the client wants one, some transport is available and enabled,
  every such transport has all its connections, and no connection changed lately.\<close>

theorem scan_gate:
  assumes "queue_pc st = QDecide" and "queue_step start stop needed ts dial st = Some st'"
  shows "(queue_pc st' = QOwned \<longleftrightarrow>
      needed \<and> (\<exists>t \<in> set ts. available t \<and> enabled t) \<and>
      (\<forall>t \<in> set ts. available t \<and> enabled t \<longrightarrow> all_connected t) \<and> \<not> split_settling st) \<and>
    (queue_pc st' \<noteq> QOwned \<longrightarrow> queue_pc st' = QStopTry (AfterWait needed)) \<and> radio st' = radio st"
proof -
  have "split_ready_from us en se \<longleftrightarrow> \<not> se \<and> (en \<or> (\<exists>t \<in> set us. available t \<and> enabled t)) \<and>
      (\<forall>t \<in> set us. available t \<and> enabled t \<longrightarrow> all_connected t)" for us en se
    by (induction us arbitrary: en) auto
  then have "split_ready ts (split_settling st) \<longleftrightarrow>
      (\<exists>t \<in> set ts. available t \<and> enabled t) \<and>
      (\<forall>t \<in> set ts. available t \<and> enabled t \<longrightarrow> all_connected t) \<and> \<not> split_settling st"
    by (auto simp: split_ready_def)
  then show ?thesis using assms by (auto simp: queue_step_def split: if_splits)
qed

theorem scan_gate_witness: "available (hd split_up) \<and> all_connected (hd split_up)"
proof -
  define st where "st = booted\<lparr>queue_pc := QDecide\<rparr>"
  have st: "queue_pc st = QDecide" "split_settling st = False"
    "queue_step (fake_scan_start OUR_SCAN) fake_scan_stop True split_up ok st = Some (st\<lparr>queue_pc := QOwned\<rparr>)"
    unfolding st_def by code_simp+
  show ?thesis using scan_gate [OF st(1,3)] by (simp add: split_up_def)
qed

text \<open>The coordinator neither waits forever nor gives up. From an initialised state on, a settling period always
  has its end scheduled or on the way; and while the client keeps wanting the scan and its connect
  function does not take over, the scan is running or work is scheduled or in progress that leads to it.\<close>

theorem scan_persistence:
  assumes "settle_ends st" and "keeps_trying st" and "request_inv st"
    and "scan_trace start stop env st ops st'" and "\<forall>oper \<in> set ops. client_wants oper"
  shows "(split_settling st' \<longrightarrow> settle_due st' \<noteq> None \<or> rx_pc st' \<noteq> RIdle) \<and>
    (scan_owned st' \<or> scan_due st' \<noteq> None \<or> settle_due st' \<noteq> None \<or> connecting st' \<or>
     queue_pc st' \<noteq> QIdle \<or> rx_pc st' \<noteq> RIdle)"
proof -
  have "settle_ends st' \<and> keeps_trying st' \<and> request_inv st'"
    using assms(4,5)
  proof (induction rule: scan_trace.induct)
    case here
    then show ?case using assms(1-3) by simp
  next
    case (more ops st1 oper st2)
    then have "settle_ends st1" "keeps_trying st1" "request_inv st1" "client_wants oper" by auto
    with more.hyps(2) show ?case
      using settle_ends_step keeps_trying_step request_inv_step by blast
  qed
  then show ?thesis by (simp add: settle_ends_def keeps_trying_def)
qed

theorem scan_persistence_witness:
  "\<exists>st. fake_run [ConnectionChanged, ScanWork, RxStep, QueueStep True split_up (Err EBUSY)]
      (zmk_ble_central_scan_refresh booted) = Some st \<and> (split_settling st \<longrightarrow> settle_due st \<noteq> None)"
proof -
  define st0 where "st0 = zmk_ble_central_scan_refresh booted"
  define ops :: "nat scan_op list" where
    "ops = [ConnectionChanged, ScanWork, RxStep, QueueStep True split_up (Err EBUSY)]"
  have st0: "st0 = \<lparr>registered = True, initialized = True, connecting = False, scan_owned = False,
      split_settling = False, pending_address = None, scan_due = Some 0, settle_due = None,
      connect_submitted = False, queue_pc = QIdle, rx_pc = RIdle, radio = quiet_radio\<rparr>"
    unfolding st0_def booted_def zmk_ble_central_scan_init_def
    by (simp add: scan_boot_def zmk_ble_central_scan_refresh_def schedule_scan_def
        scan_init_register_def scan_init_finish_def)
  have "fake_run ops st0 \<noteq> None" unfolding st0 ops_def by code_simp
  then obtain st where run: "fake_run ops st0 = Some st" by blast
  have "rx_pc (the (fake_run ops st0)) = RIdle" unfolding st0 ops_def by code_simp
  moreover have "settle_ends st0" "keeps_trying st0" "request_inv st0"
    by (simp_all add: st0 settle_ends_def keeps_trying_def request_inv_def)
  moreover have "\<forall>oper \<in> set ops. client_wants oper" by (simp add: ops_def client_wants_def)
  ultimately show ?thesis
    using scan_persistence [of st0 _ _ fake_others ops st, OF _ _ _ scan_run_trace [OF run]] run
    by (auto simp: st0_def ops_def)
qed

text \<open>C39: The start-up window. A connection callback that runs after the callbacks are registered but before
  \<open>initialized\<close> is set leaves the module in a settling period that no timer will end: the state is
  reachable, and until the next change of a connection no step leaves it or starts a scan.\<close>

theorem startup_window:
  "\<exists>ops st. scan_trace start stop env (scan_boot w) ops st \<and> initialized st \<and> stuck st \<and>
     (\<forall>ops' st'. scan_trace start stop env st ops' st' \<longrightarrow> ConnectionChanged \<notin> set ops' \<longrightarrow>
        split_settling st' \<and> queue_pc st' \<noteq> QOwned)"
proof -
  define ops :: "'a scan_op list" where "ops = [InitRegister, ConnectionChanged, RxStep, InitFinish]"
  obtain st where run: "scan_run start stop ops (scan_boot w) = Some st" "initialized st" "stuck st"
    by (simp add: ops_def scan_exec_def scan_boot_def scan_init_register_def connection_changed_def
        rx_step_def stop_try_def schedule_settle_def scan_init_finish_def stuck_def)
  have "stuck st'" if "scan_trace start stop env st ops' st'" and "ConnectionChanged \<notin> set ops'" for ops' st'
    using that
  proof (induction rule: scan_trace.induct)
    case here
    then show ?case using run(3) by simp
  next
    case (more ops st1 oper st2)
    then show ?case using stuck_step [OF more.hyps(2)] by auto
  qed
  then show ?thesis using run scan_run_trace [OF run(1)] unfolding stuck_def by blast
qed

theorem startup_window_witness:
  "\<exists>ops st. fake_trace (scan_boot quiet_radio :: (nat, fake_radio) scanner) ops st \<and> initialized st \<and> split_settling st \<and>
     settle_due st = None"
  using startup_window [of "fake_scan_start OUR_SCAN" fake_scan_stop fake_others quiet_radio]
  unfolding stuck_def by blast

end
