(* ===== verification/Ble_Client.thy ===== *)
theory Ble_Client
  imports Hid_Decode
begin

text \<open>
  Model of \<open>src/ble_mouse.c\<close>, first part: the state of the BLE HID client, the calls it makes, and
  the handlers that open, secure and close the connection to the mouse.

  Every call to the Bluetooth host, the settings store, the work queue, the scan coordinator and
  the output component is recorded in \<open>calls\<close> (latest first). What the host answers is given by a
  record \<open>host\<close> of functions of that history, so that a statement about all \<open>host\<close>s covers every
  behaviour of the host, including answers that differ from one call to the next; \<open>Tick\<close> in the
  history lets the answers change without a call. Each work handler and each callback is one
  step, except where a callback may overtake a call (\<open>early_connections\<close>, \<open>early_security\<close>). An address is its seven bytes, the type first.
\<close>

section \<open>Stages\<close>

datatype client_stage =
    IDLE | CONNECTING | SECURITY | SERVICE | CHARACTERISTICS | DESCRIPTORS
  | REPORT_MAP | REPORT_REFERENCES | PROTOCOL | SUBSCRIPTIONS | READY | CLOSING

text \<open>The order of the enumeration.\<close>

fun stage_rank :: "client_stage \<Rightarrow> nat" where
  "stage_rank IDLE = 0" | "stage_rank CONNECTING = 1" | "stage_rank SECURITY = 2"
| "stage_rank SERVICE = 3" | "stage_rank CHARACTERISTICS = 4" | "stage_rank DESCRIPTORS = 5"
| "stage_rank REPORT_MAP = 6" | "stage_rank REPORT_REFERENCES = 7" | "stage_rank PROTOCOL = 8"
| "stage_rank SUBSCRIPTIONS = 9" | "stage_rank READY = 10" | "stage_rank CLOSING = 11"

lemma stage_rank_inj: "stage_rank a = stage_rank b \<Longrightarrow> a = b"
  by (cases a; cases b) simp_all

instantiation client_stage :: linorder
begin

definition "a \<le> b \<longleftrightarrow> stage_rank a \<le> stage_rank b"
definition "a < b \<longleftrightarrow> stage_rank a < stage_rank b"

instance
  by standard (auto simp: less_eq_client_stage_def less_client_stage_def intro: stage_rank_inj)

end

lemmas stage_order = less_eq_client_stage_def less_client_stage_def

section \<open>State\<close>

type_synonym bt_addr_le = "u8 list"

definition BT_ADDR_LE_ANY :: bt_addr_le where "BT_ADDR_LE_ANY = replicate 7 0"
definition BT_ADDR_LE_RANDOM :: u8 where "BT_ADDR_LE_RANDOM = 1"

definition MAX_CHARACTERISTICS :: nat where "MAX_CHARACTERISTICS = 12"
definition PAIR_TIME_MS :: nat where "PAIR_TIME_MS = 60000"
definition DISCOVERY_TIME_MS :: nat where "DISCOVERY_TIME_MS = 20000"

record report_characteristic =
  rc_handle :: u16
  rc_end :: u16
  rc_reference :: u16
  rc_ccc :: u16
  rc_id :: u8
  rc_type :: u8
  rc_buttons :: u8

text \<open>
  The array \<open>reports\<close> with its \<open>count\<close> is a list, and so are the two read buffers; \<open>index\<close> is the
  position in that list.
\<close>

record session =
  service_start :: u16
  service_end :: u16
  map_handle :: u16
  protocol_handle :: u16
  control_handle :: u16
  protocol_properties :: u8
  reports :: "report_characteristic list"
  index :: nat
  subscribed :: u8
  covered_buttons :: u8
  covered_axes :: u8
  hid_map :: mouse_hid_map
  map_data :: "u8 list"
  reference_data :: "u8 list"

definition empty_session :: session where
  "empty_session = \<lparr>service_start = 0, service_end = 0, map_handle = 0, protocol_handle = 0,
     control_handle = 0, protocol_properties = 0, reports = [], index = 0, subscribed = 0,
     covered_buttons = 0, covered_axes = 0, hid_map = empty_map, map_data = [], reference_data = []\<rparr>"

record advertiser =
  adv_addr :: bt_addr_le
  adv_seen :: u32
  adv_connectable :: bool
  adv_m720 :: bool

datatype work_item =
    DISCOVERY_WORK | FAILURE_WORK | RETRY_WORK | TIMEOUT_WORK | PAIR_TIMEOUT
  | CONNECTED_WORK | DISCONNECTED_WORK | PAIR_WORK | CLEAR_WORK

datatype discovery = Primary_HIDS | Characteristics_Of u16 u16 | Descriptors_Of u16 u16

text \<open>Calls of the client; the last three only mark what happened outside it.\<close>

datatype 'c client_call =
    Disconnect_Conn 'c | Set_Auto_Conn bt_addr_le bool | Take_Ref 'c | Drop_Ref 'c
  | Set_Security 'c | Unpair bt_addr_le | Save_Peer bt_addr_le | Delete_Peer
  | Gatt_Discover 'c discovery | Gatt_Read 'c u16 | Gatt_Write 'c u16
  | Gatt_Write_Without_Response 'c u16 | Gatt_Subscribe 'c nat u16 u16
  | Central_Connect bt_addr_le | Scan_Refresh | Connection_Complete | Scan_Init | Register_Callbacks
  | Output_Receive mouse_hid_frame u8 | Output_Disconnect
  | Submit work_item | Schedule work_item nat | Cancel work_item
  | Tick | Gatt_Done | Ran work_item

record 'c client =
  session :: session
  mouse_conn :: "'c option"
  connected_event_conn :: "'c option"
  connecting_address :: bt_addr_le
  peer :: bt_addr_le
  have_peer :: bool
  pairing :: bool
  scan_wanted :: bool
  stage :: client_stage
  failure :: cret
  clear_held :: bool
  started :: bool
  forget_requested :: bool
  candidate_bonded :: bool
  new_candidate :: bool
  connected_error :: u8
  retry_ms :: u32
  advertisers :: "advertiser list"
  out_of_bounds :: bool \<comment> \<open>an access outside \<open>reports\<close> or the decoded report has happened\<close>
  calls :: "'c client_call list"

text \<open>A callback about the connection: \<open>security_changed\<close>, \<open>pairing_failed\<close>, \<open>disconnected\<close>.\<close>

datatype 'c link_event = Secured 'c nat bool | Unpaired 'c | Lost 'c

record conn_info =
  ci_le :: bool
  ci_central :: bool
  ci_default_id :: bool

record 'c host =
  answer :: "'c client_call list \<Rightarrow> cret"
  conn_dst :: "'c client_call list \<Rightarrow> 'c \<Rightarrow> bt_addr_le"
  get_info :: "'c client_call list \<Rightarrow> 'c \<Rightarrow> conn_info option"
  bonds :: "'c client_call list \<Rightarrow> bt_addr_le list"
  lookup_addr :: "'c client_call list \<Rightarrow> bt_addr_le \<Rightarrow> 'c option"
  security_level :: "'c client_call list \<Rightarrow> 'c \<Rightarrow> nat"
  uptime :: "'c client_call list \<Rightarrow> u32"
  early_conns :: "'c client_call list \<Rightarrow> ('c \<times> u8) list"
  early_secs :: "'c client_call list \<Rightarrow> 'c link_event list"
  max_paired :: nat

definition client_boot :: "'c client" where
  "client_boot = \<lparr>session = empty_session, mouse_conn = None, connected_event_conn = None,
     connecting_address = BT_ADDR_LE_ANY, peer = BT_ADDR_LE_ANY, have_peer = False, pairing = False,
     scan_wanted = False, stage = IDLE, failure = ok, clear_held = False, started = False,
     forget_requested = False, candidate_bonded = False, new_candidate = False, connected_error = 0,
     retry_ms = 1000,
     advertisers = replicate 8 \<lparr>adv_addr = BT_ADDR_LE_ANY, adv_seen = 0, adv_connectable = False, adv_m720 = False\<rparr>,
     out_of_bounds = False, calls = []\<rparr>"

section \<open>Helpers\<close>

text \<open>A call whose result is ignored, and one whose result is used.\<close>

definition log_call :: "'c client_call \<Rightarrow> 'c client \<Rightarrow> 'c client" where
  "log_call c st = st\<lparr>calls := c # calls st\<rparr>"

definition perform :: "'c host \<Rightarrow> 'c client_call \<Rightarrow> 'c client \<Rightarrow> cret \<times> 'c client" where
  "perform H c st = (answer H (c # calls st), log_call c st)"

abbreviation submit :: "work_item \<Rightarrow> 'c client \<Rightarrow> 'c client" where
  "submit w \<equiv> log_call (Submit w)"

abbreviation schedule :: "work_item \<Rightarrow> nat \<Rightarrow> 'c client \<Rightarrow> 'c client" where
  "schedule w ms \<equiv> log_call (Schedule w ms)"

definition owns :: "'c client \<Rightarrow> 'c option \<Rightarrow> bool" where
  "owns st conn \<longleftrightarrow> conn \<noteq> None \<and> conn = mouse_conn st"

definition zmk_ble_mouse_legacy_pairing_allowed :: "'c host \<Rightarrow> 'c client \<Rightarrow> 'c option \<Rightarrow> bool" where
  "zmk_ble_mouse_legacy_pairing_allowed H st conn =
     (let current = stage st in
      case conn of
        None \<Rightarrow> False
      | Some c \<Rightarrow>
          if \<not> pairing st \<or> have_peer st \<or> failure st \<noteq> ok \<or> \<not> new_candidate st \<or>
             (current \<noteq> CONNECTING \<and> current \<noteq> SECURITY)
          then False
          else case get_info H (calls st) c of
            None \<Rightarrow> False
          | Some info \<Rightarrow>
              if \<not> ci_le info \<or> \<not> ci_central info \<or> \<not> ci_default_id info then False
              else owns st conn \<or>
                (mouse_conn st = None \<and> current = CONNECTING \<and>
                 conn_dst H (calls st) c = connecting_address st))"

definition valid_callback :: "'c client \<Rightarrow> 'c option \<Rightarrow> bool" where
  "valid_callback st conn \<longleftrightarrow> owns st conn \<and> failure st = ok \<and> stage st \<noteq> CLOSING"

definition next_stage :: "client_stage \<Rightarrow> 'c client \<Rightarrow> 'c client" where
  "next_stage nxt st = submit DISCOVERY_WORK (st\<lparr>stage := nxt\<rparr>)"

definition fail :: "cret \<Rightarrow> 'c client \<Rightarrow> 'c client" where
  "fail err st =
     submit FAILURE_WORK
       (if failure st = ok then st\<lparr>failure := (if err \<noteq> ok then err else Err EIO)\<rparr> else st)"

definition bond_count :: "'c host \<Rightarrow> 'c client \<Rightarrow> nat" where
  "bond_count H st = length (bonds H (calls st))"

definition is_bonded :: "'c host \<Rightarrow> 'c client \<Rightarrow> bt_addr_le \<Rightarrow> bool" where
  "is_bonded H st addr = (addr \<in> set (bonds H (calls st)))"

definition zmk_ble_mouse_wants_scan :: "'c client \<Rightarrow> bool" where
  "zmk_ble_mouse_wants_scan st = scan_wanted st"

section \<open>Retrying, forgetting, failing\<close>

definition retry_work_cb :: "'c host \<Rightarrow> 'c client \<Rightarrow> 'c client" where
  "retry_work_cb H st =
     (let wanted = (mouse_conn st = None \<and> (have_peer st \<or> pairing st));
          wanted = (if have_peer st \<and> \<not> is_bonded H st (peer st) then False else wanted);
          st = st\<lparr>scan_wanted := wanted\<rparr>;
          st = (if wanted \<and> have_peer st then log_call (Central_Connect (peer st)) st else st)
      in log_call Scan_Refresh st)"

definition request_retry :: "'c client \<Rightarrow> 'c client" where
  "request_retry st =
     (let st = st\<lparr>scan_wanted := False\<rparr>;
          st = log_call Scan_Refresh st;
          st = schedule RETRY_WORK (unat (retry_ms st)) st
      in st\<lparr>retry_ms := min (retry_ms st * 2) 16000\<rparr>)"

definition forget_peer :: "'c host \<Rightarrow> 'c client \<Rightarrow> 'c client" where
  "forget_peer H st =
     (let st = log_call (Cancel PAIR_TIMEOUT) (st\<lparr>pairing := False, scan_wanted := False\<rparr>);
          finish = (\<lambda>st. log_call Scan_Refresh (log_call Output_Disconnect (st\<lparr>forget_requested := False\<rparr>)))
      in if have_peer st
         then let (err, st) = perform H (Unpair (peer st)) st
              in if err \<noteq> ok then st\<lparr>forget_requested := False\<rparr>
                 else finish ((log_call Delete_Peer st)\<lparr>have_peer := False\<rparr>)
         else finish st)"

text \<open>Lines 660--672: letting go of the connection; lines 673--676, also 623--626: what follows.\<close>

definition release_mouse :: "'c host \<Rightarrow> 'c \<Rightarrow> 'c client \<Rightarrow> 'c client" where
  "release_mouse H c st =
     (let st = log_call (Set_Auto_Conn (conn_dst H (calls st) c) False) st;
          st = (if new_candidate st \<and> candidate_bonded st
                then log_call (Unpair (conn_dst H (calls st) c)) st else st);
          st = (log_call (Drop_Ref c) st)\<lparr>mouse_conn := None, candidate_bonded := False, failure := ok, stage := IDLE\<rparr>
      in log_call Output_Disconnect (log_call (Cancel TIMEOUT_WORK) st))"

definition after_close :: "'c host \<Rightarrow> 'c client \<Rightarrow> 'c client" where
  "after_close H st = request_retry (if forget_requested st then forget_peer H st else st)"

definition disconnected_work_cb :: "'c host \<Rightarrow> 'c client \<Rightarrow> 'c client" where
  "disconnected_work_cb H st =
     (case mouse_conn st of None \<Rightarrow> st | Some c \<Rightarrow> after_close H (release_mouse H c st))"

definition failure_work_cb :: "'c host \<Rightarrow> 'c client \<Rightarrow> 'c client" where
  "failure_work_cb H st =
     (let st = st\<lparr>stage := CLOSING, scan_wanted := False\<rparr>
      in case mouse_conn st of
           Some c \<Rightarrow>
             let (err, st) = perform H (Disconnect_Conn c) st
             in if err = Err ENOTCONN then disconnected_work_cb H st else st
         | None \<Rightarrow> request_retry (st\<lparr>stage := IDLE, failure := ok\<rparr>))"

definition timeout_work_cb :: "'c client \<Rightarrow> 'c client" where
  "timeout_work_cb st = (if mouse_conn st \<noteq> None \<and> stage st \<noteq> READY then fail (Err ETIMEDOUT) st else st)"

definition pair_timeout_cb :: "'c host \<Rightarrow> 'c client \<Rightarrow> 'c client" where
  "pair_timeout_cb H st =
     (let st = st\<lparr>pairing := False\<rparr>;
          st = (if mouse_conn st \<noteq> None \<and> new_candidate st \<and> stage st \<noteq> READY
                then fail (Err ETIMEDOUT) st else st)
      in retry_work_cb H st)"

section \<open>Callbacks of the connection\<close>

definition connected_cb :: "'c host \<Rightarrow> 'c \<Rightarrow> u8 \<Rightarrow> 'c client \<Rightarrow> 'c client" where
  "connected_cb H conn err st =
     (if owns st (Some conn) \<or> (stage st = CONNECTING \<and> conn_dst H (calls st) conn = connecting_address st)
      then submit CONNECTED_WORK
             ((log_call (Take_Ref conn) st)\<lparr>connected_event_conn := Some conn, connected_error := err\<rparr>)
      else st)"

definition disconnected_cb :: "'c \<Rightarrow> 'c client \<Rightarrow> 'c client" where
  "disconnected_cb conn st =
     (if owns st (Some conn)
      then submit DISCONNECTED_WORK (st\<lparr>stage := CLOSING, scan_wanted := False\<rparr>) else st)"

definition security_cb :: "'c \<Rightarrow> nat \<Rightarrow> bool \<Rightarrow> 'c client \<Rightarrow> 'c client" where
  "security_cb conn level err st =
     (if \<not> valid_callback st (Some conn) then st
      else if err then fail (Err EACCES) st
      else if 2 \<le> level \<and> stage st = SECURITY then submit DISCOVERY_WORK (st\<lparr>stage := SERVICE\<rparr>)
      else st)"

definition pairing_complete_cb :: "'c \<Rightarrow> bool \<Rightarrow> 'c client \<Rightarrow> 'c client" where
  "pairing_complete_cb conn bonded st =
     (if owns st (Some conn)
      then let st = st\<lparr>candidate_bonded := bonded\<rparr> in if \<not> bonded then fail (Err ENOSPC) st else st
      else st)"

definition pairing_failed_cb :: "'c \<Rightarrow> 'c client \<Rightarrow> 'c client" where
  "pairing_failed_cb conn st = (if owns st (Some conn) then fail (Err EACCES) st else st)"

subsection \<open>Callbacks that overtake a call\<close>

text \<open>
  The Bluetooth thread may call back before the call that caused it returns to the work queue. Two calls
  are followed by code that such a callback affects: \<open>bt_le_set_auto_conn\<close> in \<open>connect_mouse\<close>, which a connection may
  overtake, and \<open>bt_conn_set_security\<close> in \<open>connected_work_cb\<close>, which a change of security, a failed pairing or a
  disconnection may overtake. The host says which callbacks it makes during the call.
\<close>

fun deliver :: "'c link_event \<Rightarrow> 'c client \<Rightarrow> 'c client" where
  "deliver (Secured c level err) st = security_cb c level err st"
| "deliver (Unpaired c) st = pairing_failed_cb c st"
| "deliver (Lost c) st = disconnected_cb c st"

definition early_connections :: "'c host \<Rightarrow> 'c client \<Rightarrow> 'c client" where
  "early_connections H st = fold (\<lambda>(c, err). connected_cb H c err) (early_conns H (calls st)) st"

definition early_security :: "'c host \<Rightarrow> 'c client \<Rightarrow> 'c client" where
  "early_security H st = fold deliver (early_secs H (calls st)) st"

section \<open>Opening a connection\<close>

text \<open>Lines 200--206.\<close>

definition open_session :: "bt_addr_le \<Rightarrow> 'c client \<Rightarrow> 'c client" where
  "open_session addr st =
     st\<lparr>session := empty_session, new_candidate := \<not> have_peer st, candidate_bonded := False,
        failure := ok, scan_wanted := False, connecting_address := addr, stage := CONNECTING\<rparr>"

definition connect_mouse :: "'c host \<Rightarrow> bt_addr_le \<Rightarrow> 'c client \<Rightarrow> cret \<times> 'c client" where
  "connect_mouse H addr st =
     (if mouse_conn st \<noteq> None \<or> \<not> scan_wanted st then (Err EALREADY, st)
      else
        let known = have_peer st
        in if (known \<and> addr \<noteq> peer st) \<or> (\<not> known \<and> \<not> pairing st) then (Err ECANCELED, st)
           else if \<not> known \<and> is_bonded H st addr then (Err EALREADY, st)
           else if \<not> known \<and> max_paired H \<le> bond_count H st
           then (Err ENOMEM, st\<lparr>pairing := False, scan_wanted := False\<rparr>)
           else
             let (err, st) = perform H (Set_Auto_Conn addr True) (open_session addr st);
                 st = early_connections H st;
                 (err, st) =
                   (if err = ok
                    then (case lookup_addr H (calls st) addr of
                            Some c \<Rightarrow> (ok, (log_call (Take_Ref c) st)\<lparr>mouse_conn := Some c\<rparr>)
                          | None \<Rightarrow> (Err ENOTCONN, log_call (Set_Auto_Conn addr False) st))
                    else (err, st))
             in if err \<noteq> ok then (err, request_retry (st\<lparr>stage := IDLE\<rparr>))
                else (ok, schedule TIMEOUT_WORK DISCOVERY_TIME_MS st))"

subsection \<open>Advertisements\<close>

datatype adv_type = ADV_IND | ADV_DIRECT_IND | ADV_OTHER nat

text \<open>One element of the advertising data: its type and its bytes.\<close>

datatype ad_type = BT_DATA_NAME_COMPLETE | BT_DATA_NAME_SHORTENED | BT_DATA_OTHER u8

definition parse_ad :: "ad_type \<times> u8 list \<Rightarrow> advertiser \<Rightarrow> advertiser" where
  "parse_ad elem adv =
     (let (type, data) = elem
      in if (type = BT_DATA_NAME_COMPLETE \<or> type = BT_DATA_NAME_SHORTENED) \<and> 4 \<le> length data \<and>
            take 4 data = [0x4d, 0x37, 0x32, 0x30]
         then adv\<lparr>adv_m720 := True\<rparr> else adv)"

text \<open>The loop over the table: the entry of the address if it is fresh, and the oldest entry seen so far.\<close>

fun find_advertiser :: "u32 \<Rightarrow> bt_addr_le \<Rightarrow> nat \<Rightarrow> advertiser list \<Rightarrow> nat \<times> u32 \<Rightarrow> nat option \<times> nat" where
  "find_advertiser now addr i [] oldest = (None, fst oldest)"
| "find_advertiser now addr i (a # rest) oldest =
     (if addr = adv_addr a \<and> now - adv_seen a < 2000 then (Some i, fst oldest)
      else find_advertiser now addr (i + 1) rest
             (if now - snd oldest < now - adv_seen a then (i, adv_seen a) else oldest))"

definition note_advertiser :: "u32 \<Rightarrow> bt_addr_le \<Rightarrow> adv_type \<Rightarrow> (ad_type \<times> u8 list) list \<Rightarrow> advertiser list \<Rightarrow>
    advertiser \<times> advertiser list" where
  "note_advertiser now addr type ad table =
     (let (entry, oldest) = find_advertiser now addr 0 table (0, adv_seen (table ! 0));
          (i, a) = (case entry of
              Some i \<Rightarrow> (i, table ! i)
            | None \<Rightarrow> (oldest, \<lparr>adv_addr = addr, adv_seen = 0, adv_connectable = False, adv_m720 = False\<rparr>));
          a = a\<lparr>adv_seen := now, adv_connectable := adv_connectable a \<or> type = ADV_IND\<rparr>;
          a = fold parse_ad ad a
      in (a, table[i := a]))"

definition zmk_ble_mouse_advertisement :: "'c host \<Rightarrow> bt_addr_le \<Rightarrow> adv_type \<Rightarrow> (ad_type \<times> u8 list) list \<Rightarrow>
    'c client \<Rightarrow> bool \<times> 'c client" where
  "zmk_ble_mouse_advertisement H addr type ad st =
     (if \<not> scan_wanted st then (False, st)
      else if have_peer st then
        (if addr \<noteq> peer st then (False, st)
         else (True, if type = ADV_IND \<or> type = ADV_DIRECT_IND then log_call (Central_Connect addr) st else st))
      else if \<not> pairing st then (False, st)
      else
        let (a, table) = note_advertiser (uptime H (calls st)) addr type ad (advertisers st);
            st = st\<lparr>advertisers := table\<rparr>
        in if adv_connectable a \<and> adv_m720 a then (True, log_call (Central_Connect addr) st) else (False, st))"

section \<open>A connection that came up\<close>

text \<open>Lines 609--611, 615--616 and 618--622.\<close>

definition take_event :: "'c client \<Rightarrow> 'c client" where
  "take_event st =
     (case connected_event_conn st of
        Some c \<Rightarrow> log_call (Drop_Ref c) (st\<lparr>connected_event_conn := None\<rparr>)
      | None \<Rightarrow> st)"

definition complete_connection :: "'c host \<Rightarrow> 'c \<Rightarrow> 'c client \<Rightarrow> 'c client" where
  "complete_connection H c st =
     log_call Connection_Complete (log_call (Set_Auto_Conn (conn_dst H (calls st) c) False) st)"

definition abandon_mouse :: "'c \<Rightarrow> 'c client \<Rightarrow> 'c client" where
  "abandon_mouse c st =
     log_call (Cancel TIMEOUT_WORK)
       ((log_call (Drop_Ref c) st)\<lparr>mouse_conn := None, failure := ok, stage := IDLE\<rparr>)"

text \<open>Lines 634--641.\<close>

definition start_security :: "'c host \<Rightarrow> 'c \<Rightarrow> 'c client \<Rightarrow> 'c client" where
  "start_security H c st =
     (let (err, st) = perform H (Set_Security c) (st\<lparr>stage := SECURITY\<rparr>);
          st = early_security H st
      in if err \<noteq> ok then fail err st
         else if 2 \<le> security_level H (calls st) c \<and> stage st = SECURITY
         then submit DISCOVERY_WORK (st\<lparr>stage := SERVICE\<rparr>)
         else st)"

definition connected_work_cb :: "'c host \<Rightarrow> 'c client \<Rightarrow> 'c client" where
  "connected_work_cb H st =
     (let st = take_event st
      in case mouse_conn st of
           None \<Rightarrow> st
         | Some c \<Rightarrow>
             let st = complete_connection H c st
             in if connected_error st \<noteq> 0 then after_close H (abandon_mouse c st)
                else if failure st \<noteq> ok \<or> stage st = CLOSING then fail (Err ECANCELED) st
                else start_security H c st)"

end
