(* ===== verification/Ble_Discovery.thy ===== *)
theory Ble_Discovery
  imports Ble_Client
begin

text \<open>
  Model of \<open>src/ble_mouse.c\<close>, second part: the discovery of the mouse's HID service over GATT, from the
  primary service to the subscriptions, its callbacks, and the key and settings handlers of the
  client; and \<open>src/behavior_ble_mouse.c\<close>, which binds two keys to it.

  A GATT attribute is a record of the fields that the callbacks read; what its \<open>user_data\<close> points to
  depends on the kind of discovery, as in the host. A subscription is named by the index of the
  report whose \<open>subscription\<close> member was passed.
\<close>

section \<open>GATT callbacks\<close>

datatype uuid =
    HIDS_REPORT_MAP | HIDS_PROTOCOL_MODE | HIDS_CTRL_POINT | HIDS_REPORT | HIDS_REPORT_REF
  | GATT_CCC | UUID_OTHER nat

record gatt_attr =
  at_handle :: u16
  at_uuid :: uuid
  sv_end_handle :: u16
  ch_uuid :: uuid
  ch_value_handle :: u16
  ch_properties :: u8

datatype gatt_iter = BT_GATT_ITER_STOP | BT_GATT_ITER_CONTINUE

abbreviation upd_session :: "(session \<Rightarrow> session) \<Rightarrow> 'c client \<Rightarrow> 'c client" where
  "upd_session f st \<equiv> st\<lparr>session := f (session st)\<rparr>"

text \<open>Lines 317--319: the previous report ends before this characteristic.\<close>

definition close_last_report :: "u16 \<Rightarrow> session \<Rightarrow> session" where
  "close_last_report handle s =
     (if reports s \<noteq> [] \<and> rc_end (last (reports s)) = service_end s
      then s\<lparr>reports := butlast (reports s) @ [(last (reports s))\<lparr>rc_end := handle - 1\<rparr>]\<rparr> else s)"

definition note_descriptor :: "gatt_attr \<Rightarrow> report_characteristic \<Rightarrow> report_characteristic" where
  "note_descriptor attr r =
     (if at_handle attr \<le> rc_handle r \<or> rc_end r < at_handle attr then r
      else if at_uuid attr = HIDS_REPORT_REF then r\<lparr>rc_reference := at_handle attr\<rparr>
      else if at_uuid attr = GATT_CCC then r\<lparr>rc_ccc := at_handle attr\<rparr>
      else r)"

definition discover_cb :: "'c option \<Rightarrow> gatt_attr option \<Rightarrow> 'c client \<Rightarrow> gatt_iter \<times> 'c client" where
  "discover_cb conn attr st =
     (if \<not> valid_callback st conn then (BT_GATT_ITER_STOP, st)
      else
        let current = stage st
        in case attr of
             None \<Rightarrow>
               (BT_GATT_ITER_STOP,
                case current of
                  SERVICE \<Rightarrow> fail (Err ENOENT) st
                | CHARACTERISTICS \<Rightarrow>
                    if map_handle (session st) = 0 \<or> reports (session st) = [] then fail (Err ENOTSUP) st
                    else next_stage DESCRIPTORS st
                | DESCRIPTORS \<Rightarrow> next_stage REPORT_MAP st
                | _ \<Rightarrow> fail (Err EINVAL) st)
           | Some a \<Rightarrow>
               if current = SERVICE then
                 (BT_GATT_ITER_STOP,
                  next_stage CHARACTERISTICS
                    (upd_session (\<lambda>s. s\<lparr>service_start := at_handle a + 1, service_end := sv_end_handle a\<rparr>) st))
               else if current = CHARACTERISTICS then
                 (let st = upd_session (close_last_report (at_handle a)) st
                  in if ch_uuid a = HIDS_REPORT_MAP
                     then (BT_GATT_ITER_CONTINUE, upd_session (\<lambda>s. s\<lparr>map_handle := ch_value_handle a\<rparr>) st)
                     else if ch_uuid a = HIDS_PROTOCOL_MODE
                     then (BT_GATT_ITER_CONTINUE,
                           upd_session (\<lambda>s. s\<lparr>protocol_handle := ch_value_handle a,
                             protocol_properties := ch_properties a\<rparr>) st)
                     else if ch_uuid a = HIDS_CTRL_POINT
                     then (BT_GATT_ITER_CONTINUE, upd_session (\<lambda>s. s\<lparr>control_handle := ch_value_handle a\<rparr>) st)
                     else if ch_uuid a = HIDS_REPORT
                     then
                       (if length (reports (session st)) = MAX_CHARACTERISTICS
                        then (BT_GATT_ITER_STOP, fail (Err E2BIG) st)
                        else (BT_GATT_ITER_CONTINUE,
                          upd_session (\<lambda>s. s\<lparr>reports := reports s @
                            [\<lparr>rc_handle = ch_value_handle a, rc_end = service_end s, rc_reference = 0,
                              rc_ccc = 0, rc_id = 0, rc_type = 0, rc_buttons = 0\<rparr>]\<rparr>) st))
                     else (BT_GATT_ITER_CONTINUE, st))
               else if current = DESCRIPTORS then
                 (BT_GATT_ITER_CONTINUE,
                  upd_session (\<lambda>s. s\<lparr>reports := map (note_descriptor a) (reports s)\<rparr>) st)
               else (BT_GATT_ITER_CONTINUE, st))"

definition read_cb :: "'c option \<Rightarrow> bool \<Rightarrow> u8 list option \<Rightarrow> 'c client \<Rightarrow> gatt_iter \<times> 'c client" where
  "read_cb conn err data st =
     (if \<not> valid_callback st conn then (BT_GATT_ITER_STOP, st)
      else if err then (BT_GATT_ITER_STOP, fail (Err EIO) st)
      else if stage st = REPORT_MAP then
        (case data of
           Some bytes \<Rightarrow>
             if MOUSE_HID_MAX_MAP_BYTES - length (map_data (session st)) < length bytes
             then (BT_GATT_ITER_STOP, fail (Err E2BIG) st)
             else (BT_GATT_ITER_CONTINUE, upd_session (\<lambda>s. s\<lparr>map_data := map_data s @ bytes\<rparr>) st)
         | None \<Rightarrow> (BT_GATT_ITER_STOP, next_stage REPORT_REFERENCES st))
      else if stage st = REPORT_REFERENCES then
        (case data of
           Some bytes \<Rightarrow>
             if 2 - length (reference_data (session st)) < length bytes
             then (BT_GATT_ITER_STOP, fail (Err EINVAL) st)
             else (BT_GATT_ITER_CONTINUE, upd_session (\<lambda>s. s\<lparr>reference_data := reference_data s @ bytes\<rparr>) st)
         | None \<Rightarrow>
             (BT_GATT_ITER_STOP,
              if length (reference_data (session st)) \<noteq> 2 then fail (Err EINVAL) st
              else
                let s = session st; i = index s
                in submit DISCOVERY_WORK
                     (if i < length (reports s)
                      then st\<lparr>session := s\<lparr>index := i + 1,
                             reports := (reports s)[i := (reports s ! i)
                               \<lparr>rc_id := reference_data s ! 0, rc_type := reference_data s ! 1\<rparr>]\<rparr>\<rparr>
                      else st\<lparr>session := s\<lparr>index := i + 1\<rparr>, out_of_bounds := True\<rparr>)))
      else (case data of Some _ \<Rightarrow> BT_GATT_ITER_CONTINUE | None \<Rightarrow> BT_GATT_ITER_STOP, st))"

definition notify_cb :: "'c option \<Rightarrow> nat \<Rightarrow> u8 list option \<Rightarrow> 'c client \<Rightarrow> gatt_iter \<times> 'c client" where
  "notify_cb conn i data st =
     (case data of
        None \<Rightarrow>
          (BT_GATT_ITER_STOP,
           if valid_callback st conn \<and> stage st = READY then fail (Err EIO) st else st)
      | Some bytes \<Rightarrow>
          if \<not> valid_callback st conn then (BT_GATT_ITER_STOP, st)
          else if stage st \<noteq> READY then (BT_GATT_ITER_CONTINUE, st)
          else if length (reports (session st)) \<le> i then (BT_GATT_ITER_CONTINUE, st\<lparr>out_of_bounds := True\<rparr>)
          else
            (BT_GATT_ITER_CONTINUE,
             case mouse_hid_decode (Some (hid_map (session st))) (rc_id (reports (session st) ! i))
                    (Some bytes) (Some empty_frame) of
               Some (Ret 0, Some frame) \<Rightarrow>
                 let st = upd_session (\<lambda>s. s\<lparr>reports := (reports s)[i := (reports s ! i)
                                          \<lparr>rc_buttons := fr_buttons frame\<rparr>]\<rparr>) st;
                     physical = fold (\<lambda>r p. p OR rc_buttons r) (reports (session st)) 0
                 in log_call (Output_Receive frame physical) st
             | Some _ \<Rightarrow> st
             | None \<Rightarrow> st\<lparr>out_of_bounds := True\<rparr>))"

text \<open>The bits that a field adds to \<open>covered_buttons\<close> and \<open>covered_axes\<close>; axes are the bits 0 to 3.\<close>

fun axis_bit :: "mouse_hid_usage \<Rightarrow> nat" where
  "axis_bit MOUSE_X = 0" | "axis_bit MOUSE_Y = 1" | "axis_bit MOUSE_WHEEL = 2" | "axis_bit MOUSE_PAN = 3"
| "axis_bit MOUSE_BUTTON = 4"

definition cover_field :: "nat \<Rightarrow> mouse_hid_field \<Rightarrow> session \<Rightarrow> session" where
  "cover_field ri f s =
     (if unat (f_report f) \<noteq> ri then s
      else if f_usage f = MOUSE_BUTTON
      then s\<lparr>covered_buttons := covered_buttons s OR push_bit (unat (f_button f)) 1\<rparr>
      else s\<lparr>covered_axes := covered_axes s OR push_bit (axis_bit (f_usage f)) 1\<rparr>)"

definition cover_report :: "u8 \<Rightarrow> session \<Rightarrow> session" where
  "cover_report ident s =
     (case mouse_hid_report_index (hid_map s) ident of
        Ret ri \<Rightarrow> fold (cover_field ri) (m_fields (hid_map s)) s
      | Err _ \<Rightarrow> s)"

definition subscribed_cb :: "'c option \<Rightarrow> bool \<Rightarrow> nat \<Rightarrow> 'c client \<Rightarrow> 'c client" where
  "subscribed_cb conn err i st =
     (if \<not> valid_callback st conn then st
      else if err then fail (Err EIO) st
      else
        let st = (if i < length (reports (session st))
                  then upd_session (cover_report (rc_id (reports (session st) ! i))) st
                  else st\<lparr>out_of_bounds := True\<rparr>)
        in submit DISCOVERY_WORK
             (upd_session (\<lambda>s. s\<lparr>subscribed := subscribed s + 1, index := index s + 1\<rparr>) st))"

definition written_cb :: "'c option \<Rightarrow> bool \<Rightarrow> 'c client \<Rightarrow> 'c client" where
  "written_cb conn err st =
     (if \<not> valid_callback st conn then st
      else if err then fail (Err EIO) st else next_stage SUBSCRIPTIONS st)"

section \<open>The discovery work\<close>

definition finish_ready :: "'c host \<Rightarrow> 'c \<Rightarrow> 'c client \<Rightarrow> 'c client" where
  "finish_ready H conn st =
     (let s = session st;
          ready = (\<lambda>st. log_call (Cancel TIMEOUT_WORK) (log_call (Cancel PAIR_TIMEOUT)
                    (st\<lparr>pairing := False, stage := READY, retry_ms := 1000\<rparr>)))
      in if subscribed s = 0 \<or> covered_buttons s \<noteq> 0x1f \<or> covered_axes s \<noteq> 0x0f \<or>
            (new_candidate st \<and> \<not> candidate_bonded st)
         then fail (Err ENOTSUP) st
         else if new_candidate st then
           (let address = conn_dst H (calls st) conn
            in if \<not> is_bonded H st address then fail (Err EACCES) st
               else
                 let (err, st) = perform H (Save_Peer address) st
                 in if err \<noteq> ok then fail err st
                    else ready (st\<lparr>peer := address, have_peer := True, new_candidate := False\<rparr>))
         else ready st)"

text \<open>Lines 534--536.\<close>

fun skip_unreferenced :: "report_characteristic list \<Rightarrow> nat \<Rightarrow> nat" where
  "skip_unreferenced [] i = i"
| "skip_unreferenced (r # rs) i = (if rc_reference r = 0 then skip_unreferenced rs (i + 1) else i)"

text \<open>Lines 577--583: the next report to subscribe to.\<close>

fun skip_unusable :: "mouse_hid_map \<Rightarrow> report_characteristic list \<Rightarrow> nat \<Rightarrow> nat" where
  "skip_unusable m [] i = i"
| "skip_unusable m (r # rs) i =
     (if rc_type r \<noteq> 1 \<or>
         (case mouse_hid_report_index m (rc_id r) of Err _ \<Rightarrow> True | Ret ri \<Rightarrow> \<not> r_useful (m_reports m ! ri))
      then skip_unusable m rs (i + 1) else i)"

definition read_map_stage :: "'c host \<Rightarrow> 'c \<Rightarrow> 'c client \<Rightarrow> cret \<times> 'c client" where
  "read_map_stage H c st = perform H (Gatt_Read c (map_handle (session st))) st"

definition parse_stage :: "'c client \<Rightarrow> cret \<times> 'c client" where
  "parse_stage st =
     (if m_reports (hid_map (session st)) = [] then
        (case mouse_hid_parse (Some (map_data (session st))) (Some (hid_map (session st))) of
           (err, Some m) \<Rightarrow>
             (let st = upd_session (\<lambda>s. s\<lparr>hid_map := m\<rparr>) st
              in if err \<noteq> ok then (err, st)
                 else if m_buttons m \<noteq> 0x1f \<or> \<not> m_wheel m \<or> \<not> m_pan m then (Err ENOTSUP, st)
                 else (ok, st))
         | (err, None) \<Rightarrow> (err, st))
      else (ok, st))"

definition references_stage :: "'c host \<Rightarrow> 'c \<Rightarrow> 'c client \<Rightarrow> cret \<times> 'c client" where
  "references_stage H c st =
     (let (err, st) = parse_stage st
      in if err \<noteq> ok then (err, st)
         else
           let st = upd_session (\<lambda>s. s\<lparr>index := skip_unreferenced (drop (index s) (reports s)) (index s)\<rparr>) st;
               s = session st
           in if index s = length (reports s)
              then (ok, next_stage PROTOCOL (st\<lparr>session := s\<lparr>index := 0\<rparr>\<rparr>))
              else if length (reports s) < index s then (ok, st\<lparr>out_of_bounds := True\<rparr>)
              else perform H (Gatt_Read c (rc_reference (reports s ! index s)))
                     (st\<lparr>session := s\<lparr>reference_data := []\<rparr>\<rparr>))"

definition protocol_stage :: "'c host \<Rightarrow> 'c \<Rightarrow> 'c client \<Rightarrow> cret \<times> 'c client" where
  "protocol_stage H c st =
     (let s = session st;
          (err, st) = (if control_handle s \<noteq> 0
                       then perform H (Gatt_Write_Without_Response c (control_handle s)) st else (ok, st))
      in if err \<noteq> ok then (err, st)
         else if protocol_handle s = 0 then (ok, next_stage SUBSCRIPTIONS st)
         else if protocol_properties s AND push_bit 2 1 \<noteq> 0 then
           (let (err, st) = perform H (Gatt_Write_Without_Response c (protocol_handle s)) st
            in (err, if err = ok then next_stage SUBSCRIPTIONS st else st))
         else perform H (Gatt_Write c (protocol_handle s)) st)"

definition subscriptions_stage :: "'c host \<Rightarrow> 'c \<Rightarrow> 'c client \<Rightarrow> cret \<times> 'c client" where
  "subscriptions_stage H c st =
     (let st = upd_session (\<lambda>s. s\<lparr>index := skip_unusable (hid_map s) (drop (index s) (reports s)) (index s)\<rparr>) st;
          s = session st; i = index s
      in if i = length (reports s) then (ok, finish_ready H c st)
         else if length (reports s) < i then (ok, st)
         else if rc_ccc (reports s ! i) = 0 then (Err ENOTSUP, st)
         else perform H (Gatt_Subscribe c i (rc_handle (reports s ! i)) (rc_ccc (reports s ! i))) st)"

definition discovery_work_cb :: "'c host \<Rightarrow> 'c client \<Rightarrow> 'c client" where
  "discovery_work_cb H st =
     (case mouse_conn st of
        None \<Rightarrow> st
      | Some c \<Rightarrow>
          if failure st \<noteq> ok \<or> stage st = CLOSING then st
          else
            let s = session st;
                (err, st) = (case stage st of
                    SERVICE \<Rightarrow> perform H (Gatt_Discover c Primary_HIDS) st
                  | CHARACTERISTICS \<Rightarrow>
                      perform H (Gatt_Discover c (Characteristics_Of (service_start s) (service_end s))) st
                  | DESCRIPTORS \<Rightarrow>
                      perform H (Gatt_Discover c (Descriptors_Of (service_start s) (service_end s))) st
                  | REPORT_MAP \<Rightarrow> read_map_stage H c st
                  | REPORT_REFERENCES \<Rightarrow> references_stage H c st
                  | PROTOCOL \<Rightarrow> protocol_stage H c st
                  | SUBSCRIPTIONS \<Rightarrow> subscriptions_stage H c st
                  | _ \<Rightarrow> (ok, st))
            in if err \<noteq> ok then fail err st else st)"

section \<open>Settings and keys\<close>

text \<open>
  \<open>settings_set\<close>: \<open>read\<close> returns an error or the bytes it copied over the stored address. The name is
  the part after \<open>ble_mouse/\<close>.
\<close>

definition settings_set :: "string \<Rightarrow> nat \<Rightarrow> (nat \<Rightarrow> errno + u8 list) \<Rightarrow> 'c client \<Rightarrow> cret \<times> 'c client" where
  "settings_set name len read st =
     (if name \<noteq> ''peer'' then (Err ENOENT, st)
      else if len \<noteq> 7 then (Err EINVAL, st)
      else case read 7 of
             Inl _ \<Rightarrow> (Err EINVAL, st)
           | Inr got \<Rightarrow>
               let st = st\<lparr>peer := got @ drop (length got) (peer st)\<rparr>
               in if length got = 7 \<and> hd (peer st) \<le> BT_ADDR_LE_RANDOM \<and> peer st \<noteq> BT_ADDR_LE_ANY
                  then (ok, st\<lparr>have_peer := True\<rparr>) else (Err EINVAL, st))"

definition zmk_ble_mouse_start :: "'c client \<Rightarrow> 'c client" where
  "zmk_ble_mouse_start st =
     (if started st then st
      else schedule RETRY_WORK 0 (log_call Scan_Init (log_call Register_Callbacks (st\<lparr>started := True\<rparr>))))"

definition ble_mouse_settings_commit :: "'c client \<Rightarrow> cret \<times> 'c client" where
  "ble_mouse_settings_commit st = (ok, zmk_ble_mouse_start st)"

definition pair_work_cb :: "'c host \<Rightarrow> 'c client \<Rightarrow> 'c client" where
  "pair_work_cb H st =
     (if mouse_conn st \<noteq> None then st
      else if have_peer st then retry_work_cb H (st\<lparr>retry_ms := 1000\<rparr>)
      else if max_paired H \<le> bond_count H st then st
      else retry_work_cb H (schedule PAIR_TIMEOUT PAIR_TIME_MS (st\<lparr>pairing := True, retry_ms := 1000\<rparr>)))"

definition zmk_ble_mouse_pair :: "'c client \<Rightarrow> cret \<times> 'c client" where
  "zmk_ble_mouse_pair st = (if \<not> started st then (Err ENOTSUP, st) else (ok, submit PAIR_WORK st))"

definition clear_work_cb :: "'c host \<Rightarrow> 'c client \<Rightarrow> 'c client" where
  "clear_work_cb H st =
     (if \<not> clear_held st then st
      else
        let st = st\<lparr>pairing := False, scan_wanted := False, forget_requested := True\<rparr>
        in if mouse_conn st \<noteq> None then fail (Err ECANCELED) st else forget_peer H st)"

text \<open>\<open>zmk_ble_mouse_schedule\<close> drops the item before the queue is started; of its callers only this one can come first.\<close>

definition zmk_ble_mouse_clear_hold :: "bool \<Rightarrow> 'c client \<Rightarrow> 'c client" where
  "zmk_ble_mouse_clear_hold pressed st =
     (let st = st\<lparr>clear_held := pressed\<rparr>
      in if pressed then (if started st then schedule CLEAR_WORK 2000 st else st)
         else log_call (Cancel CLEAR_WORK) st)"

text \<open>
  \<open>src/behavior_ble_mouse.c\<close>; \<open>central\<close> is \<open>CONFIG_ZMK_BLE_MOUSE_CENTRAL\<close>, \<open>opaque\<close> the value
  \<open>ZMK_BEHAVIOR_OPAQUE\<close> of ZMK.
\<close>

definition MOUSE_PAIR :: nat where "MOUSE_PAIR = 0"
definition MOUSE_CLEAR :: nat where "MOUSE_CLEAR = 1"

definition pressed :: "bool \<Rightarrow> cret \<Rightarrow> nat \<Rightarrow> 'c client \<Rightarrow> cret \<times> 'c client" where
  "pressed central opaque param1 st =
     (if central then
        (if param1 = MOUSE_PAIR then zmk_ble_mouse_pair st
         else if param1 = MOUSE_CLEAR then (opaque, zmk_ble_mouse_clear_hold True st)
         else (Err EINVAL, st))
      else (Err ENOTSUP, st))"

definition released :: "bool \<Rightarrow> cret \<Rightarrow> nat \<Rightarrow> 'c client \<Rightarrow> cret \<times> 'c client" where
  "released central opaque param1 st =
     (opaque, if central \<and> param1 = MOUSE_CLEAR then zmk_ble_mouse_clear_hold False st else st)"

text \<open>\<open>values\<close>, what a keymap editor offers: names and parameters.\<close>

definition behavior_values :: "(string \<times> nat) list" where
  "behavior_values = [(''Pair mouse (60 seconds)'', MOUSE_PAIR), (''Clear mouse (hold 2 seconds)'', MOUSE_CLEAR)]"

text \<open>The offered parameters are exactly those the handler takes, and the names tell the times the code uses.\<close>

lemma behavior_values_taken:
  assumes "opaque \<noteq> Err EINVAL"
  shows "param \<in> snd ` set behavior_values \<longleftrightarrow> fst (pressed True opaque param st) \<noteq> Err EINVAL"
  using assms by (auto simp: behavior_values_def pressed_def zmk_ble_mouse_pair_def)

lemma behavior_times:
  "PAIR_TIME_MS = 60 * 1000"
  "started st \<Longrightarrow> snd (pressed True opaque MOUSE_CLEAR st) = schedule CLEAR_WORK (2 * 1000) (st\<lparr>clear_held := True\<rparr>)"
  by (simp_all add: PAIR_TIME_MS_def pressed_def zmk_ble_mouse_clear_hold_def MOUSE_PAIR_def MOUSE_CLEAR_def)

section \<open>Steps\<close>

text \<open>
  The GATT request in progress, from the history: the last accepted discovery, read, write or
  subscription, unless the host has finished with it (\<open>Gatt_Done\<close>) or a new connection was
  opened since.
\<close>

fun gatt_request :: "'c client_call \<Rightarrow> bool" where
  "gatt_request (Gatt_Discover _ _) = True"
| "gatt_request (Gatt_Read _ _) = True"
| "gatt_request (Gatt_Write _ _) = True"
| "gatt_request (Gatt_Subscribe _ _ _ _) = True"
| "gatt_request _ = False"

fun gatt_ended :: "'c client_call \<Rightarrow> bool" where
  "gatt_ended Gatt_Done = True"
| "gatt_ended (Set_Auto_Conn _ on) = on"
| "gatt_ended _ = False"

fun outstanding :: "'c host \<Rightarrow> 'c client_call list \<Rightarrow> 'c client_call option" where
  "outstanding H [] = None"
| "outstanding H (c # cs) =
     (if gatt_ended c then None
      else if gatt_request c \<and> answer H (c # cs) = ok then Some c
      else outstanding H cs)"

text \<open>Whether the last \<open>bt_le_set_auto_conn\<close> left automatic connection on.\<close>

fun auto_connecting :: "'c client_call list \<Rightarrow> bool" where
  "auto_connecting [] = False"
| "auto_connecting (c # cs) = (case c of Set_Auto_Conn _ on \<Rightarrow> on | _ \<Rightarrow> auto_connecting cs)"

text \<open>Whether a work item was submitted or scheduled and not run or cancelled since.\<close>

fun queues :: "work_item \<Rightarrow> 'c client_call \<Rightarrow> bool" where
  "queues w (Submit v) = (v = w)"
| "queues w (Schedule v _) = (v = w)"
| "queues w _ = False"

fun dequeues :: "work_item \<Rightarrow> 'c client_call \<Rightarrow> bool" where
  "dequeues w (Ran v) = (v = w)"
| "dequeues w (Cancel v) = (v = w)"
| "dequeues w _ = False"

fun pending_work :: "work_item \<Rightarrow> 'c client_call list \<Rightarrow> bool" where
  "pending_work w [] = False"
| "pending_work w (c # cs) = (if queues w c then True else if dequeues w c then False else pending_work w cs)"

text \<open>The work queue takes up an item.\<close>

definition run_work :: "'c host \<Rightarrow> work_item \<Rightarrow> 'c client \<Rightarrow> 'c client" where
  "run_work H w st =
     (let st = log_call (Ran w) st
      in case w of
           DISCOVERY_WORK \<Rightarrow> discovery_work_cb H st
         | FAILURE_WORK \<Rightarrow> failure_work_cb H st
         | RETRY_WORK \<Rightarrow> retry_work_cb H st
         | TIMEOUT_WORK \<Rightarrow> timeout_work_cb st
         | PAIR_TIMEOUT \<Rightarrow> pair_timeout_cb H st
         | CONNECTED_WORK \<Rightarrow> connected_work_cb H st
         | DISCONNECTED_WORK \<Rightarrow> disconnected_work_cb H st
         | PAIR_WORK \<Rightarrow> pair_work_cb H st
         | CLEAR_WORK \<Rightarrow> clear_work_cb H st)"

datatype 'c client_op =
    Run work_item | Connect bt_addr_le | Advertisement bt_addr_le adv_type "(ad_type \<times> u8 list) list"
  | Connected 'c u8 | Disconnected 'c | Security_Changed 'c nat bool | Pairing_Complete 'c bool
  | Pairing_Failed 'c | Discovered 'c "gatt_attr option" | Read_Reply 'c bool "u8 list option"
  | Written 'c bool | Subscribed 'c bool nat | Notified "'c option" nat "u8 list option"
  | Stored_Peer string nat "nat \<Rightarrow> errno + u8 list" | Start | Key_Pressed nat | Key_Released nat | Passage

text \<open>
  The steps of the client with its host. A work item runs when it is pending; the scan coordinator
  connects to addresses it was given; the host reports any connection, but that of the mouse only while
  it was told to connect to it automatically, answers
  the request in progress on its connection (and is done with it on an error, at the end, or when told
  to stop), and notifies for reports of the session; settings are loaded before the start.
\<close>

inductive client_step :: "'c host \<Rightarrow> 'c client \<Rightarrow> 'c client_op \<Rightarrow> 'c client \<Rightarrow> bool" for H :: "'c host" where
  run: "pending_work w (calls st) \<Longrightarrow> client_step H st (Run w) (run_work H w st)"
| connect: "Central_Connect a \<in> set (calls st) \<Longrightarrow> connect_mouse H a st = (e, st') \<Longrightarrow>
    client_step H st (Connect a) st'"
| advertisement: "zmk_ble_mouse_advertisement H a ty ad st = (b, st') \<Longrightarrow>
    client_step H st (Advertisement a ty ad) st'"
| connected: "(owns st (Some c) \<Longrightarrow> auto_connecting (calls st)) \<Longrightarrow>
    client_step H st (Connected c e) (connected_cb H c e st)"
| disconnected: "owns st (Some c) \<Longrightarrow>
    client_step H st (Disconnected c) (log_call Gatt_Done (disconnected_cb c st))"
| security: "client_step H st (Security_Changed c level e) (security_cb c level e st)"
| pairing_complete: "client_step H st (Pairing_Complete c b) (pairing_complete_cb c b st)"
| pairing_failed: "client_step H st (Pairing_Failed c) (pairing_failed_cb c st)"
| discovered: "outstanding H (calls st) = Some (Gatt_Discover c k) \<Longrightarrow>
    discover_cb (Some c) attr st = (it, st') \<Longrightarrow>
    client_step H st (Discovered c attr)
      (if attr = None \<or> it = BT_GATT_ITER_STOP then log_call Gatt_Done st' else st')"
| read_reply: "outstanding H (calls st) = Some (Gatt_Read c h) \<Longrightarrow>
    read_cb (Some c) e data st = (it, st') \<Longrightarrow>
    client_step H st (Read_Reply c e data)
      (if e \<or> data = None \<or> it = BT_GATT_ITER_STOP then log_call Gatt_Done st' else st')"
| written: "outstanding H (calls st) = Some (Gatt_Write c h) \<Longrightarrow>
    client_step H st (Written c e) (log_call Gatt_Done (written_cb (Some c) e st))"
| subscribed: "outstanding H (calls st) = Some (Gatt_Subscribe c i h h') \<Longrightarrow>
    client_step H st (Subscribed c e i) (log_call Gatt_Done (subscribed_cb (Some c) e i st))"
| notified: "i < length (reports (session st)) \<Longrightarrow> notify_cb c i data st = (it, st') \<Longrightarrow>
    client_step H st (Notified c i data) st'"
| stored_peer: "\<not> started st \<Longrightarrow> settings_set name len rd st = (e, st') \<Longrightarrow>
    client_step H st (Stored_Peer name len rd) st'"
| start: "ble_mouse_settings_commit st = (e, st') \<Longrightarrow> client_step H st Start st'"
| key_pressed: "pressed True ok param st = (e, st') \<Longrightarrow> client_step H st (Key_Pressed param) st'"
| key_released: "released True ok param st = (e, st') \<Longrightarrow> client_step H st (Key_Released param) st'"
| passage: "client_step H st Passage (log_call Tick st)"

inductive_cases client_stepE: "client_step H st oper st'"

inductive client_trace :: "'c host \<Rightarrow> 'c client_op list \<Rightarrow> 'c client \<Rightarrow> bool" for H :: "'c host" where
  boot: "client_trace H [] client_boot"
| step: "client_trace H ops st \<Longrightarrow> client_step H st oper st' \<Longrightarrow> client_trace H (ops @ [oper]) st'"

end
