(* ===== verification/Ble_Client_Inv.thy ===== *)
theory Ble_Client_Inv
  imports Ble_Discovery
begin

text \<open>
  Invariants of the BLE client over all its steps: the state of the link, the discipline of GATT
  requests, and the bounds of the session data.
\<close>

section \<open>Reading the primitives\<close>

lemma log_call_simps [simp]:
  "session (log_call c st) = session st" "mouse_conn (log_call c st) = mouse_conn st"
  "connected_event_conn (log_call c st) = connected_event_conn st"
  "connecting_address (log_call c st) = connecting_address st" "peer (log_call c st) = peer st"
  "have_peer (log_call c st) = have_peer st" "pairing (log_call c st) = pairing st"
  "scan_wanted (log_call c st) = scan_wanted st" "stage (log_call c st) = stage st"
  "failure (log_call c st) = failure st" "clear_held (log_call c st) = clear_held st"
  "started (log_call c st) = started st" "forget_requested (log_call c st) = forget_requested st"
  "candidate_bonded (log_call c st) = candidate_bonded st"
  "new_candidate (log_call c st) = new_candidate st"
  "connected_error (log_call c st) = connected_error st" "retry_ms (log_call c st) = retry_ms st"
  "advertisers (log_call c st) = advertisers st" "out_of_bounds (log_call c st) = out_of_bounds st"
  "calls (log_call c st) = c # calls st"
  by (simp_all add: log_call_def)

lemma fail_simps [simp]:
  "session (fail e st) = session st" "mouse_conn (fail e st) = mouse_conn st"
  "connected_event_conn (fail e st) = connected_event_conn st"
  "connecting_address (fail e st) = connecting_address st" "peer (fail e st) = peer st"
  "have_peer (fail e st) = have_peer st" "pairing (fail e st) = pairing st"
  "scan_wanted (fail e st) = scan_wanted st" "stage (fail e st) = stage st"
  "failure (fail e st) = (if failure st = ok then if e \<noteq> ok then e else Err EIO else failure st)"
  "clear_held (fail e st) = clear_held st" "started (fail e st) = started st"
  "forget_requested (fail e st) = forget_requested st"
  "candidate_bonded (fail e st) = candidate_bonded st"
  "new_candidate (fail e st) = new_candidate st" "connected_error (fail e st) = connected_error st"
  "retry_ms (fail e st) = retry_ms st" "advertisers (fail e st) = advertisers st"
  "out_of_bounds (fail e st) = out_of_bounds st"
  "calls (fail e st) = Submit FAILURE_WORK # calls st"
  by (simp_all add: fail_def)

lemma next_stage_simps [simp]:
  "session (next_stage s st) = session st" "mouse_conn (next_stage s st) = mouse_conn st"
  "connected_event_conn (next_stage s st) = connected_event_conn st"
  "connecting_address (next_stage s st) = connecting_address st" "peer (next_stage s st) = peer st"
  "have_peer (next_stage s st) = have_peer st" "pairing (next_stage s st) = pairing st"
  "scan_wanted (next_stage s st) = scan_wanted st" "stage (next_stage s st) = s"
  "failure (next_stage s st) = failure st" "clear_held (next_stage s st) = clear_held st"
  "started (next_stage s st) = started st"
  "forget_requested (next_stage s st) = forget_requested st"
  "candidate_bonded (next_stage s st) = candidate_bonded st"
  "new_candidate (next_stage s st) = new_candidate st"
  "connected_error (next_stage s st) = connected_error st"
  "retry_ms (next_stage s st) = retry_ms st" "advertisers (next_stage s st) = advertisers st"
  "out_of_bounds (next_stage s st) = out_of_bounds st"
  "calls (next_stage s st) = Submit DISCOVERY_WORK # calls st"
  by (simp_all add: next_stage_def)

lemma request_retry_simps [simp]:
  "session (request_retry st) = session st" "mouse_conn (request_retry st) = mouse_conn st"
  "connected_event_conn (request_retry st) = connected_event_conn st"
  "connecting_address (request_retry st) = connecting_address st"
  "peer (request_retry st) = peer st" "have_peer (request_retry st) = have_peer st"
  "pairing (request_retry st) = pairing st" "scan_wanted (request_retry st) = False"
  "stage (request_retry st) = stage st" "failure (request_retry st) = failure st"
  "clear_held (request_retry st) = clear_held st" "started (request_retry st) = started st"
  "forget_requested (request_retry st) = forget_requested st"
  "candidate_bonded (request_retry st) = candidate_bonded st"
  "new_candidate (request_retry st) = new_candidate st"
  "connected_error (request_retry st) = connected_error st"
  "retry_ms (request_retry st) = min (retry_ms st * 2) 16000"
  "advertisers (request_retry st) = advertisers st"
  "out_of_bounds (request_retry st) = out_of_bounds st"
  "calls (request_retry st) = Schedule RETRY_WORK (unat (retry_ms st)) # Scan_Refresh # calls st"
  by (simp_all add: request_retry_def Let_def)

lemma perform_eq: "perform H c st = (answer H (c # calls st), log_call c st)"
  by (simp add: perform_def)

text \<open>The parts of the state that only connecting, disconnecting, pairing and forgetting change.\<close>

definition same_link :: "'c client \<Rightarrow> 'c client \<Rightarrow> bool" where
  "same_link st st' \<longleftrightarrow> mouse_conn st' = mouse_conn st \<and> connected_event_conn st' = connected_event_conn st \<and>
     connecting_address st' = connecting_address st \<and> peer st' = peer st \<and> have_peer st' = have_peer st \<and>
     pairing st' = pairing st \<and> scan_wanted st' = scan_wanted st \<and> clear_held st' = clear_held st \<and>
     started st' = started st \<and> forget_requested st' = forget_requested st \<and>
     candidate_bonded st' = candidate_bonded st \<and> new_candidate st' = new_candidate st \<and>
     retry_ms st' = retry_ms st \<and> advertisers st' = advertisers st"

lemma same_link_refl [simp]: "same_link st st"
  by (simp add: same_link_def)

lemma same_link_updates [simp]: "same_link st (fail e st)" "same_link st (next_stage s st)"
  "same_link st (st\<lparr>session := x\<rparr>)" "same_link st (fail e (st\<lparr>session := x\<rparr>))"
  "same_link st (next_stage s (st\<lparr>session := x\<rparr>))"
  by (simp_all add: same_link_def)

lemma discover_link: "discover_cb conn attr st = (it, st') \<Longrightarrow> same_link st st'"
  by (cases "stage st") (auto simp: discover_cb_def Let_def split: option.splits if_splits)

lemma read_link: "read_cb conn e data st = (it, st') \<Longrightarrow> same_link st st'"
  by (auto simp: read_cb_def same_link_def Let_def split: option.splits if_splits)

lemma notify_link: "notify_cb conn i data st = (it, st') \<Longrightarrow> same_link st st'"
  by (auto simp: notify_cb_def same_link_def Let_def
      split: option.splits if_splits prod.splits cret.splits nat.splits)

lemma written_link: "same_link st (written_cb conn e st)"
  by (simp add: written_cb_def same_link_def)

lemma subscribed_link: "same_link st (subscribed_cb conn e i st)"
  by (simp add: subscribed_cb_def same_link_def Let_def)

section \<open>The link\<close>

definition ready_session :: "session \<Rightarrow> bool" where
  "ready_session s \<longleftrightarrow> subscribed s \<noteq> 0 \<and> covered_buttons s = 0x1f \<and> covered_axes s = 0x0f"

definition backoff :: "u32 set" where
  "backoff = {1000, 2000, 4000, 8000, 16000}"

definition link_inv :: "'c client \<Rightarrow> bool" where
  "link_inv st \<longleftrightarrow>
     (mouse_conn st = None \<longleftrightarrow> stage st = IDLE) \<and>
     (mouse_conn st = None \<longrightarrow> failure st = ok) \<and>
     (scan_wanted st \<longrightarrow> mouse_conn st = None) \<and>
     (mouse_conn st \<noteq> None \<longrightarrow> new_candidate st = (\<not> have_peer st)) \<and>
     retry_ms st \<in> backoff \<and>
     (stage st = READY \<longrightarrow> ready_session (session st) \<and> have_peer st)"

lemma backoff_simps [simp]: "1000 \<in> backoff" "r \<in> backoff \<Longrightarrow> min (r * 2) 16000 \<in> backoff"
  by (auto simp: backoff_def min_def)

lemma link_inv_boot: "link_inv client_boot"
  by (simp add: link_inv_def client_boot_def)

lemma link_log [simp]: "link_inv (log_call c st) = link_inv st"
  by (simp add: link_inv_def)

lemma link_fail: "link_inv st \<Longrightarrow> mouse_conn st \<noteq> None \<Longrightarrow> link_inv (fail e st)"
  by (auto simp: link_inv_def)

lemma link_next: "link_inv st \<Longrightarrow> mouse_conn st \<noteq> None \<Longrightarrow> s \<noteq> IDLE \<Longrightarrow> s \<noteq> READY \<Longrightarrow> link_inv (next_stage s st)"
  by (auto simp: link_inv_def)

lemma link_stage:
  "link_inv st \<Longrightarrow> mouse_conn st \<noteq> None \<Longrightarrow> s \<noteq> IDLE \<Longrightarrow> s \<noteq> READY \<Longrightarrow> link_inv (st\<lparr>stage := s\<rparr>)"
  by (auto simp: link_inv_def)

lemma link_session:
  "link_inv st \<Longrightarrow> stage st \<noteq> READY \<or> ready_session s \<Longrightarrow> link_inv (st\<lparr>session := s\<rparr>)"
  by (auto simp: link_inv_def)

lemma link_oob [simp]: "link_inv (st\<lparr>out_of_bounds := b\<rparr>) = link_inv st"
  by (simp add: link_inv_def)

lemma valid_conn: "valid_callback st conn \<Longrightarrow> mouse_conn st \<noteq> None"
  unfolding valid_callback_def owns_def by metis

lemma link_cong:
  assumes "link_inv st"
    and "mouse_conn st' = mouse_conn st" "stage st' = stage st" "failure st' = failure st" "have_peer st' = have_peer st"
      "new_candidate st' = new_candidate st" "retry_ms st' = retry_ms st" "session st' = session st"
    and "scan_wanted st' \<Longrightarrow> scan_wanted st \<or> mouse_conn st = None"
  shows "link_inv st'"
  using assms(1,9) unfolding link_inv_def assms(2-8) by blast

lemma retry_simps [simp]:
  "mouse_conn (retry_work_cb H st) = mouse_conn st" "stage (retry_work_cb H st) = stage st"
  "failure (retry_work_cb H st) = failure st" "have_peer (retry_work_cb H st) = have_peer st"
  "new_candidate (retry_work_cb H st) = new_candidate st" "retry_ms (retry_work_cb H st) = retry_ms st"
  "session (retry_work_cb H st) = session st"
  "peer (retry_work_cb H st) = peer st" "candidate_bonded (retry_work_cb H st) = candidate_bonded st"
  "forget_requested (retry_work_cb H st) = forget_requested st" "clear_held (retry_work_cb H st) = clear_held st"
  "started (retry_work_cb H st) = started st" "connecting_address (retry_work_cb H st) = connecting_address st"
  "advertisers (retry_work_cb H st) = advertisers st" "pairing (retry_work_cb H st) = pairing st"
  by (simp_all add: retry_work_cb_def Let_def split: if_splits)

lemma retry_wanted: "scan_wanted (retry_work_cb H st) \<Longrightarrow> mouse_conn st = None"
  by (simp add: retry_work_cb_def Let_def split: if_splits)

lemma link_retry: "link_inv st \<Longrightarrow> link_inv (retry_work_cb H st)"
  by (rule link_cong) (auto dest: retry_wanted)

lemma link_request_retry: "link_inv st \<Longrightarrow> link_inv (request_retry st)"
  by (auto simp: link_inv_def)

lemma forget_simps [simp]:
  "mouse_conn (forget_peer H st) = mouse_conn st" "stage (forget_peer H st) = stage st"
  "failure (forget_peer H st) = failure st" "new_candidate (forget_peer H st) = new_candidate st"
  "retry_ms (forget_peer H st) = retry_ms st" "session (forget_peer H st) = session st"
  "\<not> scan_wanted (forget_peer H st)" "\<not> forget_requested (forget_peer H st)"
  "candidate_bonded (forget_peer H st) = candidate_bonded st" "peer (forget_peer H st) = peer st"
  "started (forget_peer H st) = started st" "clear_held (forget_peer H st) = clear_held st"
  "connecting_address (forget_peer H st) = connecting_address st"
  "advertisers (forget_peer H st) = advertisers st" "\<not> pairing (forget_peer H st)"
  by (simp_all add: forget_peer_def Let_def perform_eq split: if_splits)

lemma forget_have_peer: "have_peer (forget_peer H st) \<Longrightarrow> have_peer st"
  by (simp add: forget_peer_def Let_def perform_eq split: if_splits)

lemma link_forget: "link_inv st \<Longrightarrow> mouse_conn st = None \<Longrightarrow> link_inv (forget_peer H st)"
  by (auto simp: link_inv_def)

lemma link_after_close: "link_inv st \<Longrightarrow> mouse_conn st = None \<Longrightarrow> link_inv (after_close H st)"
  by (simp add: after_close_def link_request_retry link_forget)

lemma release_simps [simp]:
  "mouse_conn (release_mouse H c st) = None" "stage (release_mouse H c st) = IDLE"
  "failure (release_mouse H c st) = ok" "scan_wanted (release_mouse H c st) = scan_wanted st"
  "retry_ms (release_mouse H c st) = retry_ms st" "session (release_mouse H c st) = session st"
  "have_peer (release_mouse H c st) = have_peer st" "peer (release_mouse H c st) = peer st"
  "new_candidate (release_mouse H c st) = new_candidate st" "started (release_mouse H c st) = started st"
  "forget_requested (release_mouse H c st) = forget_requested st"
  "out_of_bounds (release_mouse H c st) = out_of_bounds st" "pairing (release_mouse H c st) = pairing st"
  "\<not> candidate_bonded (release_mouse H c st)"
  by (simp_all add: release_mouse_def Let_def)

lemma link_release: "link_inv st \<Longrightarrow> link_inv (release_mouse H c st)"
  by (auto simp: link_inv_def)

lemma link_disconnected: "link_inv st \<Longrightarrow> link_inv (disconnected_work_cb H st)"
  by (simp add: disconnected_work_cb_def link_after_close link_release split: option.split)

lemma link_failure: "link_inv st \<Longrightarrow> link_inv (failure_work_cb H st)"
proof (cases "mouse_conn st")
  case None
  assume "link_inv st"
  then show ?thesis using None by (auto simp: failure_work_cb_def Let_def link_inv_def)
next
  case (Some c)
  assume "link_inv st"
  then have "link_inv (log_call (Disconnect_Conn c) (st\<lparr>stage := CLOSING, scan_wanted := False\<rparr>))"
    using Some by (auto simp: link_inv_def)
  then show ?thesis using Some
    by (simp add: failure_work_cb_def Let_def perform_eq link_disconnected del: link_log)
qed

lemma link_timeout: "link_inv st \<Longrightarrow> link_inv (timeout_work_cb st)"
  by (simp add: timeout_work_cb_def link_fail)

lemma link_pair_timeout:
  assumes "link_inv st"
  shows "link_inv (pair_timeout_cb H st)"
proof -
  have inv: "link_inv (st\<lparr>pairing := False\<rparr>)" using assms by (auto simp: link_inv_def)
  then have "mouse_conn st \<noteq> None \<Longrightarrow> link_inv (fail (Err ETIMEDOUT) (st\<lparr>pairing := False\<rparr>))"
    by (intro link_fail) simp_all
  with inv show ?thesis by (auto simp: pair_timeout_cb_def Let_def intro!: link_retry)
qed

subsection \<open>Callbacks that overtake a call\<close>

text \<open>The calls that such callbacks make.\<close>

fun plain :: "'c client_call \<Rightarrow> bool" where
  "plain (Take_Ref _) = True"
| "plain (Submit w) = (w \<in> {CONNECTED_WORK, DISCOVERY_WORK, FAILURE_WORK, DISCONNECTED_WORK})"
| "plain _ = False"

lemma pending_plain [simp]:
  "list_all plain new \<Longrightarrow> pending_work w (new @ cs) \<longleftrightarrow> Submit w \<in> set new \<or> pending_work w cs"
proof (induction new)
  case (Cons x new)
  then show ?case by (cases x) auto
qed simp

lemma outstanding_plain [simp]: "list_all plain new \<Longrightarrow> outstanding H (new @ cs) = outstanding H cs"
proof (induction new)
  case (Cons x new)
  then show ?case by (cases x) auto
qed simp

lemma auto_plain [simp]: "list_all plain new \<Longrightarrow> auto_connecting (new @ cs) = auto_connecting cs"
proof (induction new)
  case (Cons x new)
  then show ?case by (cases x) auto
qed simp

lemma early_connections_shape:
  obtains new ev er where
    "early_connections H st = st\<lparr>connected_event_conn := ev, connected_error := er, calls := new @ calls st\<rparr>"
    "list_all plain new" "ev = connected_event_conn st \<or> (\<exists>c. ev = Some c \<and> Take_Ref c \<in> set new)"
proof -
  define shape where "shape s \<longleftrightarrow> (\<exists>new ev er. s = st\<lparr>connected_event_conn := ev, connected_error := er, calls := new @ calls st\<rparr> \<and>
     list_all plain new \<and> (ev = connected_event_conn st \<or> (\<exists>c. ev = Some c \<and> Take_Ref c \<in> set new)))" for s
  have "shape (connected_cb H c e s)" if sh: "shape s" for c e s
  proof -
    obtain new ev er where s: "s = st\<lparr>connected_event_conn := ev, connected_error := er, calls := new @ calls st\<rparr>"
      "list_all plain new" using sh unfolding shape_def by blast
    have "connected_cb H c e s = s \<or> connected_cb H c e s = st\<lparr>connected_event_conn := Some c, connected_error := e,
        calls := (Submit CONNECTED_WORK # Take_Ref c # new) @ calls st\<rparr>"
      by (simp add: connected_cb_def s(1) log_call_def)
    moreover have "shape (st\<lparr>connected_event_conn := Some c, connected_error := e,
        calls := (Submit CONNECTED_WORK # Take_Ref c # new) @ calls st\<rparr>)"
      unfolding shape_def using s(2) by (intro exI conjI) (rule refl, simp_all)
    ultimately show ?thesis using sh by metis
  qed
  then have "shape (fold (\<lambda>(c, e). connected_cb H c e) evs s)" if "shape s" for evs s
    using that by (induction evs arbitrary: s) auto
  moreover have "shape st" unfolding shape_def
    by (intro exI [of _ "[]"] exI [of _ "connected_event_conn st"] exI [of _ "connected_error st"]) simp
  ultimately have "shape (early_connections H st)" unfolding early_connections_def .
  then show thesis using that unfolding shape_def by blast
qed

text \<open>What \<open>start_security\<close> comes to, with the callbacks during it.\<close>

definition secured_shape :: "'c \<Rightarrow> 'c client \<Rightarrow> client_stage \<Rightarrow> cret \<Rightarrow> bool \<Rightarrow> 'c client_call list \<Rightarrow> 'c client" where
  "secured_shape c st sg f sw new =
     st\<lparr>stage := sg, failure := f, scan_wanted := sw, calls := new @ Set_Security c # calls st\<rparr>"

lemma shape_simps [simp]:
  "session (secured_shape c st sg f sw new) = session st" "mouse_conn (secured_shape c st sg f sw new) = mouse_conn st"
  "connected_event_conn (secured_shape c st sg f sw new) = connected_event_conn st"
  "connecting_address (secured_shape c st sg f sw new) = connecting_address st"
  "peer (secured_shape c st sg f sw new) = peer st" "have_peer (secured_shape c st sg f sw new) = have_peer st"
  "pairing (secured_shape c st sg f sw new) = pairing st" "scan_wanted (secured_shape c st sg f sw new) = sw"
  "stage (secured_shape c st sg f sw new) = sg" "failure (secured_shape c st sg f sw new) = f"
  "clear_held (secured_shape c st sg f sw new) = clear_held st" "started (secured_shape c st sg f sw new) = started st"
  "forget_requested (secured_shape c st sg f sw new) = forget_requested st"
  "candidate_bonded (secured_shape c st sg f sw new) = candidate_bonded st"
  "new_candidate (secured_shape c st sg f sw new) = new_candidate st"
  "connected_error (secured_shape c st sg f sw new) = connected_error st"
  "retry_ms (secured_shape c st sg f sw new) = retry_ms st" "advertisers (secured_shape c st sg f sw new) = advertisers st"
  "out_of_bounds (secured_shape c st sg f sw new) = out_of_bounds st"
  "calls (secured_shape c st sg f sw new) = new @ Set_Security c # calls st"
  by (simp_all add: secured_shape_def)

definition secured_by :: "'c \<Rightarrow> 'c client \<Rightarrow> 'c client \<Rightarrow> bool" where
  "secured_by c st s \<longleftrightarrow> (\<exists>sg f sw new. s = secured_shape c st sg f sw new \<and> list_all plain new \<and>
     (sg = SECURITY \<or> sg = SERVICE \<and> Submit DISCOVERY_WORK \<in> set new \<or> sg = CLOSING \<and> Submit DISCONNECTED_WORK \<in> set new) \<and>
     Submit CONNECTED_WORK \<notin> set new \<and> (f = failure st \<or> f \<noteq> ok) \<and> (sw \<longrightarrow> scan_wanted st))"

lemma secured_fail: "secured_by c st s \<Longrightarrow> secured_by c st (fail e s)"
proof -
  assume "secured_by c st s"
  then obtain sg f sw new where s: "s = secured_shape c st sg f sw new" "list_all plain new"
      "sg = SECURITY \<or> sg = SERVICE \<and> Submit DISCOVERY_WORK \<in> set new \<or> sg = CLOSING \<and> Submit DISCONNECTED_WORK \<in> set new"
      "Submit CONNECTED_WORK \<notin> set new" "f = failure st \<or> f \<noteq> ok" "sw \<longrightarrow> scan_wanted st"
    unfolding secured_by_def by blast
  have "fail e s = secured_shape c st sg (if f = ok then (if e \<noteq> ok then e else Err EIO) else f) sw (Submit FAILURE_WORK # new)"
    by (simp add: s(1) fail_def secured_shape_def log_call_def)
  then show ?thesis unfolding secured_by_def using s(2-) by (intro exI conjI) (assumption, auto)
qed

lemma secured_service:
  assumes "secured_by c st s" and "stage s = SECURITY"
  shows "secured_by c st (submit DISCOVERY_WORK (s\<lparr>stage := SERVICE\<rparr>))"
proof -
  obtain sg f sw new where s: "s = secured_shape c st sg f sw new" "list_all plain new"
      "Submit CONNECTED_WORK \<notin> set new" "f = failure st \<or> f \<noteq> ok" "sw \<longrightarrow> scan_wanted st"
    using assms(1) unfolding secured_by_def by blast
  have "submit DISCOVERY_WORK (s\<lparr>stage := SERVICE\<rparr>) = secured_shape c st SERVICE f sw (Submit DISCOVERY_WORK # new)"
    by (simp add: s(1) secured_shape_def log_call_def)
  then show ?thesis unfolding secured_by_def using s(2-) by (intro exI conjI) (assumption, auto)
qed

lemma secured_deliver:
  assumes "secured_by c st s"
  shows "secured_by c st (deliver ev s)"
proof (cases ev)
  case (Secured d level e)
  then show ?thesis using assms secured_fail [OF assms] secured_service [OF assms] by (simp add: security_cb_def)
next
  case (Unpaired d)
  then show ?thesis using assms secured_fail [OF assms] by (simp add: pairing_failed_cb_def)
next
  case (Lost d)
  obtain sg f sw new where s: "s = secured_shape c st sg f sw new" "list_all plain new"
      "Submit CONNECTED_WORK \<notin> set new" "f = failure st \<or> f \<noteq> ok"
    using assms unfolding secured_by_def by blast
  have "submit DISCONNECTED_WORK (s\<lparr>stage := CLOSING, scan_wanted := False\<rparr>) =
      secured_shape c st CLOSING f False (Submit DISCONNECTED_WORK # new)"
    by (simp add: s(1) secured_shape_def log_call_def)
  then have "secured_by c st (submit DISCONNECTED_WORK (s\<lparr>stage := CLOSING, scan_wanted := False\<rparr>))"
    unfolding secured_by_def using s(2-) by (intro exI conjI) (assumption, auto)
  then show ?thesis using assms Lost by (simp add: disconnected_cb_def)
qed

lemma start_security_shape: "secured_by c st (start_security H c st)"
proof -
  define s1 where "s1 = log_call (Set_Security c) (st\<lparr>stage := SECURITY\<rparr>)"
  have "s1 = secured_shape c st SECURITY (failure st) (scan_wanted st) []"
    by (simp add: s1_def secured_shape_def log_call_def)
  then have "secured_by c st s1" unfolding secured_by_def by (intro exI conjI) (assumption, auto)
  then have "secured_by c st (fold deliver evs s1)" for evs
    by (induction evs rule: rev_induct) (simp_all add: secured_deliver)
  then have "secured_by c st (early_security H s1)" unfolding early_security_def .
  then show ?thesis by (simp add: start_security_def perform_eq secured_fail secured_service Let_def flip: s1_def)
qed

lemma security_cases:
  obtains sg f sw new where "start_security H c st = secured_shape c st sg f sw new" "list_all plain new"
    "sg = SECURITY \<or> sg = SERVICE \<and> Submit DISCOVERY_WORK \<in> set new \<or> sg = CLOSING \<and> Submit DISCONNECTED_WORK \<in> set new"
    "Submit CONNECTED_WORK \<notin> set new" "f = failure st \<or> f \<noteq> ok" "sw \<Longrightarrow> scan_wanted st"
  using start_security_shape [of c st H] that unfolding secured_by_def by blast

lemma security_simps [simp]:
  "session (start_security H c st) = session st" "mouse_conn (start_security H c st) = mouse_conn st"
  "connected_event_conn (start_security H c st) = connected_event_conn st"
  "connecting_address (start_security H c st) = connecting_address st"
  "peer (start_security H c st) = peer st" "have_peer (start_security H c st) = have_peer st"
  "pairing (start_security H c st) = pairing st" "clear_held (start_security H c st) = clear_held st"
  "started (start_security H c st) = started st" "forget_requested (start_security H c st) = forget_requested st"
  "candidate_bonded (start_security H c st) = candidate_bonded st"
  "new_candidate (start_security H c st) = new_candidate st" "retry_ms (start_security H c st) = retry_ms st"
  "advertisers (start_security H c st) = advertisers st" "out_of_bounds (start_security H c st) = out_of_bounds st"
  "outstanding H' (calls (start_security H c st)) = outstanding H' (calls st)"
  "auto_connecting (calls (start_security H c st)) = auto_connecting (calls st)"
  "pending_work CONNECTED_WORK (calls (start_security H c st)) = pending_work CONNECTED_WORK (calls st)"
  by (cases rule: security_cases [of H c st], simp)+

subsection \<open>The outcomes of \<open>connect_mouse\<close>\<close>

text \<open>The state when \<open>bt_le_set_auto_conn\<close> returns.\<close>

definition opened :: "'c host \<Rightarrow> bt_addr_le \<Rightarrow> 'c client \<Rightarrow> 'c client" where
  "opened H a st = early_connections H (log_call (Set_Auto_Conn a True) (open_session a st))"

lemma opened_shape:
  obtains new ev er where "opened H a st = (open_session a st)\<lparr>connected_event_conn := ev, connected_error := er,
      calls := new @ Set_Auto_Conn a True # calls st\<rparr>"
    "list_all plain new" "ev = connected_event_conn st \<or> (\<exists>c. ev = Some c \<and> Take_Ref c \<in> set new)"
proof -
  let ?st = "log_call (Set_Auto_Conn a True) (open_session a st)"
  obtain new ev er where early: "opened H a st = ?st\<lparr>connected_event_conn := ev, connected_error := er, calls := new @ calls ?st\<rparr>"
    "list_all plain new" "ev = connected_event_conn ?st \<or> (\<exists>c. ev = Some c \<and> Take_Ref c \<in> set new)"
    unfolding opened_def by (rule early_connections_shape)
  show thesis by (rule that [where new = new and ev = ev and er = er]) (use early in \<open>simp_all add: log_call_def open_session_def\<close>)
qed

definition may_open :: "'c host \<Rightarrow> bt_addr_le \<Rightarrow> 'c client \<Rightarrow> bool" where
  "may_open H a st \<longleftrightarrow> mouse_conn st = None \<and> scan_wanted st \<and>
     (have_peer st \<longrightarrow> a = peer st) \<and>
     (\<not> have_peer st \<longrightarrow> pairing st \<and> \<not> is_bonded H st a \<and> bond_count H st < max_paired H)"

lemma connect_opened:
  assumes "may_open H a st"
  shows "connect_mouse H a st =
    (let (err, st) =
       (if answer H (Set_Auto_Conn a True # calls st) = ok
        then (case lookup_addr H (calls (opened H a st)) a of
                Some c \<Rightarrow> (ok, (log_call (Take_Ref c) (opened H a st))\<lparr>mouse_conn := Some c\<rparr>)
              | None \<Rightarrow> (Err ENOTCONN, log_call (Set_Auto_Conn a False) (opened H a st)))
        else (answer H (Set_Auto_Conn a True # calls st), opened H a st))
     in if err \<noteq> ok then (err, request_retry (st\<lparr>stage := IDLE\<rparr>))
        else (ok, schedule TIMEOUT_WORK DISCOVERY_TIME_MS st))"
proof -
  have guards: "(mouse_conn st \<noteq> None \<or> \<not> scan_wanted st) = False"
    "((have_peer st \<and> a \<noteq> peer st) \<or> (\<not> have_peer st \<and> \<not> pairing st)) = False"
    "(\<not> have_peer st \<and> is_bonded H st a) = False"
    "(\<not> have_peer st \<and> max_paired H \<le> bond_count H st) = False"
    using assms by (auto simp: may_open_def)
  have "calls (open_session a st) = calls st" by (simp add: open_session_def)
  then show ?thesis
    by (simp only: connect_mouse_def Let_def perform_eq guards if_False prod.case opened_def)
qed

lemma connect_refused:
  assumes "\<not> may_open H a st" and "connect_mouse H a st = (e, st')"
  shows "st' = st \<and> e \<noteq> ok \<or>
    st' = st\<lparr>pairing := False, scan_wanted := False\<rparr> \<and> e = Err ENOMEM \<and> mouse_conn st = None \<and> \<not> have_peer st"
proof (cases "mouse_conn st = None \<and> \<not> have_peer st \<and> max_paired H \<le> bond_count H st \<and> \<not> is_bonded H st a \<and>
    pairing st \<and> scan_wanted st")
  case True
  then show ?thesis using assms(2) by (auto simp: connect_mouse_def Let_def)
next
  case False
  then have "mouse_conn st \<noteq> None \<or> \<not> scan_wanted st \<or> (have_peer st \<and> a \<noteq> peer st) \<or> (\<not> have_peer st \<and> \<not> pairing st) \<or>
      (\<not> have_peer st \<and> is_bonded H st a)"
    using assms(1) by (auto simp: may_open_def)
  then show ?thesis using assms(2) by (auto simp: connect_mouse_def Let_def split: if_splits)
qed

lemma connect_cases:
  assumes "connect_mouse H a st = (e, st')"
  obtains (refused) "st' = st" "e \<noteq> ok"
    | (full) "st' = st\<lparr>pairing := False, scan_wanted := False\<rparr>" "e = Err ENOMEM" "mouse_conn st = None" "\<not> have_peer st"
    | (failed) cs new ev er where "mouse_conn st = None" "scan_wanted st" "have_peer st \<Longrightarrow> a = peer st"
        "cs = [] \<or> cs = [Set_Auto_Conn a False]" "list_all plain new"
        "ev = connected_event_conn st \<or> (\<exists>c. ev = Some c \<and> Take_Ref c \<in> set new)"
        "st' = request_retry ((open_session a st)\<lparr>stage := IDLE, connected_event_conn := ev, connected_error := er,
           calls := cs @ new @ Set_Auto_Conn a True # calls st\<rparr>)" "e \<noteq> ok"
    | (dialled) c new ev er where "mouse_conn st = None" "scan_wanted st" "have_peer st \<Longrightarrow> a = peer st"
        "\<not> have_peer st \<Longrightarrow> pairing st \<and> \<not> is_bonded H st a \<and> bond_count H st < max_paired H"
        "list_all plain new" "ev = connected_event_conn st \<or> (\<exists>c. ev = Some c \<and> Take_Ref c \<in> set new)"
        "st' = (open_session a st)\<lparr>mouse_conn := Some c, connected_event_conn := ev, connected_error := er,
           calls := [Schedule TIMEOUT_WORK DISCOVERY_TIME_MS, Take_Ref c] @ new @ Set_Auto_Conn a True # calls st\<rparr>" "e = ok"
proof (cases "may_open H a st")
  case False
  from connect_refused [OF False assms] show thesis
    by (elim disjE conjE) (rule refused, assumption+, rule full, assumption+)
next
  case True
  then have g: "mouse_conn st = None" "scan_wanted st" "have_peer st \<Longrightarrow> a = peer st"
    "\<not> have_peer st \<Longrightarrow> pairing st \<and> \<not> is_bonded H st a \<and> bond_count H st < max_paired H"
    by (auto simp: may_open_def)
  obtain new ev er where w: "opened H a st = (open_session a st)\<lparr>connected_event_conn := ev, connected_error := er,
      calls := new @ Set_Auto_Conn a True # calls st\<rparr>"
    "list_all plain new" "ev = connected_event_conn st \<or> (\<exists>c. ev = Some c \<and> Take_Ref c \<in> set new)"
    by (rule opened_shape)
  note run = assms [unfolded connect_opened [OF True]]
  consider "answer H (Set_Auto_Conn a True # calls st) \<noteq> ok" | "answer H (Set_Auto_Conn a True # calls st) = ok"
      "lookup_addr H (calls (opened H a st)) a = None"
    | c where "answer H (Set_Auto_Conn a True # calls st) = ok" "lookup_addr H (calls (opened H a st)) a = Some c"
    by fastforce
  then show thesis
  proof cases
    case 1
    then show thesis using run g w(2,3)
      by (intro failed [where cs = "[]" and new = new and ev = ev and er = er]) (auto simp: w(1) log_call_def open_session_def)
  next
    case 2
    then show thesis using run g w(2,3)
      by (intro failed [where cs = "[Set_Auto_Conn a False]" and new = new and ev = ev and er = er])
        (auto simp: w(1) log_call_def open_session_def)
  next
    case (3 c)
    then show thesis using run g w(2,3)
      by (intro dialled [where new = new and ev = ev and er = er and c = c]) (auto simp: w(1) log_call_def open_session_def)
  qed
qed

lemma link_connect:
  assumes "link_inv st" and "connect_mouse H a st = (e, st')"
  shows "link_inv st'"
  using assms(2)
  by (cases rule: connect_cases) (use assms(1) in \<open>auto simp: link_inv_def open_session_def\<close>)

lemma take_event_simps [simp]:
  "mouse_conn (take_event st) = mouse_conn st" "stage (take_event st) = stage st"
  "failure (take_event st) = failure st" "scan_wanted (take_event st) = scan_wanted st"
  "session (take_event st) = session st" "have_peer (take_event st) = have_peer st"
  "new_candidate (take_event st) = new_candidate st" "retry_ms (take_event st) = retry_ms st"
  "started (take_event st) = started st" "out_of_bounds (take_event st) = out_of_bounds st"
  by (simp_all add: take_event_def split: option.split)

lemma link_take [simp]: "link_inv (take_event st) = link_inv st"
  by (simp add: link_inv_def)

lemma link_complete [simp]: "link_inv (complete_connection H c st) = link_inv st"
  by (simp add: complete_connection_def)

lemma complete_simps [simp]:
  "mouse_conn (complete_connection H c st) = mouse_conn st" "stage (complete_connection H c st) = stage st"
  "failure (complete_connection H c st) = failure st"
  by (simp_all add: complete_connection_def)

lemma link_abandon: "link_inv st \<Longrightarrow> link_inv (abandon_mouse c st) \<and> mouse_conn (abandon_mouse c st) = None"
  by (auto simp: abandon_mouse_def link_inv_def)

lemma link_security:
  assumes "link_inv st" and "mouse_conn st \<noteq> None"
  shows "link_inv (start_security H c st)"
proof (cases rule: security_cases [of H c st])
  case (1 sg f sw new)
  have "sg \<noteq> IDLE" "sg \<noteq> READY" using 1(3) by auto
  moreover have "\<not> sw" using 1(6) assms by (auto simp: link_inv_def)
  ultimately show ?thesis using assms by (auto simp: 1(1) link_inv_def)
qed

lemma connected_work_none: "mouse_conn st = None \<Longrightarrow> connected_work_cb H st = take_event st"
  by (simp add: connected_work_cb_def)

lemma connected_work_some:
  assumes "mouse_conn st = Some c" and "s = complete_connection H c (take_event st)"
  shows "connected_work_cb H st =
    (if connected_error s \<noteq> 0 then after_close H (abandon_mouse c s)
     else if failure s \<noteq> ok \<or> stage s = CLOSING then fail (Err ECANCELED) s else start_security H c s)"
  using assms by (simp add: connected_work_cb_def Let_def)

lemma link_connected_work:
  assumes "link_inv st"
  shows "link_inv (connected_work_cb H st)"
proof (cases "mouse_conn st")
  case None
  then show ?thesis using assms by (simp add: connected_work_none)
next
  case (Some c)
  define s where "s = complete_connection H c (take_event st)"
  have s: "link_inv s" "mouse_conn s \<noteq> None" using assms Some by (simp_all add: s_def)
  then have "link_inv (after_close H (abandon_mouse c s))" using link_abandon [of s c] link_after_close by blast
  then show ?thesis using s by (simp add: connected_work_some [OF Some s_def] link_fail link_security)
qed

subsection \<open>GATT callbacks and discovery\<close>

lemma link_discover:
  assumes "link_inv st" and "discover_cb conn attr st = (it, st')"
  shows "link_inv st'"
proof (cases "valid_callback st conn")
  case True
  then have c: "mouse_conn st \<noteq> None" by (rule valid_conn)
  have sess: "link_inv (st\<lparr>session := s\<rparr>)" if "stage st \<noteq> READY" for s
    using link_session [OF assms(1)] that by blast
  show ?thesis
    using assms True c sess
    by (auto simp: discover_cb_def Let_def link_fail link_next split: option.splits client_stage.splits if_splits)
qed (use assms in \<open>simp add: discover_cb_def\<close>)

lemma link_read:
  assumes "link_inv st" and "read_cb conn e data st = (it, st')"
  shows "link_inv st'"
proof (cases "valid_callback st conn")
  case True
  then have c: "mouse_conn st \<noteq> None" by (rule valid_conn)
  have sess: "link_inv (st\<lparr>session := s\<rparr>)" "link_inv (st\<lparr>session := s, out_of_bounds := b\<rparr>)"
    if "stage st \<noteq> READY" for s b
    using link_session [OF assms(1)] that by (auto simp: link_inv_def)
  show ?thesis
    using assms True c sess
    by (auto simp: read_cb_def Let_def link_fail link_next split: option.splits if_splits)
qed (use assms in \<open>simp add: read_cb_def\<close>)

lemma link_notify:
  assumes "link_inv st" and "notify_cb conn i data st = (it, st')"
  shows "link_inv st'"
proof -
  have sess: "link_inv (st\<lparr>session := session st\<lparr>reports := rs\<rparr>\<rparr>)" for rs
    using assms(1) by (auto simp: link_inv_def ready_session_def)
  show ?thesis
    using assms sess valid_conn [of st conn]
    by (auto simp: notify_cb_def Let_def link_fail split: option.splits if_splits prod.splits cret.splits nat.splits)
qed

lemma link_written:
  assumes "link_inv st"
  shows "link_inv (written_cb conn e st)"
  using assms valid_conn [of st conn] by (simp add: written_cb_def link_fail link_next)

lemma cover_simps [simp]:
  "subscribed (cover_report i s) = subscribed s" "index (cover_report i s) = index s"
  "reports (cover_report i s) = reports s" "hid_map (cover_report i s) = hid_map s"
  "map_data (cover_report i s) = map_data s" "reference_data (cover_report i s) = reference_data s"
proof -
  have "subscribed (fold (cover_field ri) fs s) = subscribed s \<and> index (fold (cover_field ri) fs s) = index s \<and>
      reports (fold (cover_field ri) fs s) = reports s \<and> hid_map (fold (cover_field ri) fs s) = hid_map s \<and>
      map_data (fold (cover_field ri) fs s) = map_data s \<and>
      reference_data (fold (cover_field ri) fs s) = reference_data s" for ri fs
    by (induction fs arbitrary: s) (auto simp: cover_field_def)
  then show "subscribed (cover_report i s) = subscribed s" "index (cover_report i s) = index s"
    "reports (cover_report i s) = reports s" "hid_map (cover_report i s) = hid_map s"
    "map_data (cover_report i s) = map_data s" "reference_data (cover_report i s) = reference_data s"
    by (simp_all add: cover_report_def split: cret.split)
qed

text \<open>Subscription callbacks come before the session is ready (a hypothesis here, discharged by the GATT discipline).\<close>

lemma link_subscribed:
  assumes "link_inv st" and "valid_callback st conn \<Longrightarrow> stage st \<noteq> READY"
  shows "link_inv (subscribed_cb conn e i st)"
proof (cases "valid_callback st conn")
  case True
  have sess: "link_inv (st\<lparr>session := s\<rparr>)" "link_inv (st\<lparr>out_of_bounds := b, session := s\<rparr>)" for s b
    using link_session [OF assms(1)] assms(2) True by (auto simp: link_inv_def)
  show ?thesis using True valid_conn [OF True] assms(1) sess
    by (simp add: subscribed_cb_def Let_def link_fail)
qed (use assms in \<open>simp add: subscribed_cb_def\<close>)

lemma link_finish:
  assumes "link_inv st" and "mouse_conn st \<noteq> None"
  shows "link_inv (finish_ready H c st)"
proof -
  note fails = link_fail [OF assms] link_fail [of "log_call (Save_Peer a) st" for a]
  show ?thesis using assms fails
    by (auto simp: finish_ready_def Let_def perform_eq ready_session_def link_inv_def)
qed

lemma parse_stage_cases:
  assumes "parse_stage st = (e, st')"
  obtains m where "st' = upd_session (\<lambda>s. s\<lparr>hid_map := m\<rparr>) st"
proof -
  have same: "st = upd_session (\<lambda>s. s\<lparr>hid_map := hid_map (session st)\<rparr>) st" by simp
  show thesis
  proof (cases "m_reports (hid_map (session st)) = []")
    case False
    then have "st' = st" using assms by (simp add: parse_stage_def)
    then show thesis using same that by metis
  next
    case True
    obtain e1 om where p: "mouse_hid_parse (Some (map_data (session st))) (Some (hid_map (session st))) = (e1, om)"
      by fastforce
    show thesis
    proof (cases om)
      case None
      then have "st' = st" using assms True p by (simp add: parse_stage_def)
      then show thesis using same that by metis
    next
      case (Some m)
      then have "st' = upd_session (\<lambda>s. s\<lparr>hid_map := m\<rparr>) st"
        using assms True p by (simp add: parse_stage_def Let_def split: if_splits)
      then show thesis by (rule that)
    qed
  qed
qed

lemma subscriptions_cases:
  assumes "subscriptions_stage H c st = (e, q)"
  obtains n where "q = finish_ready H c (upd_session (index_update (\<lambda>_. n)) st)"
    | n where "q = upd_session (index_update (\<lambda>_. n)) st"
    | n i h h' where "q = log_call (Gatt_Subscribe c i h h') (upd_session (index_update (\<lambda>_. n)) st)"
proof -
  define n where "n = skip_unusable (hid_map (session st)) (drop (index (session st)) (reports (session st))) (index (session st))"
  define st1 where "st1 = upd_session (index_update (\<lambda>_. n)) st"
  define i where "i = index (session st1)"
  define l where "l = length (reports (session st1))"
  define r where "r = reports (session st1) ! i"
  have "(if i = l then (ok, finish_ready H c st1) else if l < i then (ok, st1)
      else if rc_ccc r = 0 then (Err ENOTSUP, st1)
      else (answer H (Gatt_Subscribe c i (rc_handle r) (rc_ccc r) # calls st1),
            log_call (Gatt_Subscribe c i (rc_handle r) (rc_ccc r)) st1)) = (e, q)"
    using assms unfolding subscriptions_stage_def n_def st1_def Let_def perform_eq i_def l_def r_def .
  then have "q = finish_ready H c st1 \<or> q = st1 \<or> q = log_call (Gatt_Subscribe c i (rc_handle r) (rc_ccc r)) st1"
    by (metis Pair_inject)
  then show thesis using that unfolding st1_def by blast
qed

text \<open>What a round of the discovery work does to the state, apart from calls and the session.\<close>

lemma references_link:
  assumes "references_stage H c st = (e, st')" and "link_inv st" and "mouse_conn st \<noteq> None" and "stage st \<noteq> READY"
  shows "link_inv st' \<and> mouse_conn st' = mouse_conn st"
proof -
  obtain e1 st1 where p: "parse_stage st = (e1, st1)" by fastforce
  then obtain m where st1: "st1 = upd_session (\<lambda>s. s\<lparr>hid_map := m\<rparr>) st" by (rule parse_stage_cases)
  have sess: "link_inv (st\<lparr>session := s\<rparr>)" "link_inv (st\<lparr>session := s, out_of_bounds := b\<rparr>)" for s b
    using link_session [OF assms(2)] assms(4) by (auto simp: link_inv_def)
  show ?thesis using assms(1,3) p sess
    by (auto simp: references_stage_def st1 Let_def perform_eq link_next split: if_splits)
qed

lemma protocol_link:
  assumes "protocol_stage H c st = (e, st')" and "link_inv st" and "mouse_conn st \<noteq> None"
  shows "link_inv st' \<and> mouse_conn st' = mouse_conn st"
  using assms by (auto simp: protocol_stage_def Let_def perform_eq link_next split: if_splits)

lemma finish_conn [simp]: "mouse_conn (finish_ready H c st) = mouse_conn st"
  by (simp add: finish_ready_def Let_def perform_eq)

lemma subscriptions_link:
  assumes "subscriptions_stage H c st = (e, st')" and "link_inv st" and "mouse_conn st \<noteq> None" and "stage st \<noteq> READY"
  shows "link_inv st' \<and> mouse_conn st' = mouse_conn st"
proof -
  have sess: "link_inv (st\<lparr>session := s\<rparr>)" for s using link_session [OF assms(2)] assms(4) by blast
  then have "link_inv (finish_ready H c (st\<lparr>session := s\<rparr>))" for s
    using assms(3) by (intro link_finish) simp_all
  then show ?thesis using assms(1) sess
    by (auto simp: subscriptions_stage_def Let_def perform_eq split: if_splits)
qed

lemma link_discovery:
  assumes "link_inv st"
  shows "link_inv (discovery_work_cb H st)"
proof (cases "mouse_conn st = None \<or> failure st \<noteq> ok \<or> stage st = CLOSING")
  case True
  then show ?thesis using assms by (auto simp: discovery_work_cb_def split: option.split)
next
  case False
  then obtain c where c: "mouse_conn st = Some c" by auto
  obtain e st1 where r: "references_stage H c st = (e, st1)" by fastforce
  obtain e2 st2 where p: "protocol_stage H c st = (e2, st2)" by fastforce
  obtain e3 st3 where u: "subscriptions_stage H c st = (e3, st3)" by fastforce
  have st: "stage st = REPORT_REFERENCES \<Longrightarrow> link_inv st1 \<and> mouse_conn st1 = Some c"
    "link_inv st2 \<and> mouse_conn st2 = Some c" "stage st = SUBSCRIPTIONS \<Longrightarrow> link_inv st3 \<and> mouse_conn st3 = Some c"
    using references_link [OF r assms] protocol_link [OF p assms] subscriptions_link [OF u assms] c by auto
  show ?thesis
    using False c assms st
    by (cases "stage st")
      (auto simp: discovery_work_cb_def Let_def perform_eq read_map_stage_def r p u intro!: link_fail)
qed

subsection \<open>The other callbacks\<close>

lemma link_advertisement:
  "link_inv st \<Longrightarrow> zmk_ble_mouse_advertisement H a ty ad st = (b, st') \<Longrightarrow> link_inv st'"
  by (auto simp: zmk_ble_mouse_advertisement_def Let_def link_inv_def split: if_splits prod.splits)

lemma link_connected_cb: "link_inv st \<Longrightarrow> link_inv (connected_cb H c e st)"
  by (auto simp: connected_cb_def link_inv_def)

lemma link_disconnected_cb: "link_inv st \<Longrightarrow> link_inv (disconnected_cb c st)"
  by (auto simp: disconnected_cb_def link_inv_def owns_def)

lemma link_security_cb: "link_inv st \<Longrightarrow> link_inv (security_cb c level e st)"
  using valid_conn [of st "Some c"]
  by (auto simp: security_cb_def intro!: link_fail link_stage)

lemma link_pairing_complete: "link_inv st \<Longrightarrow> link_inv (pairing_complete_cb c b st)"
  by (auto simp: pairing_complete_cb_def owns_def link_inv_def Let_def)

lemma link_pairing_failed: "link_inv st \<Longrightarrow> link_inv (pairing_failed_cb c st)"
  by (auto simp: pairing_failed_cb_def owns_def link_inv_def)

lemma link_settings:
  "link_inv st \<Longrightarrow> mouse_conn st = None \<Longrightarrow> settings_set name len rd st = (e, st') \<Longrightarrow> link_inv st'"
  by (auto simp: settings_set_def link_inv_def Let_def split: if_splits sum.splits)

lemma settings_commit_eq [simp]:
  "ble_mouse_settings_commit st = (e, st') \<longleftrightarrow> e = ok \<and> st' = zmk_ble_mouse_start st"
  "snd (ble_mouse_settings_commit st) = zmk_ble_mouse_start st"
  by (auto simp: ble_mouse_settings_commit_def)

lemma link_start: "link_inv st \<Longrightarrow> link_inv (zmk_ble_mouse_start st)"
  by (auto simp: zmk_ble_mouse_start_def link_inv_def)

lemma link_pair_work:
  assumes "link_inv st"
  shows "link_inv (pair_work_cb H st)"
proof -
  have "link_inv (st\<lparr>retry_ms := 1000\<rparr>)" "link_inv (st\<lparr>pairing := True, retry_ms := 1000\<rparr>)"
    using assms by (auto simp: link_inv_def)
  then show ?thesis using assms by (auto simp: pair_work_cb_def intro!: link_retry)
qed

lemma link_clear_work:
  assumes "link_inv st"
  shows "link_inv (clear_work_cb H st)"
proof -
  have "link_inv (st\<lparr>pairing := False, scan_wanted := False, forget_requested := True\<rparr>)"
    using assms by (auto simp: link_inv_def)
  then show ?thesis using assms
    by (auto simp: clear_work_cb_def Let_def intro!: link_fail link_forget)
qed

lemma link_keys:
  "link_inv st \<Longrightarrow> pressed b o1 k st = (e, st') \<Longrightarrow> link_inv st'"
  "link_inv st \<Longrightarrow> released b o1 k st = (e, st') \<Longrightarrow> link_inv st'"
  by (erule link_cong; auto simp: pressed_def released_def zmk_ble_mouse_pair_def zmk_ble_mouse_clear_hold_def Let_def
      split: if_splits)+

lemma link_run: "link_inv st \<Longrightarrow> link_inv (run_work H w st)"
  by (simp add: run_work_def Let_def link_discovery link_failure link_retry link_timeout link_pair_timeout
      link_connected_work link_disconnected link_pair_work link_clear_work split: work_item.split)

end
