(* ===== verification/Ble_Client_Gatt.thy ===== *)
theory Ble_Client_Gatt
  imports Ble_Client_Inv Hid_Properties
begin

text \<open>
  Invariants of the BLE client over its steps: what holds before the client is started, that the link
  invariant holds in every reachable state, and the discipline of GATT requests.
\<close>

section \<open>Before the start\<close>

definition boot_inv :: "'c client \<Rightarrow> bool" where
  "boot_inv st \<longleftrightarrow> started st \<or>
     (mouse_conn st = None \<and> stage st = IDLE \<and> \<not> scan_wanted st \<and> (\<forall>w. \<not> pending_work w (calls st)))"

lemma boot_inv_boot: "boot_inv client_boot"
  by (simp add: boot_inv_def client_boot_def)

lemma started_callbacks:
  "connect_mouse H a st = (e, st') \<Longrightarrow> started st' = started st"
  "zmk_ble_mouse_advertisement H a ty ad st = (b, st') \<Longrightarrow> started st' = started st"
  "settings_set name len rd st = (e, st') \<Longrightarrow> started st' = started st"
  "pressed b o1 k st = (e, st') \<Longrightarrow> started st' = started st"
  "released b o1 k st = (e, st') \<Longrightarrow> started st' = started st"
  "started (connected_cb H c er st) = started st"
  "started (disconnected_cb c st) = started st"
  "started (security_cb c lv x st) = started st"
  "started (pairing_complete_cb c x st) = started st"
  "started (pairing_failed_cb c st) = started st"
proof -
  assume "connect_mouse H a st = (e, st')"
  then show "started st' = started st"
    by (cases rule: connect_cases) (simp_all add: open_session_def)
qed (auto simp: zmk_ble_mouse_advertisement_def settings_set_def pressed_def released_def zmk_ble_mouse_pair_def
      zmk_ble_mouse_clear_hold_def connected_cb_def disconnected_cb_def security_cb_def
      pairing_complete_cb_def pairing_failed_cb_def Let_def split: if_splits prod.splits sum.splits)

lemma started_forget [simp]: "started (forget_peer H st) = started st"
  by (simp add: forget_peer_def Let_def perform_eq)

lemma started_after_close [simp]: "started (after_close H st) = started st"
  by (simp add: after_close_def)

lemma started_retry [simp]: "started (retry_work_cb H st) = started st"
  by (simp add: retry_work_cb_def Let_def)

lemma started_disconnected [simp]: "started (disconnected_work_cb H st) = started st"
  by (simp add: disconnected_work_cb_def split: option.split)

lemma started_finish [simp]: "started (finish_ready H c st) = started st"
  by (simp add: finish_ready_def Let_def perform_eq)

lemma started_parse: "parse_stage st = (e, st') \<Longrightarrow> started st' = started st"
  by (erule parse_stage_cases) simp

lemma started_discovery: "started (discovery_work_cb H st) = started st"
proof -
  obtain e st1 where p: "parse_stage st = (e, st1)" by fastforce
  show ?thesis using started_parse [OF p]
    by (cases "stage st")
      (simp_all add: discovery_work_cb_def read_map_stage_def references_stage_def p protocol_stage_def
        subscriptions_stage_def perform_eq Let_def split: option.split)
qed

lemma started_run: "started (run_work H w st) = started st"
  by (cases w)
    (simp_all add: run_work_def started_discovery failure_work_cb_def timeout_work_cb_def pair_timeout_cb_def
      connected_work_cb_def complete_connection_def abandon_mouse_def perform_eq
      pair_work_cb_def clear_work_cb_def Let_def split: option.split)

lemma idle_owns: "mouse_conn st = None \<Longrightarrow> \<not> owns st conn" "mouse_conn st = None \<Longrightarrow> \<not> valid_callback st conn"
  unfolding valid_callback_def owns_def by auto

lemma idle_callbacks:
  assumes "mouse_conn st = None"
  shows "discover_cb conn attr st = (BT_GATT_ITER_STOP, st)"
    "read_cb conn x data st = (BT_GATT_ITER_STOP, st)"
    "written_cb conn x st = st" "subscribed_cb conn x i st = st"
    "notify_cb conn i data st = (BT_GATT_ITER_STOP, st)"
    "disconnected_cb c st = st" "security_cb c lv x st = st"
    "pairing_complete_cb c x st = st" "pairing_failed_cb c st = st"
  by (simp_all add: discover_cb_def read_cb_def written_cb_def subscribed_cb_def notify_cb_def disconnected_cb_def
      security_cb_def pairing_complete_cb_def pairing_failed_cb_def idle_owns [OF assms] split: option.split)

lemma idle_others:
  "mouse_conn st = None \<Longrightarrow> stage st = IDLE \<Longrightarrow> connected_cb H c x st = st"
  "\<not> scan_wanted st \<Longrightarrow> zmk_ble_mouse_advertisement H a ty ad st = (False, st)"
  "\<not> scan_wanted st \<Longrightarrow> connect_mouse H a st = (Err EALREADY, st)"
  by (simp_all add: connected_cb_def idle_owns zmk_ble_mouse_advertisement_def connect_mouse_def)

lemma boot_inv_log: "boot_inv st \<Longrightarrow> (\<And>w. \<not> queues w c) \<Longrightarrow> boot_inv (log_call c st)"
  by (auto simp: boot_inv_def split: if_splits)

lemma started_gatt [simp]: "started (written_cb conn x st) = started st" "started (subscribed_cb conn x i st) = started st"
  using written_link [of st conn x] subscribed_link [of st conn x i] by (simp_all add: same_link_def)

lemma boot_inv_step:
  assumes "client_step H st oper st'" and "boot_inv st"
  shows "boot_inv st'"
proof (cases "started st")
  case True
  with assms(1) have "started st'"
    by (auto elim!: client_stepE simp: started_run started_callbacks zmk_ble_mouse_start_def same_link_def
        dest!: discover_link read_link notify_link split: if_splits)
  then show ?thesis by (simp add: boot_inv_def)
next
  case False
  then have idle: "mouse_conn st = None" "stage st = IDLE" "\<not> scan_wanted st" using assms(2) by (auto simp: boot_inv_def)
  note quiet = idle_callbacks [OF idle(1)] idle_others(1) [OF idle(1,2)] idle_others(2,3) [OF idle(3)]
  show ?thesis using assms(1)
  proof cases
    case (run w)
    then show ?thesis using False assms(2) by (simp add: boot_inv_def)
  next
    case (stored_peer name len rd e)
    then show ?thesis using assms(2)
      by (auto simp: settings_set_def boot_inv_def Let_def split: if_splits sum.splits)
  next
    case start
    then show ?thesis using False by (simp add: boot_inv_def zmk_ble_mouse_start_def)
  next
    case (key_pressed param e)
    then show ?thesis using assms(2) False
      by (auto simp: pressed_def zmk_ble_mouse_pair_def zmk_ble_mouse_clear_hold_def boot_inv_def Let_def split: if_splits)
  next
    case (key_released param e)
    then show ?thesis using assms(2) False
      by (auto simp: released_def zmk_ble_mouse_clear_hold_def boot_inv_def Let_def split: if_splits)
  qed (use assms(2) quiet in \<open>auto intro!: boot_inv_log\<close>)
qed

section \<open>Session data and GATT requests\<close>

definition session_ok :: "session \<Rightarrow> bool" where
  "session_ok s \<longleftrightarrow> length (reports s) \<le> MAX_CHARACTERISTICS \<and> index s \<le> length (reports s) \<and>
     length (map_data s) \<le> MOUSE_HID_MAX_MAP_BYTES \<and> length (reference_data s) \<le> 2 \<and> map_wf (hid_map s)"

definition session_inv :: "'c client \<Rightarrow> bool" where
  "session_inv st \<longleftrightarrow> \<not> out_of_bounds st \<and> session_ok (session st)"

definition active :: "'c client \<Rightarrow> bool" where
  "active st \<longleftrightarrow> mouse_conn st \<noteq> None \<and> failure st = ok \<and> stage st \<noteq> CLOSING"

text \<open>The request that fits the stage.\<close>

fun expected :: "'c client \<Rightarrow> 'c client_call \<Rightarrow> bool" where
  "expected st (Gatt_Discover c k) \<longleftrightarrow> mouse_conn st = Some c \<and>
     stage st = (case k of Primary_HIDS \<Rightarrow> SERVICE | Characteristics_Of _ _ \<Rightarrow> CHARACTERISTICS
                 | Descriptors_Of _ _ \<Rightarrow> DESCRIPTORS)"
| "expected st (Gatt_Read c h) \<longleftrightarrow> mouse_conn st = Some c \<and>
     (stage st = REPORT_MAP \<or> stage st = REPORT_REFERENCES \<and> index (session st) < length (reports (session st)))"
| "expected st (Gatt_Write c h) \<longleftrightarrow> mouse_conn st = Some c \<and> stage st = PROTOCOL"
| "expected st (Gatt_Subscribe c i h h') \<longleftrightarrow> mouse_conn st = Some c \<and> stage st = SUBSCRIPTIONS \<and>
     i = index (session st) \<and> i < length (reports (session st))"
| "expected st _ \<longleftrightarrow> False"

definition discovering :: "client_stage \<Rightarrow> bool" where
  "discovering s \<longleftrightarrow> SERVICE \<le> s \<and> s \<le> SUBSCRIPTIONS"

lemma discovering_simps [simp]:
  "\<not> discovering IDLE" "\<not> discovering CONNECTING" "\<not> discovering SECURITY" "\<not> discovering READY"
  "\<not> discovering CLOSING" "discovering SERVICE" "discovering CHARACTERISTICS" "discovering DESCRIPTORS"
  "discovering REPORT_MAP" "discovering REPORT_REFERENCES" "discovering PROTOCOL" "discovering SUBSCRIPTIONS"
  by (simp_all add: discovering_def less_eq_client_stage_def)

definition gatt_inv :: "'c host \<Rightarrow> 'c client \<Rightarrow> bool" where
  "gatt_inv H st \<longleftrightarrow>
     (pending_work DISCOVERY_WORK (calls st) \<longrightarrow> outstanding H (calls st) = None) \<and>
     (stage st = CONNECTING \<or> stage st = SECURITY \<longrightarrow> outstanding H (calls st) = None) \<and>
     (pending_work CONNECTED_WORK (calls st) \<longrightarrow> stage st = IDLE \<or> stage st = CONNECTING \<or> stage st = CLOSING) \<and>
     (active st \<longrightarrow> (case outstanding H (calls st) of
        None \<Rightarrow> discovering (stage st) \<longrightarrow> pending_work DISCOVERY_WORK (calls st)
      | Some r \<Rightarrow> expected st r))"

lemma gatt_inv_boot: "gatt_inv H client_boot" "session_inv client_boot"
  by (simp_all add: gatt_inv_def session_inv_def session_ok_def client_boot_def active_def empty_session_def)

lemma session_log [simp]: "session_inv (log_call c st) = session_inv st"
  by (simp add: session_inv_def)

fun opens :: "'c client_call \<Rightarrow> bool" where
  "opens (Set_Auto_Conn _ on) = on"
| "opens _ = False"

text \<open>The calls since the last attempt to connect.\<close>

definition attempt_calls :: "'c client_call list \<Rightarrow> 'c client_call list" where
  "attempt_calls cs = takeWhile (\<lambda>c. \<not> opens c) cs"

lemma attempt_Cons [simp]: "attempt_calls (c # cs) = (if opens c then [] else c # attempt_calls cs)"
  by (simp add: attempt_calls_def)

lemma outstanding_attempt: "outstanding H cs = Some r \<Longrightarrow> r \<in> set (attempt_calls cs)"
proof (induction cs)
  case (Cons c cs)
  then show ?case by (cases c) (auto split: if_splits)
qed simp

text \<open>A step that makes no GATT request and takes no GATT callback.\<close>

definition quiet :: "'c host \<Rightarrow> 'c client \<Rightarrow> 'c client \<Rightarrow> bool" where
  "quiet H st st' \<longleftrightarrow>
     outstanding H (calls st') = outstanding H (calls st) \<and>
     pending_work DISCOVERY_WORK (calls st') = pending_work DISCOVERY_WORK (calls st) \<and>
     (pending_work CONNECTED_WORK (calls st') \<longrightarrow> pending_work CONNECTED_WORK (calls st)) \<and>
     (auto_connecting (calls st') \<longrightarrow> auto_connecting (calls st)) \<and>
     session st' = session st \<and> out_of_bounds st' = out_of_bounds st \<and>
     (\<forall>c. c \<in> set (attempt_calls (calls st)) \<longrightarrow> c \<in> set (attempt_calls (calls st'))) \<and>
     (stage st' = stage st \<and> mouse_conn st' = mouse_conn st \<and> (failure st' = failure st \<or> failure st' \<noteq> ok) \<or>
      stage st' = IDLE \<and> mouse_conn st' = None \<or> stage st' = CLOSING)"

lemma expected_same:
  "mouse_conn st' = mouse_conn st \<Longrightarrow> stage st' = stage st \<Longrightarrow> index (session st') = index (session st) \<Longrightarrow>
   length (reports (session st')) = length (reports (session st)) \<Longrightarrow> expected st' r = expected st r"
  by (cases r) simp_all

lemma quietD:
  assumes "quiet H st st'"
  shows "outstanding H (calls st') = outstanding H (calls st)"
    "pending_work DISCOVERY_WORK (calls st') = pending_work DISCOVERY_WORK (calls st)"
    "pending_work CONNECTED_WORK (calls st') \<Longrightarrow> pending_work CONNECTED_WORK (calls st)"
    "session st' = session st" "out_of_bounds st' = out_of_bounds st"
    "c \<in> set (attempt_calls (calls st)) \<Longrightarrow> c \<in> set (attempt_calls (calls st'))"
    "auto_connecting (calls st') \<Longrightarrow> auto_connecting (calls st)"
  using assms by (simp_all add: quiet_def)

lemma quiet_cases:
  assumes "quiet H st st'"
  obtains (same) "stage st' = stage st" "mouse_conn st' = mouse_conn st" "failure st' = failure st \<or> failure st' \<noteq> ok"
    | (off) "\<not> active st'" "stage st' = IDLE \<and> mouse_conn st' = None \<or> stage st' = CLOSING"
  using assms by (auto simp: quiet_def active_def)

lemma quiet_inv:
  assumes "quiet H st st'" and "gatt_inv H st" and "session_inv st"
  shows "gatt_inv H st' \<and> session_inv st'"
proof -
  note q = quietD [OF assms(1)]
  from assms(1) have "gatt_inv H st'"
  proof (cases rule: quiet_cases)
    case same
    then have "active st' \<Longrightarrow> active st" "expected st' = expected st"
      using expected_same [of st' st] q(4) by (auto simp: active_def)
    then show ?thesis using assms(2) q(1-3) same(1)
      by (cases "outstanding H (calls st)") (auto simp: gatt_inv_def)
  next
    case off
    then show ?thesis using assms(2) q(1-3) by (auto simp: gatt_inv_def)
  qed
  then show ?thesis using assms(3) q(4,5) by (simp add: session_inv_def)
qed

lemma quiet_trans:
  assumes "quiet H st st'" and "quiet H st' st''"
  shows "quiet H st st''"
proof -
  have "stage st'' = stage st \<and> mouse_conn st'' = mouse_conn st \<and> (failure st'' = failure st \<or> failure st'' \<noteq> ok) \<or>
      stage st'' = IDLE \<and> mouse_conn st'' = None \<or> stage st'' = CLOSING"
    using assms unfolding quiet_def by metis
  then show ?thesis using quietD [OF assms(1)] quietD [OF assms(2)] by (simp add: quiet_def)
qed

lemma quiet_refl [simp]: "quiet H st st"
  by (simp add: quiet_def)

lemma quiet_fail [simp]: "quiet H st (fail e st)"
  by (simp add: quiet_def)

lemma quiet_retry: "quiet H st (retry_work_cb H st)"
  by (simp add: quiet_def retry_work_cb_def Let_def)

lemma quiet_request_retry [simp]: "quiet H st (request_retry st)"
  by (simp add: quiet_def)

lemma quiet_forget: "quiet H st (forget_peer H st)"
  by (simp add: quiet_def forget_peer_def perform_eq Let_def)

lemma quiet_after_close: "quiet H st (after_close H st)"
  by (simp add: after_close_def quiet_trans [OF quiet_forget quiet_request_retry])

lemma quiet_release: "quiet H st (release_mouse H c st)"
  by (simp add: quiet_def release_mouse_def Let_def)

lemma quiet_disconnected: "quiet H st (disconnected_work_cb H st)"
  by (simp add: disconnected_work_cb_def quiet_trans [OF quiet_release quiet_after_close] split: option.split)

lemma quiet_failure: "quiet H st (failure_work_cb H st)"
proof -
  have "quiet H st (log_call (Disconnect_Conn c) (st\<lparr>stage := CLOSING, scan_wanted := False\<rparr>))" for c
    by (simp add: quiet_def)
  note q = this quiet_trans [OF this quiet_disconnected]
  have "quiet H st (request_retry (st\<lparr>scan_wanted := False, stage := IDLE, failure := ok\<rparr>))" if "mouse_conn st = None"
    using that by (simp add: quiet_def)
  with q show ?thesis by (auto simp: failure_work_cb_def perform_eq Let_def split: option.split)
qed

lemma quiet_pair_timeout: "quiet H st (pair_timeout_cb H st)"
proof -
  have "quiet H st (st\<lparr>pairing := False\<rparr>)" by (simp add: quiet_def)
  note q = quiet_trans [OF this quiet_retry] quiet_trans [OF this quiet_trans [OF quiet_fail quiet_retry]]
  then show ?thesis by (simp add: pair_timeout_cb_def Let_def)
qed

lemma quiet_pair: "quiet H st (pair_work_cb H st)"
proof -
  have "quiet H st (st\<lparr>retry_ms := 1000\<rparr>)"
    "quiet H st (schedule PAIR_TIMEOUT PAIR_TIME_MS (st\<lparr>pairing := True, retry_ms := 1000\<rparr>))"
    by (simp_all add: quiet_def)
  then show ?thesis by (auto simp: pair_work_cb_def intro: quiet_trans [OF _ quiet_retry])
qed

lemma quiet_clear: "quiet H st (clear_work_cb H st)"
proof -
  have "quiet H st (st\<lparr>pairing := False, scan_wanted := False, forget_requested := True\<rparr>)"
    by (simp add: quiet_def)
  then show ?thesis
    by (auto simp: clear_work_cb_def Let_def intro: quiet_trans [OF _ quiet_fail] quiet_trans [OF _ quiet_forget])
qed

lemma quiet_callbacks:
  "quiet H st (timeout_work_cb st)" "quiet H st (disconnected_cb c st)"
  "quiet H st (pairing_complete_cb c b st)" "quiet H st (pairing_failed_cb c st)"
  "quiet H st (zmk_ble_mouse_start st)" "quiet H st (take_event st)"
  by (simp_all add: quiet_def timeout_work_cb_def disconnected_cb_def pairing_complete_cb_def
      pairing_failed_cb_def zmk_ble_mouse_start_def take_event_def Let_def split: option.split)

lemma quiet_advertisement: "zmk_ble_mouse_advertisement H a ty ad st = (r, st') \<Longrightarrow> quiet H st st'"
  by (auto simp: quiet_def zmk_ble_mouse_advertisement_def Let_def split: if_splits prod.splits)

lemma quiet_settings: "settings_set name len rd st = (e, st') \<Longrightarrow> quiet H st st'"
  by (auto simp: quiet_def settings_set_def Let_def split: if_splits sum.splits)

lemma quiet_keys:
  "pressed p o1 k st = (e, st') \<Longrightarrow> quiet H st st'"
  "released p o1 k st = (e, st') \<Longrightarrow> quiet H st st'"
  by (auto simp: quiet_def pressed_def released_def zmk_ble_mouse_pair_def zmk_ble_mouse_clear_hold_def Let_def
      split: if_splits)

subsection \<open>Opening and securing the connection\<close>

lemma gatt_inv_None:
  assumes "outstanding H (calls st) = None"
  shows "gatt_inv H st \<longleftrightarrow>
     (pending_work CONNECTED_WORK (calls st) \<longrightarrow> stage st = IDLE \<or> stage st = CONNECTING \<or> stage st = CLOSING) \<and>
     (active st \<and> discovering (stage st) \<longrightarrow> pending_work DISCOVERY_WORK (calls st))"
  using assms by (auto simp: gatt_inv_def)

lemma session_inv_empty: "\<not> out_of_bounds st \<Longrightarrow> session st = empty_session \<Longrightarrow> session_inv st"
  by (simp add: session_inv_def session_ok_def empty_session_def)

lemma gatt_connect:
  assumes "connect_mouse H a st = (e, st')" and "gatt_inv H st" and "session_inv st"
  shows "gatt_inv H st' \<and> session_inv st'"
  using assms(1)
proof (cases rule: connect_cases)
  case full
  then have "quiet H st st'" by (simp add: quiet_def)
  then show ?thesis using assms(2,3) by (rule quiet_inv)
next
  case (failed cs new ev er)
  have "outstanding H (calls st') = None" "stage st' = IDLE" using failed(4,5,7) by (auto simp: open_session_def)
  then show ?thesis using failed(4,5,7) assms(3)
    by (auto simp: gatt_inv_None open_session_def session_inv_def session_ok_def empty_session_def)
next
  case (dialled c new ev er)
  then have "outstanding H (calls st') = None" "stage st' = CONNECTING" by (simp_all add: open_session_def)
  then show ?thesis using dialled(5,7) assms(3)
    by (auto simp: gatt_inv_None open_session_def session_inv_def session_ok_def empty_session_def)
qed (use assms in simp)

lemma gatt_connected_cb:
  assumes "owns st (Some c) \<Longrightarrow> stage st = CONNECTING \<or> stage st = CLOSING" and "gatt_inv H st" and "session_inv st"
  shows "gatt_inv H (connected_cb H c e st) \<and> session_inv (connected_cb H c e st)"
proof (cases "owns st (Some c) \<or> stage st = CONNECTING \<and> conn_dst H (calls st) c = connecting_address st")
  case True
  define q where "q = connected_cb H c e st"
  have q: "outstanding H (calls q) = outstanding H (calls st)" "stage q = stage st" "active q = active st"
    "pending_work DISCOVERY_WORK (calls q) = pending_work DISCOVERY_WORK (calls st)" "session q = session st"
    "out_of_bounds q = out_of_bounds st" "mouse_conn q = mouse_conn st"
    using True by (simp_all add: q_def connected_cb_def active_def)
  have "stage st = CONNECTING \<or> stage st = CLOSING" using True assms(1) by auto
  moreover have "expected q = expected st" using expected_same [of q st] q by auto
  ultimately have "gatt_inv H q" using assms(2) q(1-4)
    by (cases "outstanding H (calls st)") (auto simp: gatt_inv_def)
  then show ?thesis using assms(3) q(5,6) by (simp add: q_def session_inv_def)
qed (use assms in \<open>auto simp: connected_cb_def\<close>)

lemma gatt_security_cb:
  assumes "gatt_inv H st" and "session_inv st"
  shows "gatt_inv H (security_cb c level e st) \<and> session_inv (security_cb c level e st)"
proof (cases "valid_callback st (Some c) \<and> \<not> e \<and> 2 \<le> level \<and> stage st = SECURITY")
  case True
  then have none: "outstanding H (calls st) = None" and "\<not> pending_work CONNECTED_WORK (calls st)"
    using assms(1) by (auto simp: gatt_inv_def)
  then show ?thesis using True assms(2)
    by (simp add: security_cb_def gatt_inv_None session_inv_def)
next
  case False
  then have "quiet H st (security_cb c level e st)" by (auto simp: security_cb_def)
  then show ?thesis using assms by (rule quiet_inv)
qed

lemma gatt_start_security:
  assumes "outstanding H (calls st) = None" and "\<not> pending_work CONNECTED_WORK (calls st)"
    and "session_inv st"
  shows "gatt_inv H (start_security H c st) \<and> session_inv (start_security H c st)"
proof -
  have "active (start_security H c st) \<and> discovering (stage (start_security H c st)) \<longrightarrow>
      pending_work DISCOVERY_WORK (calls (start_security H c st))"
    by (cases rule: security_cases [of H c st]) (auto simp: active_def)
  then show ?thesis using assms by (simp add: gatt_inv_None session_inv_def)
qed

lemma gatt_connected_work:
  assumes "gatt_inv H st" and "session_inv st" and "link_inv st" and "pending_work CONNECTED_WORK (calls st)"
  defines "q \<equiv> run_work H CONNECTED_WORK st"
  shows "gatt_inv H q \<and> session_inv q"
proof -
  define s1 where "s1 = take_event (log_call (Ran CONNECTED_WORK) st)"
  have ran: "quiet H st (log_call (Ran CONNECTED_WORK) st)" by (simp add: quiet_def)
  then have s1: "quiet H st s1" unfolding s1_def by (rule quiet_trans) (rule quiet_callbacks)
  have taken: "\<not> pending_work CONNECTED_WORK (calls s1)" "link_inv s1"
    using assms(3) by (simp add: s1_def take_event_def split: option.split) (simp add: s1_def assms(3))
  have q: "q = (case mouse_conn s1 of None \<Rightarrow> s1 | Some c \<Rightarrow>
      let st = complete_connection H c s1
      in if connected_error st \<noteq> 0 then after_close H (abandon_mouse c st)
         else if failure st \<noteq> ok \<or> stage st = CLOSING then fail (Err ECANCELED) st
         else start_security H c st)"
    by (simp only: q_def run_work_def connected_work_cb_def s1_def Let_def work_item.case)
  note i1 = quiet_inv [OF s1 assms(1,2)]
  show ?thesis
  proof (cases "mouse_conn s1")
    case None
    then show ?thesis using q i1 by simp
  next
    case (Some c)
    define s2 where "s2 = complete_connection H c s1"
    have s2: "quiet H s1 s2" "mouse_conn s2 = Some c" "failure s2 = failure s1" "stage s2 = stage s1"
      "pending_work CONNECTED_WORK (calls s2) = pending_work CONNECTED_WORK (calls s1)"
      "outstanding H (calls s2) = outstanding H (calls s1)"
      using Some by (simp_all add: s2_def complete_connection_def quiet_def)
    have "quiet H s1 (abandon_mouse c s2)"
      by (rule quiet_trans [OF s2(1)]) (simp add: quiet_def abandon_mouse_def)
    then have aband: "quiet H s1 (after_close H (abandon_mouse c s2))" by (rule quiet_trans) (rule quiet_after_close)
    have failed: "quiet H s1 (fail (Err ECANCELED) s2)" by (rule quiet_trans [OF s2(1) quiet_fail])
    consider "q = after_close H (abandon_mouse c s2)" | "q = fail (Err ECANCELED) s2"
      | (go) "q = start_security H c s2" "failure s2 = ok" "stage s2 \<noteq> CLOSING"
      using q Some by (auto simp: Let_def s2_def split: if_splits)
    then show ?thesis
    proof cases
      case go
      have "stage st = IDLE \<or> stage st = CONNECTING \<or> stage st = CLOSING" "outstanding H (calls s1) = outstanding H (calls st)"
        using assms(1,4) quietD(1) [OF s1] by (auto simp: gatt_inv_def)
      moreover have "stage s1 = stage st" by (simp add: s1_def)
      moreover have "stage s1 \<noteq> IDLE" using taken(2) Some by (auto simp: link_inv_def)
      ultimately have "outstanding H (calls s2) = None" using go(3) s2(4,6) assms(1) by (auto simp: gatt_inv_def)
      moreover have "session_inv s2" using quiet_inv [OF s2(1)] i1 by blast
      ultimately show ?thesis using go(1) gatt_start_security taken(1) s2(5) by metis
    qed (use i1 quiet_inv [OF aband] quiet_inv [OF failed] in auto)
  qed
qed

subsection \<open>Replies of the peer\<close>

lemma gatt_done:
  assumes "\<not> pending_work CONNECTED_WORK (calls st)"
    and "active st \<Longrightarrow> discovering (stage st) \<Longrightarrow> pending_work DISCOVERY_WORK (calls st)"
  shows "gatt_inv H (log_call Gatt_Done st)"
  using assms by (auto simp: gatt_inv_None active_def)

text \<open>A reply to the request in progress either comes at its stage, or finds the connection closing.\<close>

lemma reply_cases:
  assumes "gatt_inv H st" and "outstanding H (calls st) = Some r" and "expected st r \<Longrightarrow> mouse_conn st = Some c"
  obtains (live) "valid_callback st (Some c)" "active st" "expected st r" "\<not> pending_work CONNECTED_WORK (calls st)"
      "\<not> pending_work DISCOVERY_WORK (calls st)"
    | (late) "\<not> valid_callback st (Some c)" "gatt_inv H (log_call Gatt_Done st)"
proof (cases "active st")
  case True
  then have e: "expected st r" and "\<not> pending_work DISCOVERY_WORK (calls st)" "mouse_conn st = Some c"
    using assms by (auto simp: gatt_inv_def)
  moreover have "\<not> pending_work CONNECTED_WORK (calls st)"
    using e assms(1) True by (cases r) (auto simp: gatt_inv_def split: discovery.splits)
  ultimately show thesis using True by (intro live) (simp_all add: active_def valid_callback_def owns_def)
next
  case False
  then have "\<not> valid_callback st (Some c)" by (auto simp: active_def valid_callback_def owns_def)
  moreover have "gatt_inv H (log_call Gatt_Done st)"
    using assms(1) False by (auto simp: gatt_inv_def active_def)
  ultimately show thesis by (rule late)
qed

lemma close_last_length [simp]: "length (reports (close_last_report h s)) = length (reports s)"
  "index (close_last_report h s) = index s" "map_data (close_last_report h s) = map_data s"
  "reference_data (close_last_report h s) = reference_data s" "hid_map (close_last_report h s) = hid_map s"
  by (simp_all add: close_last_report_def)

lemma session_discover:
  assumes "session_inv st" and "discover_cb conn attr st = (it, st')"
  shows "session_inv st'"
  using assms
  by (auto simp: discover_cb_def session_inv_def session_ok_def Let_def
      split: option.splits client_stage.splits if_splits)

lemma discover_live:
  assumes "discover_cb (Some c) attr st = (it, st')" and "valid_callback st (Some c)"
    and "stage st = SERVICE \<or> stage st = CHARACTERISTICS \<or> stage st = DESCRIPTORS"
  shows "\<not> active st' \<and> calls st' = Submit FAILURE_WORK # calls st \<or>
      calls st' = Submit DISCOVERY_WORK # calls st \<or>
      attr \<noteq> None \<and> it = BT_GATT_ITER_CONTINUE \<and> calls st' = calls st \<and> stage st' = stage st \<and>
        mouse_conn st' = mouse_conn st \<and> failure st' = failure st \<and> stage st \<noteq> SERVICE"
  using assms
  by (auto simp: discover_cb_def Let_def active_def split: option.splits if_splits)

lemma discover_stops:
  assumes "discover_cb (Some c) attr st = (it, st')" and "calls st' \<noteq> calls st"
  shows "attr = None \<or> it = BT_GATT_ITER_STOP"
  using assms by (auto simp: discover_cb_def Let_def split: option.splits if_splits)

lemma gatt_discovered:
  assumes "gatt_inv H st" and "session_inv st" and "outstanding H (calls st) = Some (Gatt_Discover c k)"
    and "discover_cb (Some c) attr st = (it, st')"
  defines "q \<equiv> if attr = None \<or> it = BT_GATT_ITER_STOP then log_call Gatt_Done st' else st'"
  shows "gatt_inv H q \<and> session_inv q"
proof -
  have s: "session_inv q" using session_discover [OF assms(2,4)] by (simp add: q_def)
  have e: "expected st (Gatt_Discover c k) \<Longrightarrow> mouse_conn st = Some c" by simp
  show ?thesis
  proof (rule reply_cases [OF assms(1,3) e])
    assume live: "valid_callback st (Some c)" "active st" "expected st (Gatt_Discover c k)"
      "\<not> pending_work CONNECTED_WORK (calls st)"
    from live(3) have st: "stage st = SERVICE \<or> stage st = CHARACTERISTICS \<or> stage st = DESCRIPTORS"
      by (auto split: discovery.splits)
    from discover_live [OF assms(4) live(1) st] consider
        (failed) "\<not> active st'" "calls st' = Submit FAILURE_WORK # calls st"
      | (moved) "calls st' = Submit DISCOVERY_WORK # calls st"
      | (more) "attr \<noteq> None" "it = BT_GATT_ITER_CONTINUE" "calls st' = calls st" "stage st' = stage st"
        "mouse_conn st' = mouse_conn st" "failure st' = failure st" "stage st \<noteq> SERVICE" by blast
    then have "gatt_inv H q"
    proof cases
      case more
      then have "q = st'" "active st'" using live(2) by (simp_all add: q_def active_def)
      moreover have "expected st' (Gatt_Discover c k)" using live(3) more(4,5) by simp
      ultimately show ?thesis using more(3,4) assms(1,3) by (auto simp: gatt_inv_def)
    qed (use live discover_stops [OF assms(4)] in \<open>auto simp: q_def intro!: gatt_done\<close>)
    then show ?thesis using s ..
  next
    assume "\<not> valid_callback st (Some c)" "gatt_inv H (log_call Gatt_Done st)"
    then show ?thesis using s assms(4) by (simp add: q_def discover_cb_def)
  qed
qed

lemma session_read:
  assumes "session_inv st" and "read_cb conn e data st = (it, st')"
    and "valid_callback st conn \<Longrightarrow> stage st = REPORT_REFERENCES \<Longrightarrow> index (session st) < length (reports (session st))"
  shows "session_inv st'"
  using assms
  by (auto simp: read_cb_def session_inv_def session_ok_def Let_def split: option.splits if_splits)

lemma read_live:
  assumes "read_cb (Some c) e data st = (it, st')" and "valid_callback st (Some c)"
    and "stage st = REPORT_MAP \<or> stage st = REPORT_REFERENCES"
  shows "\<not> active st' \<and> calls st' = Submit FAILURE_WORK # calls st \<or>
      calls st' = Submit DISCOVERY_WORK # calls st \<or>
      \<not> e \<and> data \<noteq> None \<and> it = BT_GATT_ITER_CONTINUE \<and> calls st' = calls st \<and> stage st' = stage st \<and>
        mouse_conn st' = mouse_conn st \<and> failure st' = failure st \<and> index (session st') = index (session st) \<and>
        length (reports (session st')) = length (reports (session st))"
  using assms
  by (auto simp: read_cb_def Let_def active_def split: option.splits if_splits)

lemma read_stops:
  assumes "read_cb (Some c) e data st = (it, st')" and "calls st' \<noteq> calls st"
  shows "e \<or> data = None \<or> it = BT_GATT_ITER_STOP"
  using assms by (auto simp: read_cb_def Let_def split: option.splits if_splits)

lemma gatt_read_reply:
  assumes "gatt_inv H st" and "session_inv st" and "outstanding H (calls st) = Some (Gatt_Read c h)"
    and "read_cb (Some c) e data st = (it, st')"
  defines "q \<equiv> if e \<or> data = None \<or> it = BT_GATT_ITER_STOP then log_call Gatt_Done st' else st'"
  shows "gatt_inv H q \<and> session_inv q"
proof -
  have ex: "expected st (Gatt_Read c h) \<Longrightarrow> mouse_conn st = Some c" by simp
  show ?thesis
  proof (rule reply_cases [OF assms(1,3) ex])
    assume live: "valid_callback st (Some c)" "active st" "expected st (Gatt_Read c h)"
      "\<not> pending_work CONNECTED_WORK (calls st)"
    from live(3) have st: "stage st = REPORT_MAP \<or> stage st = REPORT_REFERENCES" by auto
    have s: "session_inv q"
      using session_read [OF assms(2,4)] live(3) by (auto simp: q_def)
    from read_live [OF assms(4) live(1) st] consider
        (failed) "\<not> active st'" "calls st' = Submit FAILURE_WORK # calls st"
      | (moved) "calls st' = Submit DISCOVERY_WORK # calls st"
      | (more) "\<not> e" "data \<noteq> None" "it = BT_GATT_ITER_CONTINUE" "calls st' = calls st" "stage st' = stage st"
        "mouse_conn st' = mouse_conn st" "failure st' = failure st" "index (session st') = index (session st)"
        "length (reports (session st')) = length (reports (session st))" by blast
    then have "gatt_inv H q"
    proof cases
      case more
      then have "q = st'" "active st'" using live(2) by (simp_all add: q_def active_def)
      moreover have "expected st' (Gatt_Read c h)" using live(3) more(5-9) by simp
      ultimately show ?thesis using more(4,5) assms(1,3) by (auto simp: gatt_inv_def)
    qed (use live read_stops [OF assms(4)] in \<open>auto simp: q_def intro!: gatt_done\<close>)
    then show ?thesis using s ..
  next
    assume "\<not> valid_callback st (Some c)" "gatt_inv H (log_call Gatt_Done st)"
    then show ?thesis using assms(2,4) by (simp add: q_def read_cb_def)
  qed
qed

lemma gatt_written:
  fixes e
  assumes "gatt_inv H st" and "session_inv st" and "outstanding H (calls st) = Some (Gatt_Write c h)"
  defines "q \<equiv> log_call Gatt_Done (written_cb (Some c) e st)"
  shows "gatt_inv H q \<and> session_inv q"
proof -
  have ex: "expected st (Gatt_Write c h) \<Longrightarrow> mouse_conn st = Some c" by simp
  show ?thesis
  proof (rule reply_cases [OF assms(1,3) ex])
    assume live: "valid_callback st (Some c)" "\<not> pending_work CONNECTED_WORK (calls st)"
    have "gatt_inv H q" unfolding q_def using live
      by (intro gatt_done) (auto simp: written_cb_def active_def split: if_splits)
    then show ?thesis using live assms(2) by (simp add: q_def written_cb_def session_inv_def)
  next
    assume "\<not> valid_callback st (Some c)" "gatt_inv H (log_call Gatt_Done st)"
    then show ?thesis using assms(2) by (simp add: q_def written_cb_def)
  qed
qed

lemma gatt_subscribed:
  fixes e
  assumes "gatt_inv H st" and "session_inv st" and "outstanding H (calls st) = Some (Gatt_Subscribe c i h h')"
  defines "q \<equiv> log_call Gatt_Done (subscribed_cb (Some c) e i st)"
  shows "gatt_inv H q \<and> session_inv q"
proof -
  have ex: "expected st (Gatt_Subscribe c i h h') \<Longrightarrow> mouse_conn st = Some c" by simp
  show ?thesis
  proof (rule reply_cases [OF assms(1,3) ex])
    assume live: "valid_callback st (Some c)" "expected st (Gatt_Subscribe c i h h')"
      "\<not> pending_work CONNECTED_WORK (calls st)"
    have "gatt_inv H q" unfolding q_def using live
      by (intro gatt_done) (auto simp: subscribed_cb_def active_def Let_def split: if_splits)
    moreover have "session_inv q" using live(1,2) assms(2)
      by (simp add: q_def subscribed_cb_def session_inv_def session_ok_def Let_def)
    ultimately show ?thesis ..
  next
    assume "\<not> valid_callback st (Some c)" "gatt_inv H (log_call Gatt_Done st)"
    then show ?thesis using assms(2) by (simp add: q_def subscribed_cb_def)
  qed
qed

subsection \<open>Notifications\<close>

lemma notify_cases:
  assumes "session_inv st" and "i < length (reports (session st))" and "notify_cb conn i data st = (it, st')"
  obtains (ignored) "st' = st"
    | (broken) "st' = fail (Err EIO) st" "data = None" "valid_callback st conn" "stage st = READY"
    | (frame) bytes ri where "data = Some bytes" "valid_callback st conn" "stage st = READY"
        "mouse_hid_report_index (hid_map (session st)) (rc_id (reports (session st) ! i)) = Ret ri"
        "st' = (let st1 = upd_session (\<lambda>s. s\<lparr>reports := (reports s)[i := (reports s ! i)
               \<lparr>rc_buttons := fr_buttons (decoded (hid_map s) ri bytes)\<rparr>]\<rparr>) st
           in log_call (Output_Receive (decoded (hid_map (session st)) ri bytes)
                (fold (\<lambda>r p. p OR rc_buttons r) (reports (session st1)) 0)) st1)"
proof -
  have wf: "map_wf (hid_map (session st))" using assms(1) by (simp add: session_inv_def session_ok_def)
  note status = decode_status [OF wf]
  consider (none) "data = None" | (some) bytes where "data = Some bytes" by fastforce
  then show thesis
  proof cases
    case none
    then show thesis using assms(3) ignored broken by (auto simp: notify_cb_def split: if_splits)
  next
    case (some bytes)
    let ?ix = "mouse_hid_report_index (hid_map (session st)) (rc_id (reports (session st) ! i))"
    show thesis
    proof (cases "valid_callback st conn \<and> stage st = READY")
      case False
      then have "st' = st" using assms(3) by (simp add: notify_cb_def some split: if_splits)
      then show thesis by (rule ignored)
    next
      case True
      have run: "notify_cb conn i data st = (BT_GATT_ITER_CONTINUE,
          case mouse_hid_decode (Some (hid_map (session st))) (rc_id (reports (session st) ! i))
                 (Some bytes) (Some empty_frame) of
            Some (Ret 0, Some frame) \<Rightarrow>
              let st = upd_session (\<lambda>s. s\<lparr>reports := (reports s)[i := (reports s ! i)
                                       \<lparr>rc_buttons := fr_buttons frame\<rparr>]\<rparr>) st;
                  physical = fold (\<lambda>r p. p OR rc_buttons r) (reports (session st)) 0
              in log_call (Output_Receive frame physical) st
          | Some _ \<Rightarrow> st
          | None \<Rightarrow> st\<lparr>out_of_bounds := True\<rparr>)"
        using True assms(2) by (simp add: notify_cb_def some)
      show thesis
      proof (cases ?ix)
        case (Err e)
        then have "st' = st" using assms(3) run by (simp add: status)
        then show thesis by (rule ignored)
      next
        case (Ret ri)
        show thesis
        proof (cases "r_useful (m_reports (hid_map (session st)) ! ri) \<and>
            length bytes = (unat (r_bits (m_reports (hid_map (session st)) ! ri)) + 7) div 8")
          case True
          then show thesis using assms(3) run \<open>valid_callback st conn \<and> stage st = READY\<close>
            by (intro frame [OF some _ _ Ret]) (simp_all add: status Ret)
        next
          case False
          then have "st' = st" using assms(3) run by (auto simp: status Ret split: if_splits)
          then show thesis by (rule ignored)
        qed
      qed
    qed
  qed
qed

lemma expected_ready: "expected st r \<Longrightarrow> stage st \<noteq> READY"
  by (cases r) (auto split: discovery.splits)

lemma gatt_notify:
  assumes "gatt_inv H st" and "session_inv st" and "i < length (reports (session st))"
    and "notify_cb conn i data st = (it, st')"
  shows "gatt_inv H st' \<and> session_inv st'"
  using assms(2,3,4)
proof (cases rule: notify_cases)
  case broken
  then show ?thesis using quiet_inv [OF quiet_fail assms(1,2)] by simp
next
  case (frame bytes ri)
  then have "outstanding H (calls st) = None" "\<not> pending_work CONNECTED_WORK (calls st)"
    using assms(1) valid_conn [OF frame(2)] expected_ready [of st]
    by (auto simp: gatt_inv_def active_def valid_callback_def split: option.splits)
  then show ?thesis using frame(3,5) assms(2)
    by (simp add: gatt_inv_None session_inv_def session_ok_def Let_def)
qed (use assms in simp)

section \<open>The discovery work\<close>

lemma skip_unreferenced_le: "i \<le> skip_unreferenced rs i" "skip_unreferenced rs i \<le> i + length rs"
proof -
  show "i \<le> skip_unreferenced rs i" by (induction rs arbitrary: i) (auto dest: Suc_leD)
  show "skip_unreferenced rs i \<le> i + length rs"
  proof (induction rs arbitrary: i)
    case (Cons r rs)
    show ?case using Cons [of "i + 1"] by simp
  qed simp
qed

lemma skip_unusable_le: "i \<le> skip_unusable m rs i" "skip_unusable m rs i \<le> i + length rs"
proof -
  show "i \<le> skip_unusable m rs i" by (induction m rs i rule: skip_unusable.induct) auto
  show "skip_unusable m rs i \<le> i + length rs" by (induction m rs i rule: skip_unusable.induct) auto
qed

text \<open>
  What a round of the discovery work leaves behind: either it asks for the next round, or its request
  is accepted, or the client is ready, or it fails.
\<close>

definition round_ok :: "'c host \<Rightarrow> 'c client \<Rightarrow> cret \<times> 'c client \<Rightarrow> bool" where
  "round_ok H st r \<longleftrightarrow> (case r of (e, q) \<Rightarrow>
     session_inv q \<and> mouse_conn q = mouse_conn st \<and>
     (if e \<noteq> ok then outstanding H (calls q) = None \<and> \<not> pending_work CONNECTED_WORK (calls q) \<and> stage q = stage st
      else gatt_inv H q))"

lemma perform_round:
  assumes "outstanding H (calls st) = None" and "\<not> pending_work CONNECTED_WORK (calls st)"
    and "\<not> pending_work DISCOVERY_WORK (calls st)"
    and "session_inv st" and "gatt_request c" and "\<not> gatt_ended c" and "expected st c" and "discovering (stage st)"
  shows "round_ok H st (perform H c st)"
proof -
  have "expected (log_call c st) c" using assms(7) by (subst expected_same [of _ st]) simp_all
  moreover have "\<not> queues w c" for w using assms(5) by (cases c) auto
  ultimately show ?thesis using assms by (auto simp: round_ok_def perform_eq gatt_inv_def)
qed

lemma next_round:
  assumes "outstanding H (calls st) = None" and "\<not> pending_work CONNECTED_WORK (calls st)" and "session_inv st"
    and "mouse_conn q = mouse_conn st" and "q = next_stage s st" and "s \<noteq> CONNECTING" "s \<noteq> SECURITY"
  shows "round_ok H st (ok, q)"
  using assms by (simp add: round_ok_def gatt_inv_None session_inv_def)

lemma parse_stage_ok:
  assumes "session_inv st" and "parse_stage st = (e, st')"
  shows "session_inv st'" and "calls st' = calls st" and "stage st' = stage st" and "mouse_conn st' = mouse_conn st"
proof -
  have wf: "map_wf (hid_map (session st))" using assms(1) by (simp add: session_inv_def session_ok_def)
  from assms(2) obtain m where st': "st' = upd_session (\<lambda>s. s\<lparr>hid_map := m\<rparr>) st" by (rule parse_stage_cases)
  then show "calls st' = calls st" "stage st' = stage st" "mouse_conn st' = mouse_conn st" by simp_all
  obtain e1 om where p: "mouse_hid_parse (Some (map_data (session st))) (Some (hid_map (session st))) = (e1, om)"
    by fastforce
  have "map_wf (hid_map (session st'))"
    using assms(2) wf parse_keeps_wf [OF _ wf, of "Some (map_data (session st))" e1] p
    by (auto simp: parse_stage_def Let_def split: if_splits option.splits)
  then show "session_inv st'" using assms(1) st' by (simp add: session_inv_def session_ok_def)
qed

lemma round_okI_error:
  assumes "e \<noteq> ok" and "session_inv q" and "mouse_conn q = mouse_conn st" and "outstanding H (calls q) = None"
    and "\<not> pending_work CONNECTED_WORK (calls q)" and "stage q = stage st"
  shows "round_ok H st (e, q)"
  using assms by (simp add: round_ok_def)

lemma round_ok_from:
  "round_ok H st1 r \<Longrightarrow> mouse_conn st1 = mouse_conn st \<Longrightarrow> stage st1 = stage st \<Longrightarrow> round_ok H st r"
  by (simp add: round_ok_def split: prod.splits)

text \<open>A state in which a round runs: no request in progress and none asked for.\<close>

definition idle_round :: "'c host \<Rightarrow> 'c client \<Rightarrow> bool" where
  "idle_round H st \<longleftrightarrow> outstanding H (calls st) = None \<and> \<not> pending_work CONNECTED_WORK (calls st) \<and>
     \<not> pending_work DISCOVERY_WORK (calls st) \<and> session_inv st"

lemma idle_session:
  "idle_round H st \<Longrightarrow> session_ok s \<Longrightarrow> idle_round H (st\<lparr>session := s\<rparr>)"
  by (simp add: idle_round_def session_inv_def)

lemma references_round:
  assumes "idle_round H st" and "stage st = REPORT_REFERENCES" and "mouse_conn st = Some c"
  shows "round_ok H st (references_stage H c st)"
proof -
  obtain e st1 where p: "parse_stage st = (e, st1)" by fastforce
  note inv = parse_stage_ok [OF _ p]
  have st1: "idle_round H st1" "stage st1 = stage st" "mouse_conn st1 = Some c"
    using inv assms by (simp_all add: idle_round_def)
  show ?thesis
  proof (cases "e = ok")
    case False
    then show ?thesis using st1 assms
      by (simp add: references_stage_def p round_ok_def idle_round_def)
  next
    case True
    define s where "s = (session st1)\<lparr>index := skip_unreferenced (drop (index (session st1)) (reports (session st1))) (index (session st1))\<rparr>"
    have ok1: "session_ok (session st1)" using st1(1) by (simp add: idle_round_def session_inv_def)
    have le: "index s \<le> length (reports s)"
      using ok1 skip_unreferenced_le(2) [of "drop (index (session st1)) (reports (session st1))" "index (session st1)"]
      by (simp add: s_def session_ok_def)
    have ok2: "session_ok s" using ok1 le by (simp add: session_ok_def) (simp add: s_def)
    have run: "references_stage H c st =
        (if index s = length (reports s)
         then (ok, next_stage PROTOCOL (st1\<lparr>session := s\<lparr>index := 0\<rparr>\<rparr>))
         else perform H (Gatt_Read c (rc_reference (reports s ! index s))) (st1\<lparr>session := s\<lparr>reference_data := []\<rparr>\<rparr>))"
      using True le by (simp add: references_stage_def p Let_def s_def)
    have sess: "session_ok (s\<lparr>index := 0\<rparr>)" "session_ok (s\<lparr>reference_data := []\<rparr>)"
      using ok2 by (simp_all add: session_ok_def)
    note idle = idle_session [OF st1(1) sess(1)] idle_session [OF st1(1) sess(2)]
    show ?thesis
    proof (cases "index s = length (reports s)")
      case True
      have "round_ok H (st1\<lparr>session := s\<lparr>index := 0\<rparr>\<rparr>) (ok, next_stage PROTOCOL (st1\<lparr>session := s\<lparr>index := 0\<rparr>\<rparr>))"
        using idle(1) unfolding idle_round_def by (intro next_round) auto
      from round_ok_from [OF this] show ?thesis using True run st1 assms by simp
    next
      case False
      have "round_ok H (st1\<lparr>session := s\<lparr>reference_data := []\<rparr>\<rparr>)
          (perform H (Gatt_Read c (rc_reference (reports s ! index s))) (st1\<lparr>session := s\<lparr>reference_data := []\<rparr>\<rparr>))"
        using idle(2) st1 assms False le by (intro perform_round) (auto simp: idle_round_def)
      from round_ok_from [OF this] show ?thesis using False run st1 assms by simp
    qed
  qed
qed

lemma protocol_round:
  assumes "idle_round H st" and "stage st = PROTOCOL" and "mouse_conn st = Some c"
  shows "round_ok H st (protocol_stage H c st)"
proof -
  have quiet: "idle_round H (log_call (Gatt_Write_Without_Response c h) st)" if "idle_round H st" for h and st :: "'a client"
    using that by (simp add: idle_round_def)
  have body: "round_ok H st1 (if protocol_handle (session st) = 0 then (ok, next_stage SUBSCRIPTIONS st1)
         else if protocol_properties (session st) AND push_bit 2 1 \<noteq> 0 then
           (let (err, st) = perform H (Gatt_Write_Without_Response c (protocol_handle (session st))) st1
            in (err, if err = ok then next_stage SUBSCRIPTIONS st else st))
         else perform H (Gatt_Write c (protocol_handle (session st))) st1)"
    if "idle_round H st1" "stage st1 = PROTOCOL" "mouse_conn st1 = Some c" for st1
    using that perform_round [of H st1 "Gatt_Write c (protocol_handle (session st))"]
    by (simp add: idle_round_def round_ok_def perform_eq gatt_inv_None session_inv_def)
  show ?thesis
  proof (cases "control_handle (session st) = 0")
    case True
    then show ?thesis using body [OF assms] by (simp add: protocol_stage_def Let_def)
  next
    case False
    define st1 where "st1 = log_call (Gatt_Write_Without_Response c (control_handle (session st))) st"
    have st1: "idle_round H st1" "stage st1 = PROTOCOL" "mouse_conn st1 = Some c" "session st1 = session st"
      using quiet [OF assms(1)] assms(2,3) by (simp_all add: st1_def)
    have "round_ok H st (e, st1)" if "e \<noteq> ok" for e
      using that st1 assms by (intro round_okI_error) (simp_all add: idle_round_def)
    then show ?thesis using False round_ok_from [OF body [OF st1(1-3)], of st] st1(2,3) assms(2,3)
      by (simp add: protocol_stage_def perform_eq Let_def flip: st1_def)
  qed
qed

lemma finish_calls:
  "outstanding H (calls (finish_ready H c st)) = outstanding H (calls st)"
  "pending_work CONNECTED_WORK (calls (finish_ready H c st)) = pending_work CONNECTED_WORK (calls st)"
  "session (finish_ready H c st) = session st" "out_of_bounds (finish_ready H c st) = out_of_bounds st"
  "active (finish_ready H c st) \<Longrightarrow> stage (finish_ready H c st) = READY"
  by (auto simp: finish_ready_def perform_eq Let_def active_def split: if_splits)

lemma finish_stage: "stage (finish_ready H c st) = READY \<or> stage (finish_ready H c st) = stage st"
  by (simp add: finish_ready_def perform_eq Let_def)

lemma subscriptions_round:
  assumes "idle_round H st" and "stage st = SUBSCRIPTIONS" and "mouse_conn st = Some c"
  shows "round_ok H st (subscriptions_stage H c st)"
proof -
  define s where "s = (session st)\<lparr>index := skip_unusable (hid_map (session st)) (drop (index (session st)) (reports (session st))) (index (session st))\<rparr>"
  define st1 where "st1 = st\<lparr>session := s\<rparr>"
  have ok1: "session_ok (session st)" using assms(1) by (simp add: idle_round_def session_inv_def)
  have le: "index s \<le> length (reports s)"
    using ok1 skip_unusable_le(2) [of "hid_map (session st)" "drop (index (session st)) (reports (session st))" "index (session st)"]
    by (simp add: s_def session_ok_def)
  have ok2: "session_ok s" using ok1 le by (simp add: session_ok_def) (simp add: s_def)
  have st1: "idle_round H st1" "stage st1 = SUBSCRIPTIONS" "mouse_conn st1 = Some c" "session st1 = s"
    using idle_session [OF assms(1) ok2] assms by (simp_all add: st1_def)
  have run: "subscriptions_stage H c st =
      (if index s = length (reports s) then (ok, finish_ready H c st1)
       else if rc_ccc (reports s ! index s) = 0 then (Err ENOTSUP, st1)
       else perform H (Gatt_Subscribe c (index s) (rc_handle (reports s ! index s)) (rc_ccc (reports s ! index s))) st1)"
    using le by (simp add: subscriptions_stage_def Let_def st1_def s_def)
  have "round_ok H st1 (subscriptions_stage H c st)"
  proof (cases "index s = length (reports s)")
    case True
    have "gatt_inv H (finish_ready H c st1)"
      using st1 finish_calls [of H c st1] by (auto simp: gatt_inv_None idle_round_def)
    then show ?thesis using True run st1 finish_calls(3,4) [of H c st1] by (simp add: round_ok_def session_inv_def idle_round_def)
  next
    case False
    then show ?thesis using run st1 le
      by (auto simp: idle_round_def intro!: round_okI_error perform_round)
  qed
  from round_ok_from [OF this] show ?thesis using st1 assms by simp
qed

lemma gatt_discovery:
  assumes "gatt_inv H st" and "session_inv st" and "pending_work DISCOVERY_WORK (calls st)"
  shows "gatt_inv H (run_work H DISCOVERY_WORK st) \<and> session_inv (run_work H DISCOVERY_WORK st)"
proof -
  define s1 where "s1 = log_call (Ran DISCOVERY_WORK) st"
  have run: "run_work H DISCOVERY_WORK st = discovery_work_cb H s1" by (simp add: run_work_def s1_def Let_def)
  have none: "outstanding H (calls s1) = None" using assms(1,3) by (simp add: s1_def gatt_inv_def)
  have conn: "pending_work CONNECTED_WORK (calls s1) \<Longrightarrow> stage s1 = IDLE \<or> stage s1 = CONNECTING \<or> stage s1 = CLOSING"
    using assms(1) by (auto simp: s1_def gatt_inv_def)
  have sess: "session_inv s1" using assms(2) by (simp add: s1_def)
  show ?thesis
  proof (cases "active s1 \<and> discovering (stage s1)")
    case False
    then have "discovery_work_cb H s1 = s1"
      by (cases "stage s1") (auto simp: discovery_work_cb_def active_def split: option.split)
    then show ?thesis using run none conn sess False by (auto simp: gatt_inv_None)
  next
    case True
    then obtain c where c: "mouse_conn s1 = Some c" "failure s1 = ok" "stage s1 \<noteq> CLOSING" by (auto simp: active_def)
    have idle: "idle_round H s1"
      using none conn sess True by (auto simp: idle_round_def) (auto simp: s1_def)
    define r where "r = (case stage s1 of
        SERVICE \<Rightarrow> perform H (Gatt_Discover c Primary_HIDS) s1
      | CHARACTERISTICS \<Rightarrow> perform H (Gatt_Discover c (Characteristics_Of (service_start (session s1)) (service_end (session s1)))) s1
      | DESCRIPTORS \<Rightarrow> perform H (Gatt_Discover c (Descriptors_Of (service_start (session s1)) (service_end (session s1)))) s1
      | REPORT_MAP \<Rightarrow> read_map_stage H c s1
      | REPORT_REFERENCES \<Rightarrow> references_stage H c s1
      | PROTOCOL \<Rightarrow> protocol_stage H c s1
      | SUBSCRIPTIONS \<Rightarrow> subscriptions_stage H c s1
      | _ \<Rightarrow> (ok, s1))"
    have "round_ok H s1 r"
      using True idle c references_round [OF idle _ c(1)] protocol_round [OF idle _ c(1)] subscriptions_round [OF idle _ c(1)]
      unfolding r_def by (cases "stage s1") (auto simp: idle_round_def read_map_stage_def intro!: perform_round)
    moreover obtain e q where r: "r = (e, q)" by fastforce
    moreover have "discovery_work_cb H s1 = (if e \<noteq> ok then fail e q else q)"
      using c r by (simp add: discovery_work_cb_def Let_def flip: r_def)
    ultimately show ?thesis using run True
      by (auto simp: round_ok_def gatt_inv_None active_def session_inv_def split: if_splits)
  qed
qed

section \<open>Every reachable state\<close>

lemma quiet_run:
  assumes "w \<noteq> DISCOVERY_WORK" and "w \<noteq> CONNECTED_WORK"
  shows "quiet H st (run_work H w st)"
proof -
  have ran: "quiet H st (log_call (Ran w) st)" using assms by (simp add: quiet_def)
  show ?thesis
    using assms quiet_trans [OF ran quiet_failure] quiet_trans [OF ran quiet_retry] quiet_trans [OF ran quiet_callbacks(1)]
      quiet_trans [OF ran quiet_pair_timeout] quiet_trans [OF ran quiet_disconnected] quiet_trans [OF ran quiet_pair]
      quiet_trans [OF ran quiet_clear]
    by (cases w) (simp_all add: run_work_def Let_def)
qed

lemma gatt_run:
  assumes "gatt_inv H st" and "session_inv st" and "link_inv st" and "pending_work w (calls st)"
  shows "gatt_inv H (run_work H w st) \<and> session_inv (run_work H w st)"
proof -
  consider "w = DISCOVERY_WORK" | "w = CONNECTED_WORK" | "w \<noteq> DISCOVERY_WORK" "w \<noteq> CONNECTED_WORK" by blast
  then show ?thesis
    by cases (use gatt_discovery gatt_connected_work quiet_inv [OF quiet_run] assms in blast)+
qed

lemma gatt_disconnected:
  assumes "gatt_inv H st" and "session_inv st" and "owns st (Some c)"
  shows "gatt_inv H (log_call Gatt_Done (disconnected_cb c st)) \<and> session_inv (log_call Gatt_Done (disconnected_cb c st))"
  using assms by (auto simp: disconnected_cb_def gatt_inv_None session_inv_def active_def)

fun quiet_op :: "'c client_op \<Rightarrow> bool" where
  "quiet_op (Run w) = (w \<noteq> DISCOVERY_WORK \<and> w \<noteq> CONNECTED_WORK)"
| "quiet_op (Advertisement _ _ _) = True"
| "quiet_op (Pairing_Complete _ _) = True"
| "quiet_op (Pairing_Failed _) = True"
| "quiet_op (Stored_Peer _ _ _) = True"
| "quiet_op Start = True"
| "quiet_op (Key_Pressed _) = True"
| "quiet_op (Key_Released _) = True"
| "quiet_op Passage = True"
| "quiet_op _ = False"

lemma quiet_step:
  assumes "client_step H st oper st'" and "quiet_op oper"
  shows "quiet H st st'"
  using assms
proof cases
  case (advertisement a ty ad b)
  then show ?thesis using quiet_advertisement by blast
next
  case (stored_peer name len rd e)
  then show ?thesis using quiet_settings by blast
next
  case (key_pressed param e)
  then show ?thesis using quiet_keys(1) by blast
next
  case (key_released param e)
  then show ?thesis using quiet_keys(2) by blast
next
  case passage
  then show ?thesis by (simp add: quiet_def)
qed (simp_all add: quiet_run quiet_callbacks)

subsection \<open>Automatic connection\<close>

text \<open>The host connects to the mouse of its own accord only until the connection has come up.\<close>

definition auto_inv :: "'c client \<Rightarrow> bool" where
  "auto_inv st \<longleftrightarrow> (mouse_conn st \<noteq> None \<and> auto_connecting (calls st) \<longrightarrow> stage st = CONNECTING \<or> stage st = CLOSING)"

lemma auto_log [simp]: "auto_inv (log_call Gatt_Done st) = auto_inv st" "auto_inv (log_call (Ran w) st) = auto_inv st"
  by (simp_all add: auto_inv_def)

lemma auto_quiet: "quiet H st st' \<Longrightarrow> auto_inv st \<Longrightarrow> auto_inv st'"
  by (auto simp: quiet_def auto_inv_def)

lemma auto_same:
  "auto_inv st \<Longrightarrow> mouse_conn st' = mouse_conn st \<Longrightarrow> auto_connecting (calls st') = auto_connecting (calls st) \<Longrightarrow>
   (stage st = CONNECTING \<or> stage st = CLOSING \<Longrightarrow> stage st' = stage st) \<Longrightarrow> auto_inv st'"
  by (auto simp: auto_inv_def)

lemma auto_discover:
  assumes "discover_cb conn attr st = (it, st')"
  shows "auto_connecting (calls st') = auto_connecting (calls st)" "stage st = CONNECTING \<or> stage st = CLOSING \<Longrightarrow> stage st' = stage st"
  using assms by (cases "stage st"; auto simp: discover_cb_def Let_def split: option.splits if_splits)+

lemma auto_read:
  assumes "read_cb conn e data st = (it, st')"
  shows "auto_connecting (calls st') = auto_connecting (calls st)" "stage st = CONNECTING \<or> stage st = CLOSING \<Longrightarrow> stage st' = stage st"
  using assms by (auto simp: read_cb_def Let_def split: option.splits if_splits)

lemma auto_notify:
  assumes "notify_cb conn i data st = (it, st')"
  shows "auto_connecting (calls st') = auto_connecting (calls st)" "stage st' = stage st"
  using assms by (auto simp: notify_cb_def Let_def split: option.splits if_splits prod.splits cret.splits nat.splits)

lemma auto_stages:
  "references_stage H c st = (e, st') \<Longrightarrow> auto_connecting (calls st') = auto_connecting (calls st)"
  "protocol_stage H c st = (e, st') \<Longrightarrow> auto_connecting (calls st') = auto_connecting (calls st)"
  "subscriptions_stage H c st = (e, st') \<Longrightarrow> auto_connecting (calls st') = auto_connecting (calls st)"
proof -
  obtain e1 st1 where p: "parse_stage st = (e1, st1)" by fastforce
  then obtain m where "st1 = upd_session (\<lambda>s. s\<lparr>hid_map := m\<rparr>) st" by (rule parse_stage_cases)
  then show "references_stage H c st = (e, st') \<Longrightarrow> auto_connecting (calls st') = auto_connecting (calls st)"
    using p by (auto simp: references_stage_def perform_eq Let_def split: if_splits)
  show "protocol_stage H c st = (e, st') \<Longrightarrow> auto_connecting (calls st') = auto_connecting (calls st)"
    by (auto simp: protocol_stage_def perform_eq Let_def split: if_splits)
  show "auto_connecting (calls st') = auto_connecting (calls st)" if "subscriptions_stage H c st = (e, st')"
    using that by (cases rule: subscriptions_cases) (auto simp: finish_ready_def perform_eq Let_def)
qed

lemma discovery_rest: "\<not> (active st \<and> discovering (stage st)) \<Longrightarrow> discovery_work_cb H st = st"
  by (cases "stage st") (auto simp: discovery_work_cb_def active_def split: option.split)

lemma auto_discovery_calls: "auto_connecting (calls (discovery_work_cb H st)) = auto_connecting (calls st)"
proof (cases "active st \<and> discovering (stage st)")
  case False
  then show ?thesis by (simp add: discovery_rest)
next
  case True
  then obtain c where c: "mouse_conn st = Some c" "failure st = ok" "stage st \<noteq> CLOSING" by (auto simp: active_def)
  obtain e1 q1 where p: "protocol_stage H c st = (e1, q1)" by fastforce
  obtain e2 q2 where r: "references_stage H c st = (e2, q2)" by fastforce
  obtain e3 q3 where s: "subscriptions_stage H c st = (e3, q3)" by fastforce
  show ?thesis
    using True c auto_stages(1) [OF r] auto_stages(2) [OF p] auto_stages(3) [OF s]
    by (cases "stage st") (simp_all add: discovery_work_cb_def read_map_stage_def perform_eq p r s Let_def)
qed

lemma auto_discovery: "auto_inv st \<Longrightarrow> auto_inv (discovery_work_cb H st)"
  using discovery_rest [of st H] auto_discovery_calls [of H st]
  by (cases "active st \<and> discovering (stage st)") (auto simp: auto_inv_def active_def)

lemma discovery_forward: "stage st \<le> stage (discovery_work_cb H st)"
proof (cases "active st \<and> discovering (stage st)")
  case False
  then show ?thesis by (simp add: discovery_rest)
next
  case True
  obtain e1 st1 where p: "parse_stage st = (e1, st1)" by fastforce
  then obtain m where "st1 = upd_session (\<lambda>s. s\<lparr>hid_map := m\<rparr>) st" by (rule parse_stage_cases)
  then show ?thesis using True p
    by (cases "stage st"; simp add: active_def discovery_work_cb_def read_map_stage_def references_stage_def
        protocol_stage_def subscriptions_stage_def finish_ready_def perform_eq Let_def stage_order split: option.split)
qed

lemma auto_connected_work: "auto_inv (connected_work_cb H st)"
proof -
  have "\<not> auto_connecting (calls (after_close H st))" if "\<not> auto_connecting (calls st)" for st
    using quiet_after_close [of H st] that by (simp add: quiet_def)
  then show ?thesis
    by (auto simp: connected_work_cb_def auto_inv_def complete_connection_def abandon_mouse_def
        Let_def split: option.split)
qed

lemma auto_step:
  assumes "client_step H st oper st'" and "gatt_inv H st" and "auto_inv st"
  shows "auto_inv st'"
proof (cases "quiet_op oper")
  case True
  then show ?thesis using auto_quiet quiet_step [OF assms(1)] assms(3) by blast
next
  case False
  from assms(1) show ?thesis
  proof cases
    case (run w)
    then show ?thesis using False auto_discovery [of "log_call (Ran DISCOVERY_WORK) st"] auto_connected_work assms(3)
      by (cases w) (simp_all add: run_work_def Let_def)
  next
    case (connect a e)
    from connect(3) show ?thesis
      by (cases rule: connect_cases) (use assms(3) in \<open>auto simp: auto_inv_def open_session_def\<close>)
  next
    case (connected c e)
    then show ?thesis using assms(3) by (auto simp: auto_inv_def connected_cb_def)
  next
    case (disconnected c)
    then show ?thesis by (simp add: auto_inv_def disconnected_cb_def)
  next
    case (security c level e)
    then show ?thesis using assms(3) by (auto simp: auto_inv_def security_cb_def)
  next
    case (discovered c k attr it st1)
    have "auto_inv st1"
      using auto_same [OF assms(3) _ auto_discover [OF discovered(4)]] discover_link [OF discovered(4)]
      by (simp add: same_link_def)
    then show ?thesis using discovered(2) by simp
  next
    case (read_reply c h e data it st1)
    have "auto_inv st1"
      using auto_same [OF assms(3) _ auto_read [OF read_reply(4)]] read_link [OF read_reply(4)]
      by (simp add: same_link_def)
    then show ?thesis using read_reply(2) by simp
  next
    case (written c h e)
    then have "stage st \<noteq> CONNECTING" using assms(2) by (auto simp: gatt_inv_def)
    then show ?thesis using written(2) assms(3) by (auto simp: written_cb_def auto_inv_def valid_callback_def)
  next
    case (subscribed c i h h' e)
    then show ?thesis using assms(3) by (auto simp: subscribed_cb_def auto_inv_def Let_def)
  next
    case (notified i c data it)
    then show ?thesis 
      using auto_same [OF assms(3) _ auto_notify(1) [OF notified(3)]] auto_notify(2) [OF notified(3)] notify_link [OF notified(3)]
      by (simp add: same_link_def)
  qed (use False in simp_all)
qed

lemma gatt_step:
  assumes "client_step H st oper st'" and "auto_inv st" and "link_inv st" and "gatt_inv H st" and "session_inv st"
  shows "gatt_inv H st' \<and> session_inv st'"
proof (cases "quiet_op oper")
  case True
  then show ?thesis using quiet_inv quiet_step [OF assms(1)] assms(4,5) by blast
next
  case False
  from assms(1) show ?thesis
  proof cases
    case (run w)
    then show ?thesis using gatt_run assms by simp
  next
    case (connect a e)
    then show ?thesis using gatt_connect assms by blast
  next
    case (connected c e)
    have "owns st (Some c) \<Longrightarrow> stage st = CONNECTING \<or> stage st = CLOSING"
      using connected(3) assms(2) unfolding auto_inv_def owns_def by (metis option.distinct(1))
    then show ?thesis using gatt_connected_cb [of st c H e] connected(2) assms(4,5) by simp
  next
    case (disconnected c)
    then show ?thesis using gatt_disconnected assms by simp
  next
    case (security c level e)
    then show ?thesis using gatt_security_cb assms by simp
  next
    case (discovered c k attr it st1)
    then show ?thesis using gatt_discovered [OF assms(4,5)] by simp
  next
    case (read_reply c h e data it st1)
    then show ?thesis using gatt_read_reply [OF assms(4,5)] by simp
  next
    case (written c h e)
    then show ?thesis using gatt_written [OF assms(4,5)] by simp
  next
    case (subscribed c i h h' e)
    then show ?thesis using gatt_subscribed [OF assms(4,5)] by simp
  next
    case (notified i c data it)
    then show ?thesis using gatt_notify [OF assms(4,5)] by simp
  qed (use False in simp_all)
qed

definition client_inv :: "'c host \<Rightarrow> 'c client \<Rightarrow> bool" where
  "client_inv H st \<longleftrightarrow> boot_inv st \<and> link_inv st \<and> session_inv st \<and> gatt_inv H st \<and> auto_inv st"

lemma client_inv_boot: "client_inv H client_boot"
  by (simp add: client_inv_def boot_inv_boot link_inv_boot gatt_inv_boot) (simp add: auto_inv_def client_boot_def)

lemma link_step:
  assumes "client_step H st oper st'" and "client_inv H st"
  shows "link_inv st'"
proof -
  have l: "link_inv st" and b: "boot_inv st" and g: "gatt_inv H st" using assms(2) by (simp_all add: client_inv_def)
  show ?thesis using assms(1)
  proof cases
    case (subscribed c i h h' e)
    have "stage st \<noteq> READY" if "valid_callback st (Some c)"
    proof -
      have "active st" using that valid_conn [OF that] by (simp add: valid_callback_def active_def)
      then have "expected st (Gatt_Subscribe c i h h')" using g subscribed(3) by (simp add: gatt_inv_def)
      then show ?thesis by simp
    qed
    then show ?thesis using link_subscribed [OF l] subscribed(2) by simp
  next
    case (stored_peer name len rd e)
    then have "mouse_conn st = None" using b by (auto simp: boot_inv_def)
    then show ?thesis using link_settings l stored_peer by blast
  next
    case (discovered c k attr it st1)
    then show ?thesis using link_discover [OF l] by simp
  next
    case (read_reply c h e data it st1)
    then show ?thesis using link_read [OF l] by simp
  qed (use l in \<open>auto simp: link_run link_connected_cb link_disconnected_cb link_security_cb link_pairing_complete
        link_pairing_failed link_written link_start dest: link_connect link_advertisement link_notify link_keys\<close>)
qed

lemma client_inv_step: "client_step H st oper st' \<Longrightarrow> client_inv H st \<Longrightarrow> client_inv H st'"
  using boot_inv_step link_step gatt_step auto_step unfolding client_inv_def by metis

lemma client_inv_trace: "client_trace H ops st \<Longrightarrow> client_inv H st"
  by (induction rule: client_trace.induct) (auto intro: client_inv_boot client_inv_step)

section \<open>Further invariants\<close>

text \<open>
  What a further invariant of the runs has to show: it holds at boot, and every step keeps it in the
  states that satisfy the invariant above. It may speak of the history of steps, or of the state alone.
\<close>

locale history_invariant =
  fixes H :: "'c host" and holds :: "'c client_op list \<Rightarrow> 'c client \<Rightarrow> bool"
  assumes at_boot: "holds [] client_boot"
    and kept: "client_step H st oper st' \<Longrightarrow> client_inv H st \<Longrightarrow> holds ops st \<Longrightarrow> holds (ops @ [oper]) st'"
begin

lemma everywhere: "client_trace H ops st \<Longrightarrow> holds ops st"
  by (induction rule: client_trace.induct) (auto intro: at_boot kept client_inv_trace)

end

locale state_invariant =
  fixes H :: "'c host" and always :: "'c client \<Rightarrow> bool"
  assumes initially: "always client_boot"
    and preserved: "client_step H st oper st' \<Longrightarrow> client_inv H st \<Longrightarrow> always st \<Longrightarrow> always st'"

sublocale state_invariant \<subseteq> history_invariant H "\<lambda>_. always"
  by unfold_locales (auto intro: initially preserved)

end
