(* ===== verification/Ble_Client_Cover.thy ===== *)
theory Ble_Client_Cover
  imports Ble_Client_Gatt
begin

text \<open>
  Which inputs the subscribed reports deliver: a button or an axis counts as covered only when a
  subscription accepted by the host since the connection was opened carries it.
\<close>

section \<open>Coverage\<close>

definition subscribed_report :: "'c client \<Rightarrow> nat \<Rightarrow> nat \<Rightarrow> bool" where
  "subscribed_report st i ri \<longleftrightarrow> i < length (reports (session st)) \<and>
     mouse_hid_report_index (hid_map (session st)) (rc_id (reports (session st) ! i)) = Ret ri \<and>
     (\<exists>c h h'. mouse_conn st = Some c \<and> Gatt_Subscribe c i h h' \<in> set (attempt_calls (calls st)))"

definition carries :: "mouse_hid_map \<Rightarrow> nat \<Rightarrow> mouse_hid_usage \<Rightarrow> nat \<Rightarrow> bool" where
  "carries m ri us b \<longleftrightarrow> (\<exists>f \<in> set (m_fields m). unat (f_report f) = ri \<and> f_usage f = us \<and>
     (us = MOUSE_BUTTON \<longrightarrow> unat (f_button f) = b))"

definition delivers :: "'c client \<Rightarrow> mouse_hid_usage \<Rightarrow> nat \<Rightarrow> bool" where
  "delivers st us b \<longleftrightarrow> (\<exists>i ri. subscribed_report st i ri \<and> carries (hid_map (session st)) ri us b)"

text \<open>The stages before the subscriptions.\<close>

definition early :: "client_stage \<Rightarrow> bool" where
  "early s \<longleftrightarrow> CONNECTING \<le> s \<and> s \<le> PROTOCOL"

lemma early_simps [simp]:
  "\<not> early IDLE" "early CONNECTING" "early SECURITY" "\<not> early READY" "\<not> early CLOSING" "early SERVICE"
  "early CHARACTERISTICS" "early DESCRIPTORS" "early REPORT_MAP" "early REPORT_REFERENCES" "early PROTOCOL"
  "\<not> early SUBSCRIPTIONS"
  by (simp_all add: early_def less_eq_client_stage_def)

definition uncovered :: "session \<Rightarrow> bool" where
  "uncovered s \<longleftrightarrow> covered_buttons s = 0 \<and> covered_axes s = 0"

definition backed :: "'c client \<Rightarrow> bool" where
  "backed st \<longleftrightarrow>
     (\<forall>b. bit (covered_buttons (session st)) b \<longrightarrow> delivers st MOUSE_BUTTON b) \<and>
     (\<forall>us. us \<noteq> MOUSE_BUTTON \<longrightarrow> bit (covered_axes (session st)) (axis_bit us) \<longrightarrow> delivers st us 0)"

definition cover_inv :: "'c client \<Rightarrow> bool" where
  "cover_inv st \<longleftrightarrow> (early (stage st) \<longrightarrow> uncovered (session st)) \<and>
     (stage st = SUBSCRIPTIONS \<or> stage st = READY \<longrightarrow> backed st)"

lemma uncovered_inv: "uncovered (session st) \<Longrightarrow> cover_inv st"
  by (simp add: cover_inv_def uncovered_def backed_def)

lemma cover_off: "stage st = IDLE \<or> stage st = CLOSING \<Longrightarrow> cover_inv st"
  by (auto simp: cover_inv_def)

lemma cover_inv_boot: "cover_inv client_boot"
  by (rule cover_off) (simp add: client_boot_def)

text \<open>What keeps the coverage: the same reports and map, and at least the same calls.\<close>

definition same_reports :: "'c client \<Rightarrow> 'c client \<Rightarrow> bool" where
  "same_reports st st' \<longleftrightarrow> covered_buttons (session st') = covered_buttons (session st) \<and>
     covered_axes (session st') = covered_axes (session st) \<and> hid_map (session st') = hid_map (session st) \<and>
     map rc_id (reports (session st')) = map rc_id (reports (session st)) \<and> mouse_conn st' = mouse_conn st \<and>
     set (attempt_calls (calls st)) \<subseteq> set (attempt_calls (calls st'))"

lemma same_ids:
  assumes "map rc_id rs' = map rc_id rs" and "i < length rs"
  shows "i < length rs' \<and> rc_id (rs' ! i) = rc_id (rs ! i)"
proof -
  have "length rs' = length rs" using assms(1) map_eq_imp_length_eq by blast
  then show ?thesis using assms nth_map [of i rs' rc_id] nth_map [of i rs rc_id] by metis
qed

lemma delivers_same:
  assumes "same_reports st st'" and "delivers st us b"
  shows "delivers st' us b"
proof -
  obtain i ri where "subscribed_report st i ri" "carries (hid_map (session st)) ri us b"
    using assms(2) by (auto simp: delivers_def)
  then have "subscribed_report st' i ri" "carries (hid_map (session st')) ri us b"
    using assms(1) same_ids [of "reports (session st')" "reports (session st)" i]
    by (auto simp: same_reports_def subscribed_report_def)
  then show ?thesis by (auto simp: delivers_def)
qed

lemma backed_same: "same_reports st st' \<Longrightarrow> backed st \<Longrightarrow> backed st'"
  using delivers_same unfolding backed_def same_reports_def by metis

lemma cover_same:
  assumes "same_reports st st'" and "cover_inv st" and "stage st' = stage st \<or> stage st = SUBSCRIPTIONS \<and> stage st' = READY"
  shows "cover_inv st'"
  using assms backed_same [OF assms(1)] by (auto simp: cover_inv_def same_reports_def uncovered_def)

lemma cover_log: "\<not> opens c \<Longrightarrow> cover_inv st \<Longrightarrow> cover_inv (log_call c st)"
  by (rule cover_same [of st]) (auto simp: same_reports_def)

lemma cover_quiet:
  assumes "quiet H st st'" and "cover_inv st"
  shows "cover_inv st'"
  using assms(1)
proof (cases rule: quiet_cases)
  case same
  then have "same_reports st st'" using quietD(4,6) [OF assms(1)] by (auto simp: same_reports_def)
  then show ?thesis using assms(2) same(1) by (simp add: cover_same)
qed (auto intro: cover_off)

section \<open>Subscribing\<close>

lemma bit_covered_field:
  assumes "unat (f_button f) < 8"
  shows "bit (covered_buttons (cover_field ri f s)) b \<longleftrightarrow> bit (covered_buttons s) b \<or>
      (unat (f_report f) = ri \<and> f_usage f = MOUSE_BUTTON \<and> unat (f_button f) = b)"
    and "us \<noteq> MOUSE_BUTTON \<Longrightarrow> bit (covered_axes (cover_field ri f s)) (axis_bit us) \<longleftrightarrow>
      bit (covered_axes s) (axis_bit us) \<or> (unat (f_report f) = ri \<and> f_usage f = us)"
proof -
  show "bit (covered_buttons (cover_field ri f s)) b \<longleftrightarrow> bit (covered_buttons s) b \<or>
      (unat (f_report f) = ri \<and> f_usage f = MOUSE_BUTTON \<and> unat (f_button f) = b)"
    using assms by (auto simp: cover_field_def bit_or_iff bit_exp_iff)
  show "us \<noteq> MOUSE_BUTTON \<Longrightarrow> bit (covered_axes (cover_field ri f s)) (axis_bit us) \<longleftrightarrow>
      bit (covered_axes s) (axis_bit us) \<or> (unat (f_report f) = ri \<and> f_usage f = us)"
    by (cases us; cases "f_usage f") (auto simp: cover_field_def bit_or_iff bit_1_iff bit_exp_iff)
qed

lemma bit_covered_fields:
  assumes "\<forall>f \<in> set fs. unat (f_button f) < 8"
  shows "bit (covered_buttons (fold (cover_field ri) fs s)) b \<longleftrightarrow> bit (covered_buttons s) b \<or>
      (\<exists>f \<in> set fs. unat (f_report f) = ri \<and> f_usage f = MOUSE_BUTTON \<and> unat (f_button f) = b)"
    and "us \<noteq> MOUSE_BUTTON \<Longrightarrow> bit (covered_axes (fold (cover_field ri) fs s)) (axis_bit us) \<longleftrightarrow>
      bit (covered_axes s) (axis_bit us) \<or> (\<exists>f \<in> set fs. unat (f_report f) = ri \<and> f_usage f = us)"
  using assms
proof (induction fs arbitrary: s)
  case (Cons f fs)
  note field = bit_covered_field [of f]
  case 1
  then show ?case using Cons(1) field(1) by auto
  case 2
  then show ?case using Cons(2) field(2) by auto
qed simp_all

lemma cover_report_bits:
  assumes "map_wf (hid_map s)"
  shows "bit (covered_buttons (cover_report ident s)) b \<longleftrightarrow> bit (covered_buttons s) b \<or>
      (\<exists>ri. mouse_hid_report_index (hid_map s) ident = Ret ri \<and> carries (hid_map s) ri MOUSE_BUTTON b)"
    and "us \<noteq> MOUSE_BUTTON \<Longrightarrow> bit (covered_axes (cover_report ident s)) (axis_bit us) \<longleftrightarrow>
      bit (covered_axes s) (axis_bit us) \<or>
      (\<exists>ri. mouse_hid_report_index (hid_map s) ident = Ret ri \<and> carries (hid_map s) ri us 0)"
proof -
  have "\<forall>f \<in> set (m_fields (hid_map s)). unat (f_button f) < 8"
    using assms by (auto simp: map_wf_def field_wf_def)
  note bits = bit_covered_fields [OF this]
  show "bit (covered_buttons (cover_report ident s)) b \<longleftrightarrow> bit (covered_buttons s) b \<or>
      (\<exists>ri. mouse_hid_report_index (hid_map s) ident = Ret ri \<and> carries (hid_map s) ri MOUSE_BUTTON b)"
    by (auto simp: cover_report_def carries_def bits(1) split: cret.split)
  show "us \<noteq> MOUSE_BUTTON \<Longrightarrow> bit (covered_axes (cover_report ident s)) (axis_bit us) \<longleftrightarrow>
      bit (covered_axes s) (axis_bit us) \<or>
      (\<exists>ri. mouse_hid_report_index (hid_map s) ident = Ret ri \<and> carries (hid_map s) ri us 0)"
    by (auto simp: cover_report_def carries_def bits(2) split: cret.split)
qed

lemma cover_subscribed:
  assumes "cover_inv st" and "session_inv st" and "gatt_inv H st"
    and "outstanding H (calls st) = Some (Gatt_Subscribe c i h h')"
  shows "cover_inv (log_call Gatt_Done (subscribed_cb (Some c) e i st))"
proof -
  have ex: "expected st (Gatt_Subscribe c i h h') \<Longrightarrow> mouse_conn st = Some c" by simp
  show ?thesis
  proof (rule reply_cases [OF assms(3,4) ex])
    assume "\<not> valid_callback st (Some c)"
    then show ?thesis using assms(1) by (simp add: subscribed_cb_def cover_log)
  next
    assume v: "valid_callback st (Some c)" and ex: "expected st (Gatt_Subscribe c i h h')"
    define q where "q = log_call Gatt_Done (subscribed_cb (Some c) e i st)"
    show ?thesis
    proof (cases e)
      case True
      then have "same_reports st q" "stage q = stage st" using v by (auto simp: q_def subscribed_cb_def same_reports_def)
      then show ?thesis using assms(1) by (simp add: cover_same [of st q] flip: q_def)
    next
      case False
      define s where "s = session st"
      have q: "session q = (cover_report (rc_id (reports s ! i)) s)\<lparr>subscribed := subscribed s + 1, index := index s + 1\<rparr>"
        "mouse_conn q = mouse_conn st" "stage q = stage st"
        "set (attempt_calls (calls st)) \<subseteq> set (attempt_calls (calls q))"
        using v ex False by (auto simp: q_def s_def subscribed_cb_def Let_def)
      have wf: "map_wf (hid_map s)" using assms(2) by (simp add: s_def session_inv_def session_ok_def)
      have here: "subscribed_report q i ri" if "mouse_hid_report_index (hid_map s) (rc_id (reports s ! i)) = Ret ri" for ri
        using that ex q(1,2,4) outstanding_attempt [OF assms(4)] by (auto simp: subscribed_report_def s_def)
      have "subscribed_report q n ri" if "subscribed_report st n ri" for n ri
        using that q(4) unfolding subscribed_report_def q(1,2) by (auto simp: s_def)
      then have old: "delivers q us b" if "delivers st us b" for us b
        using that q(1) by (auto simp: delivers_def s_def)
      have "backed st" using assms(1) ex by (simp add: cover_inv_def)
      then have "backed q" using old here q(1) cover_report_bits [OF wf]
        by (fastforce simp: backed_def delivers_def s_def)
      then have "cover_inv q" using ex q(3) by (simp add: cover_inv_def)
      then show ?thesis by (simp add: q_def)
    qed
  qed
qed

section \<open>The other steps\<close>

lemma cover_connect:
  assumes "connect_mouse H a st = (e, st')" and "cover_inv st" and "link_inv st"
  shows "cover_inv st'"
  using assms(1)
proof (cases rule: connect_cases)
  case refused
  then show ?thesis using assms(2) by simp
next
  case full
  then have "stage st' = IDLE" using assms(3) by (simp add: link_inv_def)
  then show ?thesis by (simp add: cover_off)
next
  case failed
  then show ?thesis by (simp add: cover_off)
next
  case dialled
  then show ?thesis by (intro uncovered_inv) (simp add: uncovered_def open_session_def empty_session_def)
qed

lemma discover_uncovered:
  assumes "discover_cb conn attr st = (it, st')"
  shows "covered_buttons (session st') = covered_buttons (session st) \<and> covered_axes (session st') = covered_axes (session st)"
  using assms
  by (cases "stage st")
    (auto simp: discover_cb_def close_last_report_def Let_def split: option.splits if_splits)

lemma read_uncovered:
  assumes "read_cb conn e data st = (it, st')"
  shows "covered_buttons (session st') = covered_buttons (session st) \<and> covered_axes (session st') = covered_axes (session st)"
  using assms by (auto simp: read_cb_def Let_def split: option.splits if_splits)

text \<open>Replies before the subscriptions leave the session uncovered.\<close>

lemma cover_early:
  assumes "cover_inv st" and "early (stage st)"
    and "covered_buttons (session st') = covered_buttons (session st)" "covered_axes (session st') = covered_axes (session st)"
  shows "cover_inv st'"
  using assms by (intro uncovered_inv) (simp add: cover_inv_def uncovered_def)

lemma cover_discovered:
  assumes "cover_inv st" and "gatt_inv H st" and "outstanding H (calls st) = Some (Gatt_Discover c k)"
    and "discover_cb (Some c) attr st = (it, st')"
  shows "cover_inv st'"
proof -
  have ex: "expected st (Gatt_Discover c k) \<Longrightarrow> mouse_conn st = Some c" by simp
  show ?thesis
  proof (rule reply_cases [OF assms(2,3) ex])
    assume "expected st (Gatt_Discover c k)"
    then have "early (stage st)" by (auto split: discovery.splits)
    then show ?thesis using cover_early [OF assms(1)] discover_uncovered [OF assms(4)] by blast
  qed (use assms in \<open>auto simp: discover_cb_def\<close>)
qed

lemma cover_read:
  assumes "cover_inv st" and "gatt_inv H st" and "outstanding H (calls st) = Some (Gatt_Read c h)"
    and "read_cb (Some c) e data st = (it, st')"
  shows "cover_inv st'"
proof -
  have ex: "expected st (Gatt_Read c h) \<Longrightarrow> mouse_conn st = Some c" by simp
  show ?thesis
  proof (rule reply_cases [OF assms(2,3) ex])
    assume "expected st (Gatt_Read c h)"
    then have "early (stage st)" by auto
    then show ?thesis using cover_early [OF assms(1)] read_uncovered [OF assms(4)] by blast
  qed (use assms in \<open>auto simp: read_cb_def\<close>)
qed

lemma cover_written:
  assumes "cover_inv st" and "gatt_inv H st" and "outstanding H (calls st) = Some (Gatt_Write c h)"
  shows "cover_inv (written_cb (Some c) e st)"
proof -
  have ex: "expected st (Gatt_Write c h) \<Longrightarrow> mouse_conn st = Some c" by simp
  show ?thesis
  proof (rule reply_cases [OF assms(2,3) ex])
    assume "expected st (Gatt_Write c h)"
    then have "early (stage st)" by auto
    then show ?thesis by (rule cover_early [OF assms(1)]) (simp_all add: written_cb_def)
  qed (use assms in \<open>auto simp: written_cb_def\<close>)
qed

lemma cover_notify:
  assumes "cover_inv st" and "session_inv st" and "i < length (reports (session st))"
    and "notify_cb conn i data st = (it, st')"
  shows "cover_inv st'"
  using assms(2,3,4)
proof (cases rule: notify_cases)
  case broken
  then show ?thesis using assms(1) cover_quiet [OF quiet_fail] by blast
next
  case (frame bytes ri)
  have "map rc_id ((reports (session st))[i := (reports (session st) ! i)\<lparr>rc_buttons := x\<rparr>]) = map rc_id (reports (session st))" for x
    using assms(3) by (simp add: map_update) (metis list_update_id nth_map)
  then have "same_reports st st'" using frame(5) by (auto simp: same_reports_def Let_def)
  moreover have "stage st' = stage st" using frame(5) by (simp add: Let_def)
  ultimately show ?thesis using cover_same [of st st'] assms(1) by simp
qed (use assms in simp)

lemma finish_reports: "same_reports st (finish_ready H c st)"
  by (auto simp: same_reports_def finish_ready_def perform_eq Let_def)

lemma cover_subscriptions:
  assumes "stage st = SUBSCRIPTIONS" and "cover_inv st" and "subscriptions_stage H c st = (e, st')"
  shows "cover_inv st'"
proof -
  have c1: "cover_inv (upd_session (index_update (\<lambda>_. n)) st)" for n
    using cover_same [of st "upd_session (index_update (\<lambda>_. n)) st"] assms(2) by (simp add: same_reports_def)
  from assms(3) show ?thesis
  proof (cases rule: subscriptions_cases)
    case (1 n)
    define st1 where "st1 = upd_session (index_update (\<lambda>_. n)) st"
    have "same_reports st1 st'" using finish_reports 1 by (simp add: st1_def)
    moreover have "stage st1 = SUBSCRIPTIONS" using assms(1) by (simp add: st1_def)
    ultimately show ?thesis
      using cover_same [of st1 st'] c1 [of n] finish_stage [of H c st1] 1 by (auto simp: st1_def)
  qed (auto intro!: cover_log c1)
qed

lemma protocol_uncovered:
  assumes "protocol_stage H c st = (e, st')"
  shows "session st' = session st"
  using assms by (auto simp: protocol_stage_def perform_eq Let_def split: if_splits)

lemma references_uncovered:
  assumes "references_stage H c st = (e, st')"
  shows "covered_buttons (session st') = covered_buttons (session st) \<and> covered_axes (session st') = covered_axes (session st)"
proof -
  obtain e1 st1 where p: "parse_stage st = (e1, st1)" by fastforce
  then obtain m where "st1 = upd_session (\<lambda>s. s\<lparr>hid_map := m\<rparr>) st" by (rule parse_stage_cases)
  then show ?thesis using assms p by (auto simp: references_stage_def perform_eq Let_def split: if_splits)
qed

lemma cover_fail: "cover_inv st \<Longrightarrow> cover_inv (fail e st)"
  using cover_quiet [OF quiet_fail] by blast

lemma cover_discovery:
  assumes "cover_inv st"
  shows "cover_inv (discovery_work_cb H st)"
proof (cases "active st \<and> discovering (stage st)")
  case False
  then have "discovery_work_cb H st = st"
    by (cases "stage st") (auto simp: discovery_work_cb_def active_def split: option.split)
  then show ?thesis using assms by simp
next
  case True
  then obtain c where c: "mouse_conn st = Some c" "failure st = ok" "stage st \<noteq> CLOSING" by (auto simp: active_def)
  define r where "r = (case stage st of
      SERVICE \<Rightarrow> perform H (Gatt_Discover c Primary_HIDS) st
    | CHARACTERISTICS \<Rightarrow> perform H (Gatt_Discover c (Characteristics_Of (service_start (session st)) (service_end (session st)))) st
    | DESCRIPTORS \<Rightarrow> perform H (Gatt_Discover c (Descriptors_Of (service_start (session st)) (service_end (session st)))) st
    | REPORT_MAP \<Rightarrow> read_map_stage H c st
    | REPORT_REFERENCES \<Rightarrow> references_stage H c st
    | PROTOCOL \<Rightarrow> protocol_stage H c st
    | SUBSCRIPTIONS \<Rightarrow> subscriptions_stage H c st
    | _ \<Rightarrow> (ok, st))"
  obtain e q where r: "r = (e, q)" by fastforce
  have run: "discovery_work_cb H st = (if e \<noteq> ok then fail e q else q)"
    using c r by (simp add: discovery_work_cb_def Let_def flip: r_def)
  have "cover_inv q"
  proof (cases "stage st = SUBSCRIPTIONS")
    case True
    then show ?thesis using cover_subscriptions [OF True assms] r by (simp add: r_def)
  next
    case False
    then have ear: "early (stage st)" using True by (cases "stage st") simp_all
    have "covered_buttons (session q) = covered_buttons (session st) \<and> covered_axes (session q) = covered_axes (session st)"
      using r True False protocol_uncovered [of H c st e q] references_uncovered [of H c st e q]
      by (cases "stage st") (auto simp: r_def perform_eq read_map_stage_def)
    then show ?thesis using cover_early [OF assms ear] by blast
  qed
  then show ?thesis using run by (simp add: cover_fail)
qed

lemma cover_connected_work:
  assumes "gatt_inv H st" and "link_inv st" and "cover_inv st" and "pending_work CONNECTED_WORK (calls st)"
  shows "cover_inv (run_work H CONNECTED_WORK st)"
proof (cases "stage st = CONNECTING")
  case True
  have "uncovered (session st)" using assms(3) True by (simp add: cover_inv_def)
  moreover have "session (run_work H CONNECTED_WORK st) = session st"
    by (simp add: run_work_def connected_work_cb_def complete_connection_def abandon_mouse_def
        after_close_def Let_def split: option.split)
  ultimately show ?thesis by (intro uncovered_inv) simp
next
  case False
  then have st: "stage st = IDLE \<or> stage st = CLOSING" using assms(1,4) by (auto simp: gatt_inv_def)
  then have "mouse_conn st = None \<or> stage st = CLOSING" using assms(2) by (auto simp: link_inv_def)
  then have "stage (run_work H CONNECTED_WORK st) = IDLE \<or> stage (run_work H CONNECTED_WORK st) = CLOSING"
    using st by (auto simp: run_work_def connected_work_cb_def complete_connection_def abandon_mouse_def
        after_close_def Let_def split: option.split)
  then show ?thesis by (rule cover_off)
qed

lemma cover_run:
  assumes "gatt_inv H st" and "link_inv st" and "cover_inv st" and "pending_work w (calls st)"
  shows "cover_inv (run_work H w st)"
proof -
  consider "w = DISCOVERY_WORK" | "w = CONNECTED_WORK" | "w \<noteq> DISCOVERY_WORK" "w \<noteq> CONNECTED_WORK" by blast
  then show ?thesis
  proof cases
    case 1
    have "cover_inv (log_call (Ran DISCOVERY_WORK) st)" using assms(3) by (simp add: cover_log)
    then show ?thesis using 1 cover_discovery by (simp add: run_work_def Let_def)
  next
    case 2
    then show ?thesis using cover_connected_work assms by blast
  next
    case 3
    then show ?thesis using cover_quiet [OF quiet_run] assms(3) by blast
  qed
qed

lemma cover_serving: "cover_inv st \<Longrightarrow> stage st = SECURITY \<Longrightarrow> cover_inv (submit DISCOVERY_WORK (st\<lparr>stage := SERVICE\<rparr>))"
  by (simp add: cover_inv_def)

lemma cover_step:
  assumes "client_step H st oper st'" and "client_inv H st" and "cover_inv st"
  shows "cover_inv st'"
proof -
  have inv: "link_inv st" "session_inv st" "gatt_inv H st" using assms(2) by (simp_all add: client_inv_def)
  show ?thesis
  proof (cases "quiet_op oper")
    case True
    then show ?thesis using cover_quiet quiet_step [OF assms(1)] assms(3) by blast
  next
    case False
    from assms(1) show ?thesis
    proof cases
      case (run w)
      then show ?thesis using cover_run inv assms(3) by simp
    next
      case (connect a e)
      then show ?thesis using cover_connect assms(3) inv by blast
    next
      case (connected c e)
      then have "same_reports st st' \<and> stage st' = stage st" by (auto simp: connected_cb_def same_reports_def)
      then show ?thesis using assms(3) cover_same [of st st'] by simp
    next
      case (disconnected c)
      then show ?thesis by (intro cover_off) (simp add: disconnected_cb_def)
    next
      case (security c level e)
      then show ?thesis using assms(3) by (auto simp: security_cb_def cover_fail intro: cover_serving)
    next
      case (discovered c k attr it st1)
      then show ?thesis using cover_discovered [OF assms(3) inv(3)] by (simp add: cover_log)
    next
      case (read_reply c h e data it st1)
      then show ?thesis using cover_read [OF assms(3) inv(3)] by (simp add: cover_log)
    next
      case (written c h e)
      then show ?thesis using cover_written [OF assms(3) inv(3)] by (simp add: cover_log)
    next
      case (subscribed c i h h' e)
      then show ?thesis using cover_subscribed [OF assms(3) inv(2,3)] by simp
    next
      case (notified i c data it)
      then show ?thesis using cover_notify [OF assms(3) inv(2)] by simp
    qed (use False in simp_all)
  qed
qed

interpretation cover: state_invariant H cover_inv for H :: "'c host"
  by unfold_locales (auto intro: cover_inv_boot cover_step)

lemmas cover_inv_trace = cover.everywhere

end
