(* ===== verification/Ble_Client_Origin.thy ===== *)
theory Ble_Client_Origin
  imports Ble_Client_Gatt
begin

text \<open>
  Where the client's decisions come from: which events of the run so far lie behind a bond it removes,
  an address it connects to, and a peer it keeps.
\<close>

section \<open>The calls that matter\<close>

fun marked :: "'c client_call \<Rightarrow> bool" where
  "marked (Unpair _) = True"
| "marked (Central_Connect _) = True"
| "marked (Save_Peer _) = True"
| "marked (Submit w) = (w = PAIR_WORK)"
| "marked (Schedule w _) = (w = PAIR_WORK)"
| "marked _ = False"

definition marks :: "'c client_call list \<Rightarrow> 'c client_call list" where
  "marks cs = filter marked cs"

lemma marks_Cons [simp]: "marks (c # cs) = (if marked c then c # marks cs else marks cs)"
  by (simp add: marks_def)

lemma marks_plain [simp]: "list_all plain new \<Longrightarrow> marks (new @ cs) = marks cs"
proof (induction new)
  case (Cons c new)
  then show ?case by (cases c) auto
qed simp

lemma marks_security [simp]: "marks (calls (start_security H c st)) = marks (calls st)"
  by (cases rule: security_cases [of H c st]) simp

lemma marks_set: "marked c \<Longrightarrow> c \<in> set cs \<longleftrightarrow> c \<in> set (marks cs)"
  by (simp add: marks_def)

subsection \<open>What each handler marks\<close>

lemma marks_retry:
  "marks (calls (retry_work_cb H st)) =
     (if scan_wanted (retry_work_cb H st) \<and> have_peer st then [Central_Connect (peer st)] else []) @ marks (calls st)"
  by (simp add: retry_work_cb_def Let_def)

lemma marks_forget:
  "marks (calls (forget_peer H st)) = (if have_peer st then [Unpair (peer st)] else []) @ marks (calls st)"
  by (simp add: forget_peer_def perform_eq Let_def)

lemma marks_after_close:
  "marks (calls (after_close H st)) =
     (if forget_requested st \<and> have_peer st then [Unpair (peer st)] else []) @ marks (calls st)"
  by (simp add: after_close_def marks_forget)

lemma marks_release:
  "marks (calls (release_mouse H c st)) =
     (if new_candidate st \<and> candidate_bonded st
      then [Unpair (conn_dst H (Set_Auto_Conn (conn_dst H (calls st) c) False # calls st) c)] else []) @ marks (calls st)"
  by (simp add: release_mouse_def Let_def)

lemma marks_finish:
  "\<exists>new. set new \<subseteq> {Save_Peer (conn_dst H (calls st) c)} \<and> marks (calls (finish_ready H c st)) = new @ marks (calls st) \<and>
     (have_peer (finish_ready H c st) \<longrightarrow> have_peer st \<and> peer (finish_ready H c st) = peer st \<or>
        Save_Peer (peer (finish_ready H c st)) \<in> set new)"
  by (simp add: finish_ready_def perform_eq Let_def exI [of _ "[Save_Peer (conn_dst H (calls st) c)]"])

lemma marks_discover: "discover_cb conn attr st = (it, st') \<Longrightarrow> marks (calls st') = marks (calls st)"
  by (cases "stage st") (auto simp: discover_cb_def Let_def split: option.splits if_splits)

lemma marks_read: "read_cb conn e data st = (it, st') \<Longrightarrow> marks (calls st') = marks (calls st)"
  by (auto simp: read_cb_def Let_def split: option.splits if_splits)

lemma marks_gatt:
  "marks (calls (written_cb conn e st)) = marks (calls st)" "marks (calls (subscribed_cb conn e i st)) = marks (calls st)"
  by (simp_all add: written_cb_def subscribed_cb_def Let_def)

lemma marks_notify:
  assumes "session_inv st" and "i < length (reports (session st))" and "notify_cb conn i data st = (it, st')"
  shows "marks (calls st') = marks (calls st)"
  using assms by (cases rule: notify_cases) (simp_all add: Let_def)

lemma marks_connect: "connect_mouse H a st = (e, st') \<Longrightarrow> marks (calls st') = marks (calls st)"
  by (cases rule: connect_cases) auto

lemma marks_stages:
  "references_stage H c st = (e, st') \<Longrightarrow> marks (calls st') = marks (calls st)"
  "protocol_stage H c st = (e, st') \<Longrightarrow> marks (calls st') = marks (calls st)"
proof -
  obtain e1 st1 where p: "parse_stage st = (e1, st1)" by fastforce
  then obtain m where "st1 = upd_session (\<lambda>s. s\<lparr>hid_map := m\<rparr>) st" by (rule parse_stage_cases)
  then show "references_stage H c st = (e, st') \<Longrightarrow> marks (calls st') = marks (calls st)"
    using p by (auto simp: references_stage_def perform_eq Let_def split: if_splits)
  show "protocol_stage H c st = (e, st') \<Longrightarrow> marks (calls st') = marks (calls st)"
    by (auto simp: protocol_stage_def perform_eq Let_def split: if_splits)
qed

lemma marks_callbacks:
  "marks (calls (timeout_work_cb st)) = marks (calls st)" "marks (calls (disconnected_cb c st)) = marks (calls st)"
  "marks (calls (pairing_complete_cb c b st)) = marks (calls st)"
  "marks (calls (pairing_failed_cb c st)) = marks (calls st)"
  "marks (calls (security_cb c level x st)) = marks (calls st)"
  "marks (calls (connected_cb H c x' st)) = marks (calls st)"
  "marks (calls (zmk_ble_mouse_start st)) = marks (calls st)" "marks (calls (take_event st)) = marks (calls st)"
  by (simp_all add: timeout_work_cb_def disconnected_cb_def pairing_complete_cb_def pairing_failed_cb_def
      security_cb_def connected_cb_def zmk_ble_mouse_start_def take_event_def Let_def split: option.split)

lemma marks_pressed:
  "pressed True o1 k st = (e, st') \<Longrightarrow> marks (calls st') = marks (calls st) \<or>
     k = MOUSE_PAIR \<and> marks (calls st') = Submit PAIR_WORK # marks (calls st)"
  by (auto simp: pressed_def zmk_ble_mouse_pair_def zmk_ble_mouse_clear_hold_def Let_def split: if_splits)

lemma marks_quiet_calls:
  "settings_set name len rd st = (e, st') \<Longrightarrow> marks (calls st') = marks (calls st)"
  "released p o1 k st = (e, st') \<Longrightarrow> marks (calls st') = marks (calls st)"
  by (auto simp: settings_set_def pressed_def released_def zmk_ble_mouse_pair_def zmk_ble_mouse_clear_hold_def Let_def
      split: if_splits sum.splits)

lemma protocol_same: "protocol_stage H c st = (e, st') \<Longrightarrow> same_link st st'"
  by (auto simp: protocol_stage_def perform_eq Let_def same_link_def split: if_splits)

lemma references_same:
  assumes "references_stage H c st = (e, st')"
  shows "same_link st st'"
proof -
  obtain e1 st1 where p: "parse_stage st = (e1, st1)" by fastforce
  then obtain m where "st1 = upd_session (\<lambda>s. s\<lparr>hid_map := m\<rparr>) st" by (rule parse_stage_cases)
  then show ?thesis using assms p
    by (auto simp: references_stage_def perform_eq Let_def same_link_def split: if_splits)
qed

lemma marks_discovery:
  "\<exists>new. (\<forall>x \<in> set new. \<exists>a. x = Save_Peer a) \<and> marks (calls (discovery_work_cb H st)) = new @ marks (calls st) \<and>
     (have_peer (discovery_work_cb H st) \<longrightarrow> have_peer st \<and> peer (discovery_work_cb H st) = peer st \<or>
        Save_Peer (peer (discovery_work_cb H st)) \<in> set new)" (is "?P (discovery_work_cb H st)")
proof (cases "active st \<and> discovering (stage st)")
  case False
  then have "discovery_work_cb H st = st" by (rule discovery_rest)
  then show ?thesis by (intro exI [of _ "[]"]) simp
next
  case True
  then obtain c where c: "mouse_conn st = Some c" "failure st = ok" "stage st \<noteq> CLOSING" by (auto simp: active_def)
  have same: "?P q" if "marks (calls q) = marks (calls st)" "have_peer q = have_peer st" "peer q = peer st" for q
    using that by (intro exI [of _ "[]"]) simp
  show ?thesis
  proof (cases "stage st = SUBSCRIPTIONS")
    case True
    obtain e q where r: "subscriptions_stage H c st = (e, q)" by fastforce
    then have "?P q"
    proof (cases rule: subscriptions_cases)
      case (1 n)
      then show ?thesis using marks_finish [of H "upd_session (index_update (\<lambda>_. n)) st" c]
        by (elim exE) (intro exI, fastforce)
    qed (auto intro: same)
    then show ?thesis using r c True by (simp add: discovery_work_cb_def Let_def)
  next
    case False
    obtain e1 q1 where p: "protocol_stage H c st = (e1, q1)" by fastforce
    obtain e2 q2 where r: "references_stage H c st = (e2, q2)" by fastforce
    have keep: "have_peer q1 = have_peer st" "peer q1 = peer st" "have_peer q2 = have_peer st" "peer q2 = peer st"
      using protocol_same [OF p] references_same [OF r] by (simp_all add: same_link_def)
    show ?thesis
      using True False c keep marks_stages(1) [OF r] marks_stages(2) [OF p]
      by (intro same; cases "stage st")
        (simp_all add: discovery_work_cb_def read_map_stage_def perform_eq p r Let_def)
  qed
qed

section \<open>Bonds the client removes\<close>

fun bonds_removed :: "'c client_call list \<Rightarrow> bt_addr_le list" where
  "bonds_removed [] = []"
| "bonds_removed (c # cs) = (case c of Unpair a \<Rightarrow> a # bonds_removed cs | _ \<Rightarrow> bonds_removed cs)"

lemma removed_marks: "bonds_removed (marks cs) = bonds_removed cs"
proof (induction cs)
  case (Cons c cs)
  then show ?case by (cases c) simp_all
qed (simp add: marks_def)

lemma removed_append: "bonds_removed (xs @ ys) = bonds_removed xs @ bonds_removed ys"
proof (induction xs)
  case (Cons c xs)
  then show ?case by (cases c) simp_all
qed simp

lemma removed_by_marks: "marks (calls st') = new @ marks (calls st) \<Longrightarrow>
    bonds_removed (calls st') = bonds_removed new @ bonds_removed (calls st)"
  by (metis removed_append removed_marks)

text \<open>The two reasons to remove a bond.\<close>

definition reason :: "'c host \<Rightarrow> 'c client \<Rightarrow> bt_addr_le \<Rightarrow> bool" where
  "reason H st a \<longleftrightarrow>
     have_peer st \<and> a = peer st \<and> (forget_requested st \<or> clear_held st) \<or>
     new_candidate st \<and> candidate_bonded st \<and> (\<exists>c h. mouse_conn st = Some c \<and> a = conn_dst H h c)"

definition removes :: "'c host \<Rightarrow> 'c client \<Rightarrow> 'c client \<Rightarrow> bool" where
  "removes H st st' \<longleftrightarrow> (\<exists>new. bonds_removed (calls st') = new @ bonds_removed (calls st) \<and> (\<forall>a \<in> set new. reason H st a))"

lemma removes_none: "marks (calls st') = marks (calls st) \<Longrightarrow> removes H st st'"
  unfolding removes_def by (metis append_Nil empty_iff list.set(1) removed_marks)

lemma removes_new:
  "marks (calls st') = new @ marks (calls st) \<Longrightarrow> \<forall>a. Unpair a \<in> set new \<longrightarrow> reason H st a \<Longrightarrow> removes H st st'"
proof -
  assume m: "marks (calls st') = new @ marks (calls st)" and r: "\<forall>a. Unpair a \<in> set new \<longrightarrow> reason H st a"
  have "a \<in> set (bonds_removed cs) \<Longrightarrow> Unpair a \<in> set cs" for a :: bt_addr_le and cs :: "'a client_call list"
  proof (induction cs)
    case (Cons c cs)
    then show ?case by (cases c) auto
  qed simp
  then show ?thesis using removed_by_marks [OF m] r unfolding removes_def by blast
qed

lemma removes_disconnected: "removes H st (disconnected_work_cb H st)"
proof (cases "mouse_conn st")
  case None
  then show ?thesis by (simp add: disconnected_work_cb_def removes_none)
next
  case (Some c)
  show ?thesis
    by (rule removes_new [of _ "(if forget_requested st \<and> have_peer st then [Unpair (peer st)] else []) @
        (if new_candidate st \<and> candidate_bonded st
         then [Unpair (conn_dst H (Set_Auto_Conn (conn_dst H (calls st) c) False # calls st) c)] else [])"])
      (auto simp: disconnected_work_cb_def Some marks_after_close marks_release reason_def split: if_splits)
qed

lemma removes_failure: "removes H st (failure_work_cb H st)"
proof (cases "mouse_conn st")
  case None
  then show ?thesis by (simp add: failure_work_cb_def removes_none Let_def)
next
  case (Some c)
  define st1 where "st1 = log_call (Disconnect_Conn c) (st\<lparr>stage := CLOSING, scan_wanted := False\<rparr>)"
  have run: "failure_work_cb H st = (if answer H (calls st1) = Err ENOTCONN then disconnected_work_cb H st1 else st1)"
    using Some by (simp add: failure_work_cb_def perform_eq Let_def st1_def)
  have "reason H st1 a \<Longrightarrow> reason H st a" for a by (auto simp: reason_def st1_def)
  moreover have "bonds_removed (calls st1) = bonds_removed (calls st)" by (simp add: st1_def)
  ultimately have "removes H st1 q \<Longrightarrow> removes H st q" for q by (auto simp: removes_def)
  then show ?thesis using run removes_disconnected [of H st1] by (simp add: removes_none st1_def)
qed

lemma removes_clear: "removes H st (clear_work_cb H st)"
  by (rule removes_new [of _ "if clear_held st \<and> mouse_conn st = None \<and> have_peer st then [Unpair (peer st)] else []"])
    (auto simp: clear_work_cb_def marks_forget reason_def Let_def split: if_splits)

lemma removes_connected: "removes H st (connected_work_cb H st)"
proof -
  have keep: "forget_requested (take_event st) = forget_requested st" "have_peer (take_event st) = have_peer st"
    "peer (take_event st) = peer st" by (simp_all add: take_event_def split: option.split)
  show ?thesis
    by (rule removes_new [of _ "if marks (calls (connected_work_cb H st)) = marks (calls st) then [] else [Unpair (peer st)]"])
      (auto simp: connected_work_cb_def complete_connection_def abandon_mouse_def marks_after_close
        marks_callbacks keep Let_def reason_def split: option.splits)
qed

lemma removes_run: "removes H st (run_work H w st)"
proof -
  define st1 where "st1 = log_call (Ran w) st"
  have "reason H st1 a \<Longrightarrow> reason H st a" for a by (auto simp: reason_def st1_def)
  moreover have "bonds_removed (calls st1) = bonds_removed (calls st)" by (simp add: st1_def)
  ultimately have lift: "removes H st1 q \<Longrightarrow> removes H st q" for q by (auto simp: removes_def)
  have retry: "removes H st1 (retry_work_cb H q)" if "marks (calls q) = marks (calls st1)" for q
    by (rule removes_new [of _ "if scan_wanted (retry_work_cb H q) \<and> have_peer q then [Central_Connect (peer q)] else []"])
      (auto simp: marks_retry that)
  have "removes H st1 (discovery_work_cb H st1)"
  proof -
    obtain new where "\<forall>x \<in> set new. \<exists>a. x = Save_Peer a" "marks (calls (discovery_work_cb H st1)) = new @ marks (calls st1)"
      using marks_discovery by blast
    then show ?thesis by (intro removes_new) auto
  qed
  moreover have "removes H st1 (pair_timeout_cb H st1)" by (auto simp: pair_timeout_cb_def Let_def intro!: retry)
  moreover have "removes H st1 (pair_work_cb H st1)" by (auto simp: pair_work_cb_def intro: retry removes_none)
  ultimately show ?thesis
    using removes_failure [of H st1] removes_clear [of H st1] removes_connected [of H st1] removes_disconnected [of H st1]
      retry [of st1] removes_none [OF marks_callbacks(1)]
    by (intro lift; cases w) (simp_all add: run_work_def st1_def Let_def)
qed

lemma removes_step:
  assumes "client_step H st oper st'" and "session_inv st"
  shows "removes H st st'"
  using assms(1)
proof cases
  case (run w)
  then show ?thesis using removes_run by simp
next
  case (advertisement a ty ad b)
  have "\<exists>new. marks (calls st') = new @ marks (calls st) \<and> (\<forall>x. Unpair x \<notin> set new)"
    using advertisement(2)
    by (auto simp: zmk_ble_mouse_advertisement_def Let_def split: if_splits prod.splits)
  then show ?thesis using removes_new by blast
next
  case (notified i c data it)
  then show ?thesis using marks_notify [OF assms(2)] by (intro removes_none) blast
next
  case (key_pressed param e)
  from marks_pressed [OF key_pressed(2)] show ?thesis
  proof
    assume "param = MOUSE_PAIR \<and> marks (calls st') = Submit PAIR_WORK # marks (calls st)"
    then show ?thesis by (intro removes_new [of _ "[Submit PAIR_WORK]"]) auto
  qed (rule removes_none)
qed (auto intro!: removes_none simp: marks_callbacks marks_gatt
    dest: marks_connect marks_discover marks_read marks_quiet_calls)

section \<open>What lies behind the state\<close>

definition m720_name :: "(ad_type \<times> u8 list) list \<Rightarrow> bool" where
  "m720_name ad \<longleftrightarrow> (\<exists>(ty, data) \<in> set ad.
     (ty = BT_DATA_NAME_COMPLETE \<or> ty = BT_DATA_NAME_SHORTENED) \<and> 4 \<le> length data \<and> take 4 data = [0x4d, 0x37, 0x32, 0x30])"

text \<open>The address advertised connectably, and under the name of an M720.\<close>

definition advertised :: "'c client_op list \<Rightarrow> bt_addr_le \<Rightarrow> bool" where
  "advertised ops a \<longleftrightarrow> (\<exists>ad. Advertisement a ADV_IND ad \<in> set ops) \<and>
     (\<exists>ty ad. Advertisement a ty ad \<in> set ops \<and> m720_name ad)"

text \<open>A settings record that begins the address was loaded (the read may have been short).\<close>

definition loaded :: "'c client_op list \<Rightarrow> bt_addr_le \<Rightarrow> bool" where
  "loaded ops a \<longleftrightarrow> (\<exists>rd got. Stored_Peer ''peer'' 7 rd \<in> set ops \<and> rd 7 = Inr got \<and> take (length got) a = got)"

definition selected :: "'c client_op list \<Rightarrow> 'c client_call list \<Rightarrow> bt_addr_le \<Rightarrow> bool" where
  "selected ops cs a \<longleftrightarrow> advertised ops a \<or> loaded ops a \<or> Save_Peer a \<in> set cs"

definition table_ok :: "'c client_op list \<Rightarrow> advertiser \<Rightarrow> bool" where
  "table_ok ops x \<longleftrightarrow> (adv_connectable x \<longrightarrow> (\<exists>ad. Advertisement (adv_addr x) ADV_IND ad \<in> set ops)) \<and>
     (adv_m720 x \<longrightarrow> (\<exists>ty ad. Advertisement (adv_addr x) ty ad \<in> set ops \<and> m720_name ad))"

text \<open>Somebody asked to pair.\<close>

definition asked :: "'c client_call list \<Rightarrow> bool" where
  "asked cs \<longleftrightarrow> (\<exists>x \<in> set cs. queues PAIR_WORK x)"

definition origin_inv :: "'c client_op list \<Rightarrow> 'c client \<Rightarrow> bool" where
  "origin_inv ops st \<longleftrightarrow>
     (\<forall>c. candidate_bonded st \<longrightarrow> mouse_conn st = Some c \<longrightarrow> Pairing_Complete c True \<in> set ops) \<and>
     (forget_requested st \<or> clear_held st \<longrightarrow> Key_Pressed MOUSE_CLEAR \<in> set ops) \<and>
     (pairing st \<or> asked (calls st) \<longrightarrow> Key_Pressed MOUSE_PAIR \<in> set ops) \<and>
     (have_peer st \<longrightarrow> selected ops (calls st) (peer st)) \<and>
     (mouse_conn st \<noteq> None \<longrightarrow> selected ops (calls st) (connecting_address st)) \<and>
     (\<forall>x \<in> set (advertisers st). table_ok ops x) \<and>
     (\<forall>a. Central_Connect a \<in> set (calls st) \<longrightarrow> selected ops (calls st) a)"

lemma table_ok_mono: "table_ok ops x \<Longrightarrow> table_ok (ops @ later) x"
  unfolding table_ok_def set_append by blast

lemma advertised_mono: "advertised ops a \<Longrightarrow> advertised (ops @ later) a"
  unfolding advertised_def set_append by blast

lemma loaded_mono: "loaded ops a \<Longrightarrow> loaded (ops @ later) a"
  unfolding loaded_def set_append by blast

lemma marked_new:
  assumes "marks cs' = new @ marks cs" and "marked c"
  shows "c \<in> set cs' \<longleftrightarrow> c \<in> set new \<or> c \<in> set cs"
proof -
  have "c \<in> set cs' \<longleftrightarrow> c \<in> set (marks cs')" using assms(2) by (rule marks_set)
  also have "\<dots> \<longleftrightarrow> c \<in> set new \<or> c \<in> set (marks cs)" using assms(1) by simp
  also have "c \<in> set (marks cs) \<longleftrightarrow> c \<in> set cs" using marks_set [OF assms(2)] by blast
  finally show ?thesis .
qed

lemma selected_mono:
  assumes "selected ops cs a" and "marks cs' = new @ marks cs"
  shows "selected (ops @ later) cs' a"
proof -
  have "Save_Peer a \<in> set cs \<Longrightarrow> Save_Peer a \<in> set cs'" using marked_new [OF assms(2), of "Save_Peer a"] by simp
  then show ?thesis using assms(1) advertised_mono loaded_mono unfolding selected_def by metis
qed

subsection \<open>The table of advertisers\<close>

lemma find_advertiser_found:
  assumes "find_advertiser now addr i xs oldest = (Some k, j)"
  shows "i \<le> k \<and> k < i + length xs \<and> adv_addr (xs ! (k - i)) = addr"
  using assms
proof (induction now addr i xs oldest rule: find_advertiser.induct)
  case (2 now addr i a rest oldest)
  show ?case
  proof (cases "addr = adv_addr a \<and> now - adv_seen a < 2000")
    case True
    then show ?thesis using 2(2) by simp
  next
    case False
    then have "i + 1 \<le> k \<and> k < i + 1 + length rest \<and> adv_addr (rest ! (k - (i + 1))) = addr"
      using 2 by (simp split: if_splits)
    moreover have "k - i = Suc (k - (i + 1))" if "i + 1 \<le> k" using that by simp
    ultimately show ?thesis by simp
  qed
qed simp

lemma parse_ad_fold:
  "adv_addr (fold parse_ad ad a) = adv_addr a" "adv_connectable (fold parse_ad ad a) = adv_connectable a"
  "adv_m720 (fold parse_ad ad a) \<Longrightarrow> adv_m720 a \<or> m720_name ad"
proof -
  show "adv_addr (fold parse_ad ad a) = adv_addr a" "adv_connectable (fold parse_ad ad a) = adv_connectable a"
    by (induction ad arbitrary: a) (auto simp: parse_ad_def split: prod.split)
  show "adv_m720 (fold parse_ad ad a) \<Longrightarrow> adv_m720 a \<or> m720_name ad"
  proof (induction ad arbitrary: a)
    case (Cons e ad)
    then have "adv_m720 (parse_ad e a) \<or> m720_name ad" by auto
    then show ?case by (auto simp: parse_ad_def m720_name_def split: prod.splits if_splits)
  qed simp
qed

lemma note_table:
  assumes "note_advertiser now addr ty ad table = (a, table')" and "\<forall>x \<in> set table. table_ok ops x"
  defines "ops' \<equiv> ops @ [Advertisement addr ty ad]"
  shows "adv_addr a = addr \<and> table_ok ops' a \<and> (\<forall>x \<in> set table'. table_ok ops' x)"
proof -
  obtain found old where f: "find_advertiser now addr 0 table (0, adv_seen (table ! 0)) = (found, old)" by fastforce
  define b where "b = (case found of Some i \<Rightarrow> table ! i
      | None \<Rightarrow> \<lparr>adv_addr = addr, adv_seen = 0, adv_connectable = False, adv_m720 = False\<rparr>)"
  define i where "i = (case found of Some i \<Rightarrow> i | None \<Rightarrow> old)"
  have b: "adv_addr b = addr \<and> table_ok ops b"
  proof (cases found)
    case (Some k)
    then show ?thesis using find_advertiser_found [OF f [unfolded Some]] assms(2) by (auto simp: b_def)
  qed (simp add: b_def table_ok_def)
  have a: "a = fold parse_ad ad (b\<lparr>adv_seen := now, adv_connectable := adv_connectable b \<or> ty = ADV_IND\<rparr>)"
    and t: "table' = table[i := a]"
    using assms(1) f by (auto simp: note_advertiser_def b_def i_def Let_def split: option.splits)
  have ok: "adv_addr a = addr \<and> table_ok ops' a"
    using b parse_ad_fold(3) [of ad "b\<lparr>adv_seen := now, adv_connectable := adv_connectable b \<or> ty = ADV_IND\<rparr>"]
    unfolding a ops'_def table_ok_def parse_ad_fold(1,2) by auto
  have "table_ok ops' x" if "x \<in> set table'" for x
  proof -
    have "x = a \<or> x \<in> set table" using that set_update_subset_insert [of table i a] by (auto simp: t)
    then show ?thesis using ok assms(2) table_ok_mono [of ops x] by (auto simp: ops'_def)
  qed
  then show ?thesis using ok by blast
qed

subsection \<open>Steps that decide nothing new\<close>

definition derived :: "'c client \<Rightarrow> 'c client \<Rightarrow> bool" where
  "derived st st' \<longleftrightarrow> (\<exists>new. marks (calls st') = new @ marks (calls st) \<and> \<not> asked new \<and>
     (\<forall>a. Central_Connect a \<in> set new \<longrightarrow> have_peer st \<and> a = peer st \<or> Save_Peer a \<in> set new) \<and>
     (have_peer st' \<longrightarrow> have_peer st \<and> peer st' = peer st \<or> Save_Peer (peer st') \<in> set new)) \<and>
   (\<forall>c. candidate_bonded st' \<longrightarrow> mouse_conn st' = Some c \<longrightarrow> candidate_bonded st \<and> mouse_conn st = Some c) \<and>
   (forget_requested st' \<or> clear_held st' \<longrightarrow> forget_requested st \<or> clear_held st) \<and>
   (mouse_conn st' \<noteq> None \<longrightarrow> mouse_conn st \<noteq> None \<and> connecting_address st' = connecting_address st) \<and>
   (pairing st' \<longrightarrow> pairing st \<or> asked (calls st)) \<and> advertisers st' = advertisers st"

lemma asked_simps [simp]: "\<not> asked []" "asked (c # cs) \<longleftrightarrow> queues PAIR_WORK c \<or> asked cs"
    "asked (xs @ ys) \<longleftrightarrow> asked xs \<or> asked ys"
  by (auto simp: asked_def)

lemma asked_marks: "asked (marks cs) \<longleftrightarrow> asked cs"
proof -
  have "queues PAIR_WORK x \<Longrightarrow> marked x" for x :: "'a client_call" by (cases x) auto
  then show ?thesis by (auto simp: asked_def marks_def)
qed

lemma asked_new: "marks cs' = new @ marks cs \<Longrightarrow> \<not> asked new \<Longrightarrow> asked cs' \<longleftrightarrow> asked cs"
  by (metis asked_marks asked_simps(3))

lemma derived_same:
  "same_link st st' \<Longrightarrow> marks (calls st') = marks (calls st) \<Longrightarrow> derived st st'"
  by (simp add: derived_def same_link_def)

lemma derived_trans:
  assumes "derived st st'" and "derived st' st''"
  shows "derived st st''"
proof -
  obtain n1 where n1: "marks (calls st') = n1 @ marks (calls st)" "\<not> asked n1"
    "\<forall>a. Central_Connect a \<in> set n1 \<longrightarrow> have_peer st \<and> a = peer st \<or> Save_Peer a \<in> set n1"
    "have_peer st' \<longrightarrow> have_peer st \<and> peer st' = peer st \<or> Save_Peer (peer st') \<in> set n1"
    using assms(1) unfolding derived_def by blast
  obtain n2 where n2: "marks (calls st'') = n2 @ marks (calls st')" "\<not> asked n2"
    "\<forall>a. Central_Connect a \<in> set n2 \<longrightarrow> have_peer st' \<and> a = peer st' \<or> Save_Peer a \<in> set n2"
    "have_peer st'' \<longrightarrow> have_peer st' \<and> peer st'' = peer st' \<or> Save_Peer (peer st'') \<in> set n2"
    using assms(2) unfolding derived_def by blast
  have "marks (calls st'') = (n2 @ n1) @ marks (calls st) \<and> \<not> asked (n2 @ n1) \<and>
     (\<forall>a. Central_Connect a \<in> set (n2 @ n1) \<longrightarrow> have_peer st \<and> a = peer st \<or> Save_Peer a \<in> set (n2 @ n1)) \<and>
     (have_peer st'' \<longrightarrow> have_peer st \<and> peer st'' = peer st \<or> Save_Peer (peer st'') \<in> set (n2 @ n1))"
    using n1 n2 by auto
  moreover have "(\<forall>c. candidate_bonded st'' \<longrightarrow> mouse_conn st'' = Some c \<longrightarrow> candidate_bonded st \<and> mouse_conn st = Some c) \<and>
     (forget_requested st'' \<or> clear_held st'' \<longrightarrow> forget_requested st \<or> clear_held st) \<and>
     (mouse_conn st'' \<noteq> None \<longrightarrow> mouse_conn st \<noteq> None \<and> connecting_address st'' = connecting_address st) \<and>
     advertisers st'' = advertisers st"
    using assms unfolding derived_def by metis
  moreover have "pairing st'' \<longrightarrow> pairing st \<or> asked (calls st)"
    using assms asked_new [OF n1(1,2)] unfolding derived_def by blast
  ultimately show ?thesis unfolding derived_def by blast
qed

lemma origin_derived:
  assumes "origin_inv ops st" and "derived st st'"
  shows "origin_inv (ops @ [oper]) st'"
proof -
  obtain new where new: "marks (calls st') = new @ marks (calls st)" "\<not> asked new"
    "\<forall>a. Central_Connect a \<in> set new \<longrightarrow> have_peer st \<and> a = peer st \<or> Save_Peer a \<in> set new"
    "have_peer st' \<longrightarrow> have_peer st \<and> peer st' = peer st \<or> Save_Peer (peer st') \<in> set new"
    using assms(2) unfolding derived_def by blast
  note up = selected_mono [OF _ new(1), of ops _ "[oper]"]
  have saved: "selected (ops @ [oper]) (calls st') a" if "Save_Peer a \<in> set new" for a
    using that marked_new [OF new(1), of "Save_Peer a"] by (simp add: selected_def)
  have old: "have_peer st \<Longrightarrow> selected ops (calls st) (peer st)"
    "mouse_conn st \<noteq> None \<Longrightarrow> selected ops (calls st) (connecting_address st)"
    "Central_Connect a \<in> set (calls st) \<Longrightarrow> selected ops (calls st) a" for a
    using assms(1) by (simp_all add: origin_inv_def)
  have "selected (ops @ [oper]) (calls st') a" if "Central_Connect a \<in> set (calls st')" for a
  proof -
    have "Central_Connect a \<in> set new \<or> Central_Connect a \<in> set (calls st)"
      using that marked_new [OF new(1), of "Central_Connect a"] by simp
    then show ?thesis using new(3) saved up old by blast
  qed
  moreover have "selected (ops @ [oper]) (calls st') (peer st')" if "have_peer st'"
    using that new(4) saved up old(1) by metis
  moreover have "selected (ops @ [oper]) (calls st') (connecting_address st')" if "mouse_conn st' \<noteq> None"
    using that assms(2) up old(2) unfolding derived_def by metis
  moreover have "\<forall>x \<in> set (advertisers st'). table_ok (ops @ [oper]) x"
    using assms table_ok_mono unfolding derived_def origin_inv_def by metis
  moreover have "Pairing_Complete c True \<in> set ops" if "candidate_bonded st'" "mouse_conn st' = Some c" for c
    using that assms unfolding derived_def origin_inv_def by metis
  moreover have "Key_Pressed MOUSE_CLEAR \<in> set ops" if "forget_requested st' \<or> clear_held st'"
    using that assms unfolding derived_def origin_inv_def by metis
  moreover have "Key_Pressed MOUSE_PAIR \<in> set ops" if "pairing st' \<or> asked (calls st')"
    using that assms asked_new [OF new(1,2)] unfolding derived_def origin_inv_def by blast
  ultimately show ?thesis by (simp add: origin_inv_def)
qed

lemma derived_refl [simp]: "derived st st"
  by (simp add: derived_def)

lemma derived_log [simp]: "\<not> marked c \<Longrightarrow> derived st (log_call c st)"
  by (simp add: derived_def)

lemma derived_fail [simp]: "derived st (fail e st)"
  by (simp add: derived_def)

lemma derived_retry: "derived st (retry_work_cb H st)"
  by (simp add: derived_def marks_retry)

lemma derived_request [simp]: "derived st (request_retry st)"
  by (simp add: derived_def)

lemma derived_forget: "derived st (forget_peer H st)"
proof -
  have "have_peer (forget_peer H st) \<longrightarrow> have_peer st" using forget_have_peer by blast
  then show ?thesis by (auto simp: derived_def marks_forget)
qed

lemma derived_after_close: "derived st (after_close H st)"
  by (simp add: after_close_def derived_trans [OF derived_forget derived_request])

lemma derived_release: "derived st (release_mouse H c st)"
proof -
  have "have_peer (release_mouse H c st) = have_peer st" "peer (release_mouse H c st) = peer st"
    "forget_requested (release_mouse H c st) = forget_requested st" "mouse_conn (release_mouse H c st) = None"
    by simp_all
  moreover have "clear_held (release_mouse H c st) = clear_held st" "advertisers (release_mouse H c st) = advertisers st"
    by (simp_all add: release_mouse_def Let_def)
  ultimately show ?thesis by (auto simp: derived_def marks_release)
qed

lemma derived_disconnected: "derived st (disconnected_work_cb H st)"
  by (simp add: disconnected_work_cb_def derived_trans [OF derived_release derived_after_close] split: option.split)

lemma derived_failure: "derived st (failure_work_cb H st)"
proof -
  have "derived st (log_call (Disconnect_Conn c) (st\<lparr>stage := CLOSING, scan_wanted := False\<rparr>))" for c
    by (simp add: derived_def)
  note d = this derived_trans [OF this derived_disconnected]
  have "derived st (request_retry (st\<lparr>scan_wanted := False, stage := IDLE, failure := ok\<rparr>))"
    by (simp add: derived_def)
  with d show ?thesis by (auto simp: failure_work_cb_def perform_eq Let_def split: option.split)
qed

lemma derived_discovery: "derived st (discovery_work_cb H st)"
proof -
  obtain new where new: "\<forall>x \<in> set new. \<exists>a. x = Save_Peer a" "marks (calls (discovery_work_cb H st)) = new @ marks (calls st)"
     "have_peer (discovery_work_cb H st) \<longrightarrow> have_peer st \<and> peer (discovery_work_cb H st) = peer st \<or>
        Save_Peer (peer (discovery_work_cb H st)) \<in> set new"
    using marks_discovery by blast
  obtain e st1 where p: "parse_stage st = (e, st1)" by fastforce
  then obtain m where st1: "st1 = upd_session (\<lambda>s. s\<lparr>hid_map := m\<rparr>) st" by (rule parse_stage_cases)
  define q where "q = discovery_work_cb H st"
  have q: "candidate_bonded q = candidate_bonded st" "mouse_conn q = mouse_conn st" "forget_requested q = forget_requested st"
      "clear_held q = clear_held st" "connecting_address q = connecting_address st" "advertisers q = advertisers st"
      "pairing q \<longrightarrow> pairing st"
    unfolding q_def
    by (cases "stage st";
      simp add: discovery_work_cb_def read_map_stage_def references_stage_def p st1 protocol_stage_def
        subscriptions_stage_def finish_ready_def perform_eq Let_def split: option.split)+
  have "\<not> asked new" using new(1) by (force simp: asked_def)
  then show ?thesis unfolding derived_def q_def [symmetric] q(1-6)
    using new q(7) by (intro conjI exI [of _ new]) (auto simp: q_def)
qed

lemma derived_security: "derived st (start_security H c st)"
  by (simp add: derived_def)

lemma derived_connected_work: "derived st (connected_work_cb H st)"
proof -
  have t: "derived st (take_event st)"
    by (simp add: derived_def take_event_def split: option.split)
  have c: "derived st (complete_connection H c st)" and a: "derived st (abandon_mouse c st)" for c st
    by (simp_all add: derived_def complete_connection_def abandon_mouse_def)
  note steps = derived_trans [OF t c] derived_trans [OF derived_trans [OF t c] derived_trans [OF a derived_after_close]]
    derived_trans [OF derived_trans [OF t c] derived_fail] derived_trans [OF derived_trans [OF t c] derived_security]
  show ?thesis using t steps by (auto simp: connected_work_cb_def Let_def split: option.split)
qed

lemma pending_asked: "pending_work PAIR_WORK cs \<Longrightarrow> asked cs"
  by (induction cs) (auto split: if_splits)

lemma derived_run:
  assumes "pending_work w (calls st)"
  shows "derived st (run_work H w st)"
proof -
  define st1 where "st1 = log_call (Ran w) st"
  have "derived st st1" by (simp add: st1_def)
  note lift = derived_trans [OF this]
  have pre: "derived st1 (st1\<lparr>pairing := False\<rparr>)" "derived st1 (st1\<lparr>retry_ms := 1000\<rparr>)"
    by (simp_all add: derived_def)
  have asks: "derived st1 (schedule PAIR_TIMEOUT PAIR_TIME_MS (st1\<lparr>pairing := True, retry_ms := 1000\<rparr>))" if "w = PAIR_WORK"
    using that assms pending_asked by (auto simp: derived_def st1_def)
  have "derived st1 (timeout_work_cb st1)" by (simp add: timeout_work_cb_def)
  have "derived st1 (pair_timeout_cb H st1)"
    using pre(1) derived_trans [OF pre(1) derived_fail]
    by (auto simp: pair_timeout_cb_def Let_def intro: derived_trans [OF _ derived_retry])
  moreover have "derived st1 (pair_work_cb H st1)" if "w = PAIR_WORK"
    using pre(2) asks [OF that] by (auto simp: pair_work_cb_def intro: derived_trans [OF _ derived_retry])
  moreover have "derived st1 (clear_work_cb H st1)"
  proof (cases "clear_held st1")
    case True
    then have "derived st1 (st1\<lparr>pairing := False, scan_wanted := False, forget_requested := True\<rparr>)"
      by (simp add: derived_def)
    then show ?thesis
      by (auto simp: clear_work_cb_def Let_def intro: derived_trans [OF _ derived_fail] derived_trans [OF _ derived_forget])
  qed (simp add: clear_work_cb_def)
  ultimately show ?thesis
    using derived_discovery [of st1 H] derived_failure [of st1 H] derived_retry [of st1 H] derived_connected_work [of st1 H]
      derived_disconnected [of st1 H]
    by (intro lift; cases w) (simp_all add: run_work_def timeout_work_cb_def st1_def Let_def)
qed

subsection \<open>Steps that decide\<close>

lemma selected_more: "selected ops cs a \<Longrightarrow> selected (ops @ later) (c # cs) a"
  unfolding selected_def using advertised_mono loaded_mono by (metis list.set_intros(2))

lemma origin_advertisement:
  assumes "origin_inv ops st" and "zmk_ble_mouse_advertisement H a ty ad st = (r, st')"
  shows "origin_inv (ops @ [Advertisement a ty ad]) st'"
proof -
  note o = assms(1)
  consider (same) "st' = st" | (known) "st' = log_call (Central_Connect a) st" "have_peer st" "a = peer st"
    | (table) x t where "note_advertiser (uptime H (calls st)) a ty ad (advertisers st) = (x, t)"
        "st' = (if adv_connectable x \<and> adv_m720 x then log_call (Central_Connect a) (st\<lparr>advertisers := t\<rparr>)
                else st\<lparr>advertisers := t\<rparr>)"
  proof (cases "\<not> scan_wanted st \<or> have_peer st \<or> \<not> pairing st")
    case True
    then have "zmk_ble_mouse_advertisement H a ty ad st =
        (if scan_wanted st \<and> have_peer st \<and> a = peer st \<and> (ty = ADV_IND \<or> ty = ADV_DIRECT_IND)
         then (True, log_call (Central_Connect a) st) else (scan_wanted st \<and> have_peer st \<and> a = peer st, st))"
      by (auto simp: zmk_ble_mouse_advertisement_def)
    then show thesis using assms(2) same known by (metis Pair_inject)
  next
    case False
    obtain x t where n: "note_advertiser (uptime H (calls st)) a ty ad (advertisers st) = (x, t)" by fastforce
    define found where "found = (adv_connectable x \<and> adv_m720 x)"
    have "st' = (if found then log_call (Central_Connect a) (st\<lparr>advertisers := t\<rparr>) else st\<lparr>advertisers := t\<rparr>)"
      using assms(2) False by (cases found) (simp_all add: zmk_ble_mouse_advertisement_def n Let_def flip: found_def)
    then show thesis unfolding found_def by (rule table [OF n])
  qed
  then show ?thesis
  proof cases
    case same
    then show ?thesis using origin_derived [OF o] by simp
  next
    case known
    then have "derived st st'" by (simp add: derived_def)
    then show ?thesis by (rule origin_derived [OF o])
  next
    case (table x t)
    let ?ops = "ops @ [Advertisement a ty ad]"
    have tab: "adv_addr x = a" "table_ok ?ops x" "\<forall>y \<in> set t. table_ok ?ops y"
      using note_table [OF table(1)] o by (auto simp: origin_inv_def)
    have "origin_inv ?ops st" using origin_derived [OF o derived_refl] .
    then have base: "origin_inv ?ops (st\<lparr>advertisers := t\<rparr>)" using tab(3) by (simp add: origin_inv_def)
    show ?thesis
    proof (cases "adv_connectable x \<and> adv_m720 x")
      case True
      then have "advertised ?ops a" using tab(1,2) by (auto simp: table_ok_def advertised_def)
      then have "selected ?ops cs a" for cs by (simp add: selected_def)
      then have "origin_inv ?ops (log_call (Central_Connect a) (st\<lparr>advertisers := t\<rparr>))"
        using base selected_more [of ?ops _ _ "[]"] by (auto simp: origin_inv_def)
      then show ?thesis using True table(2) by simp
    qed (use base table(2) in auto)
  qed
qed

lemma origin_connect:
  assumes "origin_inv ops st" and "Central_Connect a \<in> set (calls st)" and "connect_mouse H a st = (e, st')"
  shows "origin_inv (ops @ [oper]) st'"
  using assms(3)
proof (cases rule: connect_cases)
  case refused
  then show ?thesis using origin_derived [OF assms(1)] by simp
next
  case full
  then have "derived st st'" by (simp add: derived_def)
  then show ?thesis by (rule origin_derived [OF assms(1)])
next
  case (failed cs new ev er)
  have "marks (cs @ new @ Set_Auto_Conn a True # calls st) = marks (calls st)" using failed(4,5) by auto
  then have "derived st st'" using failed(1,7) by (simp add: derived_def open_session_def)
  then show ?thesis by (rule origin_derived [OF assms(1)])
next
  case (dialled c new ev er)
  have marks: "marks (new @ Set_Auto_Conn a True # calls st) = marks (calls st)" using dialled(5) by simp
  have "selected ops (calls st) a" using assms(1,2) by (simp add: origin_inv_def)
  moreover have "marks (calls st') = [] @ marks (calls st)" using dialled(7) marks by simp
  ultimately have a: "selected (ops @ [oper]) (calls st') a" by (rule selected_mono)
  have "derived st (st'\<lparr>mouse_conn := None\<rparr>)" using dialled(7) marks by (simp add: derived_def open_session_def)
  from origin_derived [OF assms(1) this] show ?thesis using a dialled(7)
    by (auto simp: origin_inv_def open_session_def)
qed

lemma origin_pairing:
  assumes "origin_inv ops st"
  shows "origin_inv (ops @ [Pairing_Complete c b]) (pairing_complete_cb c b st)"
proof (cases "owns st (Some c) \<and> b")
  case True
  have "origin_inv (ops @ [Pairing_Complete c b]) st" using origin_derived [OF assms derived_refl] .
  then show ?thesis using True by (auto simp: pairing_complete_cb_def origin_inv_def owns_def Let_def)
next
  case False
  then have "derived st (pairing_complete_cb c b st)" by (auto simp: pairing_complete_cb_def derived_def Let_def)
  then show ?thesis by (rule origin_derived [OF assms])
qed

lemma origin_settings:
  assumes "origin_inv ops st" and "settings_set name len rd st = (e, st')"
  shows "origin_inv (ops @ [Stored_Peer name len rd]) st'"
proof (cases "name = ''peer'' \<and> len = 7 \<and> (\<exists>got. rd 7 = Inr got)")
  case True
  then obtain got where got: "name = ''peer''" "len = 7" "rd 7 = Inr got" by blast
  obtain q where st': "st' = st\<lparr>peer := got @ drop (length got) (peer st), have_peer := q\<rparr>"
  proof -
    define s1 where "s1 = st\<lparr>peer := got @ drop (length got) (peer st)\<rparr>"
    have "st' = s1\<lparr>have_peer := True\<rparr> \<or> st' = s1"
      using assms(2) got by (simp add: settings_set_def Let_def s1_def split: if_splits)
    moreover have "s1 = s1\<lparr>have_peer := have_peer s1\<rparr>" by simp
    ultimately show thesis using that [of True] that [of "have_peer s1"] by (auto simp: s1_def)
  qed
  have "take (length got) (peer st') = got" by (simp add: st')
  then have "loaded (ops @ [Stored_Peer name len rd]) (peer st')" using got by (auto simp: loaded_def)
  moreover have "origin_inv (ops @ [Stored_Peer name len rd]) st" using origin_derived [OF assms(1) derived_refl] .
  ultimately show ?thesis by (auto simp: origin_inv_def selected_def st')
next
  case False
  then have "st' = st" using assms(2) by (auto simp: settings_set_def split: if_splits sum.splits)
  then show ?thesis using origin_derived [OF assms(1)] by simp
qed

lemma origin_key:
  assumes "origin_inv ops st" and "pressed True ok k st = (e, st')"
  shows "origin_inv (ops @ [Key_Pressed k]) st'"
proof (cases "k = MOUSE_CLEAR")
  case True
  have "st' = (if started st then schedule CLEAR_WORK 2000 (st\<lparr>clear_held := True\<rparr>) else st\<lparr>clear_held := True\<rparr>)"
    using assms(2) True by (auto simp: pressed_def zmk_ble_mouse_clear_hold_def MOUSE_PAIR_def MOUSE_CLEAR_def Let_def)
  moreover have "origin_inv (ops @ [Key_Pressed k]) st" using origin_derived [OF assms(1) derived_refl] .
  ultimately show ?thesis using True selected_more [of "ops @ [Key_Pressed k]" _ _ "[]"]
    by (auto simp: origin_inv_def)
next
  case False
  have base: "origin_inv (ops @ [Key_Pressed k]) st" using origin_derived [OF assms(1) derived_refl] .
  have "st' = st \<or> k = MOUSE_PAIR \<and> st' = submit PAIR_WORK st" using assms(2) False
    by (auto simp: pressed_def zmk_ble_mouse_pair_def split: if_splits)
  then show ?thesis
  proof
    assume "k = MOUSE_PAIR \<and> st' = submit PAIR_WORK st"
    then show ?thesis using base selected_more [of "ops @ [Key_Pressed k]" _ _ "[]"] by (auto simp: origin_inv_def)
  qed (use base in simp)
qed

lemma origin_released:
  assumes "origin_inv ops st" and "released True ok k st = (e, st')"
  shows "origin_inv (ops @ [oper]) st'"
proof -
  have "derived st st'" using assms(2)
    by (auto simp: released_def zmk_ble_mouse_clear_hold_def derived_def Let_def split: if_splits)
  then show ?thesis by (rule origin_derived [OF assms(1)])
qed

lemma derived_done: "derived st st' \<Longrightarrow> derived st (log_call Gatt_Done st')"
  by (erule derived_trans) simp

lemma origin_step:
  assumes "client_step H st oper st'" and "session_inv st" and "origin_inv ops st"
  shows "origin_inv (ops @ [oper]) st'"
  using assms(1)
proof cases
  case (run w)
  then show ?thesis using origin_derived [OF assms(3) derived_run] run(3) by simp
next
  case (connect a e)
  then show ?thesis using origin_connect assms(3) by blast
next
  case (advertisement a ty ad b)
  then show ?thesis using origin_advertisement assms(3) by blast
next
  case (connected c e)
  have "derived st (connected_cb H c e st)" by (simp add: derived_def connected_cb_def)
  then show ?thesis using origin_derived assms(3) connected by blast
next
  case (disconnected c)
  have "derived st (log_call Gatt_Done (disconnected_cb c st))" by (simp add: derived_def disconnected_cb_def)
  then show ?thesis using origin_derived assms(3) disconnected by blast
next
  case (security c level e)
  have "derived st (security_cb c level e st)" by (simp add: derived_def security_cb_def)
  then show ?thesis using origin_derived assms(3) security by blast
next
  case (pairing_complete c b)
  then show ?thesis using origin_pairing assms(3) by simp
next
  case (pairing_failed c)
  have "derived st (pairing_failed_cb c st)" by (simp add: pairing_failed_cb_def)
  then show ?thesis using origin_derived assms(3) pairing_failed by blast
next
  case (discovered c k attr it st1)
  have "derived st st1" using derived_same [OF discover_link marks_discover] discovered(4) by blast
  then have "derived st st'" using derived_done discovered(2) by metis
  then show ?thesis by (rule origin_derived [OF assms(3)])
next
  case (read_reply c h e data it st1)
  have "derived st st1" using derived_same [OF read_link marks_read] read_reply(4) by blast
  then have "derived st st'" using derived_done read_reply(2) by metis
  then show ?thesis by (rule origin_derived [OF assms(3)])
next
  case (written c h e)
  have "derived st (written_cb (Some c) e st)" using derived_same [OF written_link marks_gatt(1)] .
  then have "derived st st'" using derived_done written(2) by metis
  then show ?thesis by (rule origin_derived [OF assms(3)])
next
  case (subscribed c i h h' e)
  have "derived st (subscribed_cb (Some c) e i st)" using derived_same [OF subscribed_link marks_gatt(2)] .
  then have "derived st st'" using derived_done subscribed(2) by metis
  then show ?thesis by (rule origin_derived [OF assms(3)])
next
  case (notified i c data it)
  have "derived st st'" using derived_same [OF notify_link marks_notify] notified(2,3) assms(2) by blast
  then show ?thesis by (rule origin_derived [OF assms(3)])
next
  case (stored_peer name len rd e)
  then show ?thesis using origin_settings assms(3) by blast
next
  case (start e)
  then have "derived st st'" by (simp add: derived_def zmk_ble_mouse_start_def)
  then show ?thesis by (rule origin_derived [OF assms(3)])
next
  case (key_pressed param e)
  then show ?thesis using origin_key assms(3) by blast
next
  case (key_released param e)
  then show ?thesis using origin_released assms(3) by blast
next
  case passage
  have "derived st (log_call Tick st)" by simp
  then show ?thesis using origin_derived assms(3) passage by blast
qed

lemma origin_boot: "origin_inv [] client_boot"
  by (simp add: origin_inv_def client_boot_def table_ok_def)

interpretation origin: history_invariant H origin_inv for H :: "'c host"
  by unfold_locales (auto intro: origin_boot origin_step simp: client_inv_def)

lemmas origin_inv_trace = origin.everywhere

end
