(* ===== verification/Ble_Client_Run.thy ===== *)
theory Ble_Client_Run
  imports Ble_Client_Gatt
begin

text \<open>
  An executable version of the client's step relation, for concrete runs, and one such run: a mouse
  with the report map of the host tests is found, paired and made ready.
\<close>

section \<open>Executable steps\<close>

fun client_exec :: "'c host \<Rightarrow> 'c client \<Rightarrow> 'c client_op \<Rightarrow> 'c client option" where
  "client_exec H st (Run w) = (if pending_work w (calls st) then Some (run_work H w st) else None)"
| "client_exec H st (Connect a) =
     (if Central_Connect a \<in> set (calls st) then Some (snd (connect_mouse H a st)) else None)"
| "client_exec H st (Advertisement a ty ad) = Some (snd (zmk_ble_mouse_advertisement H a ty ad st))"
| "client_exec H st (Connected c e) =
     (if owns st (Some c) \<longrightarrow> auto_connecting (calls st) then Some (connected_cb H c e st) else None)"
| "client_exec H st (Disconnected c) =
     (if owns st (Some c) then Some (log_call Gatt_Done (disconnected_cb c st)) else None)"
| "client_exec H st (Security_Changed c level e) = Some (security_cb c level e st)"
| "client_exec H st (Pairing_Complete c b) = Some (pairing_complete_cb c b st)"
| "client_exec H st (Pairing_Failed c) = Some (pairing_failed_cb c st)"
| "client_exec H st (Discovered c attr) =
     (case outstanding H (calls st) of
        Some (Gatt_Discover c' k) \<Rightarrow>
          if c' = c then
            (let (it, st') = discover_cb (Some c) attr st
             in Some (if attr = None \<or> it = BT_GATT_ITER_STOP then log_call Gatt_Done st' else st'))
          else None
      | _ \<Rightarrow> None)"
| "client_exec H st (Read_Reply c e data) =
     (case outstanding H (calls st) of
        Some (Gatt_Read c' h) \<Rightarrow>
          if c' = c then
            (let (it, st') = read_cb (Some c) e data st
             in Some (if e \<or> data = None \<or> it = BT_GATT_ITER_STOP then log_call Gatt_Done st' else st'))
          else None
      | _ \<Rightarrow> None)"
| "client_exec H st (Written c e) =
     (case outstanding H (calls st) of
        Some (Gatt_Write c' h) \<Rightarrow> if c' = c then Some (log_call Gatt_Done (written_cb (Some c) e st)) else None
      | _ \<Rightarrow> None)"
| "client_exec H st (Subscribed c e i) =
     (case outstanding H (calls st) of
        Some (Gatt_Subscribe c' i' h h') \<Rightarrow>
          if c' = c \<and> i' = i then Some (log_call Gatt_Done (subscribed_cb (Some c) e i st)) else None
      | _ \<Rightarrow> None)"
| "client_exec H st (Notified c i data) =
     (if i < length (reports (session st)) then Some (snd (notify_cb c i data st)) else None)"
| "client_exec H st (Stored_Peer name len rd) =
     (if started st then None else Some (snd (settings_set name len rd st)))"
| "client_exec H st Start = Some (snd (ble_mouse_settings_commit st))"
| "client_exec H st (Key_Pressed k) = Some (snd (pressed True ok k st))"
| "client_exec H st (Key_Released k) = Some (snd (released True ok k st))"
| "client_exec H st Passage = Some (log_call Tick st)"

lemma client_exec_step:
  assumes "client_exec H st oper = Some st'"
  shows "client_step H st oper st'"
proof (cases oper)
  case (Discovered c attr)
  then obtain k it s where o: "outstanding H (calls st) = Some (Gatt_Discover c k)" "discover_cb (Some c) attr st = (it, s)"
    and s: "st' = (if attr = None \<or> it = BT_GATT_ITER_STOP then log_call Gatt_Done s else s)"
    using assms by (auto split: option.splits client_call.splits if_splits prod.splits)
  from client_step.discovered [OF o] show ?thesis unfolding Discovered s .
next
  case (Read_Reply c e data)
  then obtain h it s where o: "outstanding H (calls st) = Some (Gatt_Read c h)" "read_cb (Some c) e data st = (it, s)"
    and s: "st' = (if e \<or> data = None \<or> it = BT_GATT_ITER_STOP then log_call Gatt_Done s else s)"
    using assms by (auto split: option.splits client_call.splits if_splits prod.splits)
  from client_step.read_reply [OF o] show ?thesis unfolding Read_Reply s .
qed (use assms in \<open>auto intro!: client_step.intros simp: prod_eq_iff
      split: if_splits option.splits client_call.splits prod.splits\<close>)

fun client_run :: "'c host \<Rightarrow> 'c client_op list \<Rightarrow> 'c client \<Rightarrow> 'c client option" where
  "client_run H [] st = Some st"
| "client_run H (oper # ops) st = (case client_exec H st oper of None \<Rightarrow> None | Some st' \<Rightarrow> client_run H ops st')"

lemma client_run_trace:
  assumes "client_trace H done st" and "client_run H ops st = Some st'"
  shows "client_trace H (done @ ops) st'"
  using assms
proof (induction ops arbitrary: "done" st)
  case (Cons oper ops)
  then obtain st1 where "client_exec H st oper = Some st1" "client_run H ops st1 = Some st'"
    by (auto split: option.splits)
  then have "client_trace H (done @ [oper]) st1" using Cons.prems(1) client_exec_step client_trace.step by blast
  then show ?case using Cons.IH \<open>client_run H ops st1 = Some st'\<close> by fastforce
qed simp

lemmas client_run_boot = client_run_trace [OF client_trace.boot, simplified]

section \<open>A run with the M720 descriptor\<close>

text \<open>
  The host accepts every call but one to disconnect. Its bond store is empty until the client asks for security, which
  bonds the mouse at the only address there is. The mouse has the two input reports 7 and 42 of
  the test descriptor, a protocol mode that needs a write with response, and a control point.
\<close>

definition mouse_addr :: bt_addr_le where "mouse_addr = [1, 2, 3, 4, 5, 6, 7]"

definition m720_host :: "nat host" where
  "m720_host = \<lparr>answer = (\<lambda>cs. case cs of Disconnect_Conn _ # _ \<Rightarrow> Err EIO | _ \<Rightarrow> ok), conn_dst = (\<lambda>cs c. mouse_addr),
     get_info = (\<lambda>cs c. Some \<lparr>ci_le = True, ci_central = True, ci_default_id = True\<rparr>),
     bonds = (\<lambda>cs. if Set_Security 1 \<in> set cs then [mouse_addr] else []),
     lookup_addr = (\<lambda>cs a. Some 1), security_level = (\<lambda>cs c. 2), uptime = (\<lambda>cs. 5000), early_conns = (\<lambda>cs. []), early_secs = (\<lambda>cs. []), max_paired = 4\<rparr>"

definition chrc :: "u16 \<Rightarrow> uuid \<Rightarrow> u16 \<Rightarrow> u8 \<Rightarrow> gatt_attr" where
  "chrc h u v props = \<lparr>at_handle = h, at_uuid = UUID_OTHER 0, sv_end_handle = 0, ch_uuid = u, ch_value_handle = v, ch_properties = props\<rparr>"

definition desc :: "u16 \<Rightarrow> uuid \<Rightarrow> gatt_attr" where
  "desc h u = \<lparr>at_handle = h, at_uuid = u, sv_end_handle = 0, ch_uuid = UUID_OTHER 0, ch_value_handle = 0, ch_properties = 0\<rparr>"

definition open_ops :: "nat client_op list" where
  "open_ops = [Start, Run RETRY_WORK, Key_Pressed MOUSE_PAIR, Run PAIR_WORK] @
     [Advertisement mouse_addr ADV_IND [(BT_DATA_NAME_COMPLETE, [0x4d, 0x37, 0x32, 0x30, 0x20])]] @
     [Connect mouse_addr, Connected 1 0]"

definition secure_ops :: "nat client_op list" where
  "secure_ops = [Run CONNECTED_WORK, Pairing_Complete 1 True]"

definition discover_ops :: "nat client_op list" where
  "discover_ops = [Run DISCOVERY_WORK,
     Discovered 1 (Some \<lparr>at_handle = 16, at_uuid = UUID_OTHER 0, sv_end_handle = 48, ch_uuid = UUID_OTHER 0, ch_value_handle = 0, ch_properties = 0\<rparr>),
     Run DISCOVERY_WORK, Discovered 1 (Some (chrc 17 HIDS_REPORT_MAP 18 2)), Discovered 1 (Some (chrc 19 HIDS_PROTOCOL_MODE 20 10)),
     Discovered 1 (Some (chrc 21 HIDS_CTRL_POINT 22 4)), Discovered 1 (Some (chrc 23 HIDS_REPORT 24 16)),
     Discovered 1 (Some (chrc 27 HIDS_REPORT 28 16)), Discovered 1 None,
     Run DISCOVERY_WORK, Discovered 1 (Some (desc 25 GATT_CCC)), Discovered 1 (Some (desc 26 HIDS_REPORT_REF)),
     Discovered 1 (Some (desc 29 GATT_CCC)), Discovered 1 (Some (desc 30 HIDS_REPORT_REF)), Discovered 1 None]"

definition read_ops :: "nat client_op list" where
  "read_ops = [Run DISCOVERY_WORK, Read_Reply 1 False (Some m720_descriptor), Read_Reply 1 False None,
     Run DISCOVERY_WORK, Read_Reply 1 False (Some [7, 1]), Read_Reply 1 False None,
     Run DISCOVERY_WORK, Read_Reply 1 False (Some [42, 1]), Read_Reply 1 False None, Run DISCOVERY_WORK]"

definition subscribe_ops :: "nat client_op list" where
  "subscribe_ops = [Run DISCOVERY_WORK, Written 1 False, Run DISCOVERY_WORK, Subscribed 1 False 0,
     Run DISCOVERY_WORK, Subscribed 1 False 1]"

subsection \<open>The states it passes through\<close>

definition pairing_calls :: "nat client_call list" where
  "pairing_calls = [Scan_Refresh, Schedule PAIR_TIMEOUT 60000, Ran PAIR_WORK, Submit PAIR_WORK, Scan_Refresh,
     Ran RETRY_WORK, Schedule RETRY_WORK 0, Scan_Init, Register_Callbacks]"

definition no_advertiser :: advertiser where
  "no_advertiser = \<lparr>adv_addr = BT_ADDR_LE_ANY, adv_seen = 0, adv_connectable = False, adv_m720 = False\<rparr>"

definition mouse_advertiser :: advertiser where
  "mouse_advertiser = \<lparr>adv_addr = mouse_addr, adv_seen = 5000, adv_connectable = True, adv_m720 = True\<rparr>"

definition pairing_state :: "nat client" where
  "pairing_state = \<lparr>session = empty_session, mouse_conn = None, connected_event_conn = None,
     connecting_address = BT_ADDR_LE_ANY, peer = BT_ADDR_LE_ANY, have_peer = False, pairing = True, scan_wanted = True,
     stage = IDLE, failure = ok, clear_held = False, started = True, forget_requested = False,
     candidate_bonded = False, new_candidate = False, connected_error = 0, retry_ms = 1000,
     advertisers = replicate 8 no_advertiser, out_of_bounds = False, calls = pairing_calls\<rparr>"

definition found_state :: "nat client" where
  "found_state = pairing_state\<lparr>advertisers := mouse_advertiser # replicate 7 no_advertiser,
     calls := Central_Connect mouse_addr # pairing_calls\<rparr>"

definition opened_state :: "nat client" where
  "opened_state = \<lparr>session = empty_session, mouse_conn = Some 1, connected_event_conn = Some 1,
     connecting_address = mouse_addr, peer = BT_ADDR_LE_ANY, have_peer = False, pairing = True, scan_wanted = False,
     stage = CONNECTING, failure = ok, clear_held = False, started = True, forget_requested = False,
     candidate_bonded = False, new_candidate = True, connected_error = 0, retry_ms = 1000,
     advertisers = mouse_advertiser # replicate 7 no_advertiser, out_of_bounds = False,
     calls = [Submit CONNECTED_WORK, Take_Ref 1, Schedule TIMEOUT_WORK 20000, Take_Ref 1,
       Set_Auto_Conn mouse_addr True, Central_Connect mouse_addr] @ pairing_calls\<rparr>"

lemma note_mouse:
  "note_advertiser 5000 mouse_addr ADV_IND [(BT_DATA_NAME_COMPLETE, [0x4d, 0x37, 0x32, 0x30, 0x20])] (replicate 8 no_advertiser) =
     (mouse_advertiser, mouse_advertiser # replicate 7 no_advertiser)"
proof -
  have "mouse_addr \<noteq> BT_ADDR_LE_ANY" by (simp add: mouse_addr_def BT_ADDR_LE_ANY_def numeral_eq_Suc)
  moreover have "replicate 8 no_advertiser = no_advertiser # replicate 7 no_advertiser" by (simp add: numeral_eq_Suc)
  moreover have "replicate 7 no_advertiser = [no_advertiser, no_advertiser, no_advertiser, no_advertiser,
    no_advertiser, no_advertiser, no_advertiser]" by (simp add: numeral_eq_Suc)
  moreover have "take 4 [0x4d, 0x37, 0x32, 0x30, 0x20 :: u8] = [0x4d, 0x37, 0x32, 0x30]" by (simp add: numeral_eq_Suc)
  ultimately show ?thesis
    by (simp add: note_advertiser_def no_advertiser_def mouse_advertiser_def parse_ad_def Let_def)
qed

lemmas client_code = log_call_def perform_def retry_work_cb_def run_work_def pressed_def zmk_ble_mouse_pair_def
  pair_work_cb_def zmk_ble_mouse_start_def zmk_ble_mouse_advertisement_def connect_mouse_def open_session_def
  connected_cb_def early_connections_def owns_def is_bonded_def bond_count_def MOUSE_PAIR_def MOUSE_CLEAR_def PAIR_TIME_MS_def
  DISCOVERY_TIME_MS_def

lemma run_append:
  assumes "client_run H xs st = Some st1" and "client_run H ys st1 = Some st2"
  shows "client_run H (xs @ ys) st = Some st2"
  using assms by (induction xs arbitrary: st) (auto split: option.splits)

lemma run_open: "client_run m720_host open_ops client_boot = Some opened_state"
  unfolding open_ops_def
proof (intro run_append)
  show "client_run m720_host [Start, Run RETRY_WORK, Key_Pressed MOUSE_PAIR, Run PAIR_WORK] client_boot = Some pairing_state"
    by (simp add: client_boot_def m720_host_def client_code pairing_state_def pairing_calls_def no_advertiser_def Let_def)
  have "uptime m720_host cs = 5000" for cs by (simp add: m720_host_def)
  then show "client_run m720_host [Advertisement mouse_addr ADV_IND [(BT_DATA_NAME_COMPLETE, [0x4d, 0x37, 0x32, 0x30, 0x20])]]
      pairing_state = Some found_state"
    by (simp add: zmk_ble_mouse_advertisement_def pairing_state_def note_mouse Let_def)
      (simp add: found_state_def pairing_state_def mouse_advertiser_def log_call_def)
  show "client_run m720_host [Connect mouse_addr, Connected 1 0] found_state = Some opened_state"
    by (simp add: found_state_def pairing_state_def opened_state_def pairing_calls_def m720_host_def client_code Let_def)
qed

definition opened_calls :: "nat client_call list" where
  "opened_calls = [Submit DISCOVERY_WORK, Set_Security 1, Connection_Complete, Set_Auto_Conn mouse_addr False,
     Drop_Ref 1, Ran CONNECTED_WORK] @ calls opened_state"

definition secured_state :: "nat client" where
  "secured_state = opened_state\<lparr>connected_event_conn := None, stage := SERVICE, candidate_bonded := True, calls := opened_calls\<rparr>"

lemma run_secure: "client_run m720_host secure_ops opened_state = Some secured_state"
  by (simp add: secure_ops_def secured_state_def opened_calls_def opened_state_def pairing_calls_def m720_host_def
      run_work_def connected_work_cb_def take_event_def complete_connection_def start_security_def early_security_def
      pairing_complete_cb_def owns_def perform_eq log_call_def Let_def)

definition discovered_calls :: "nat client_call list" where
  "discovered_calls = [Gatt_Done, Submit DISCOVERY_WORK, Gatt_Discover 1 (Descriptors_Of 17 48), Ran DISCOVERY_WORK,
     Gatt_Done, Submit DISCOVERY_WORK, Gatt_Discover 1 (Characteristics_Of 17 48), Ran DISCOVERY_WORK,
     Gatt_Done, Submit DISCOVERY_WORK, Gatt_Discover 1 Primary_HIDS, Ran DISCOVERY_WORK] @ opened_calls"

definition found_reports :: "report_characteristic list" where
  "found_reports =
     [\<lparr>rc_handle = 24, rc_end = 26, rc_reference = 26, rc_ccc = 25, rc_id = 0, rc_type = 0, rc_buttons = 0\<rparr>,
      \<lparr>rc_handle = 28, rc_end = 48, rc_reference = 30, rc_ccc = 29, rc_id = 0, rc_type = 0, rc_buttons = 0\<rparr>]"

definition discovered_state :: "nat client" where
  "discovered_state = secured_state\<lparr>stage := REPORT_MAP, calls := discovered_calls,
     session := empty_session\<lparr>service_start := 17, service_end := 48, map_handle := 18, protocol_handle := 20,
       control_handle := 22, protocol_properties := 10, reports := found_reports\<rparr>\<rparr>"

lemma run_discover: "client_run m720_host discover_ops secured_state = Some discovered_state"
  by (simp add: discover_ops_def chrc_def desc_def secured_state_def discovered_state_def discovered_calls_def found_reports_def
      opened_state_def m720_host_def run_work_def discovery_work_cb_def discover_cb_def valid_callback_def owns_def
      next_stage_def close_last_report_def note_descriptor_def MAX_CHARACTERISTICS_def empty_session_def
      perform_eq log_call_def Let_def opened_calls_def)

definition read_calls :: "nat client_call list" where
  "read_calls = [Submit DISCOVERY_WORK, Ran DISCOVERY_WORK, Gatt_Done, Submit DISCOVERY_WORK, Gatt_Read 1 30,
     Ran DISCOVERY_WORK, Gatt_Done, Submit DISCOVERY_WORK, Gatt_Read 1 26, Ran DISCOVERY_WORK, Gatt_Done,
     Submit DISCOVERY_WORK, Gatt_Read 1 18, Ran DISCOVERY_WORK] @ discovered_calls"

definition known_reports :: "report_characteristic list" where
  "known_reports =
     [\<lparr>rc_handle = 24, rc_end = 26, rc_reference = 26, rc_ccc = 25, rc_id = 7, rc_type = 1, rc_buttons = 0\<rparr>,
      \<lparr>rc_handle = 28, rc_end = 48, rc_reference = 30, rc_ccc = 29, rc_id = 42, rc_type = 1, rc_buttons = 0\<rparr>]"

definition read_state :: "nat client" where
  "read_state = secured_state\<lparr>stage := PROTOCOL, calls := read_calls,
     session := empty_session\<lparr>service_start := 17, service_end := 48, map_handle := 18, protocol_handle := 20,
       control_handle := 22, protocol_properties := 10, reports := known_reports, hid_map := m720_map,
       map_data := m720_descriptor, reference_data := [42, 1]\<rparr>\<rparr>"

lemma m720_length: "length m720_descriptor \<le> 1024"
  by (simp add: m720_descriptor_def)

lemma m720_map_simps: "m_reports m720_map \<noteq> []" "m_buttons m720_map = 0x1f" "m_wheel m720_map" "m_pan m720_map"
  by (simp_all add: m720_map_def)

lemma no_reports: "m_reports empty_map = []"
  by (simp add: empty_map_def)

lemma run_read: "client_run m720_host read_ops discovered_state = Some read_state"
  by (simp add: read_ops_def read_state_def read_calls_def known_reports_def found_reports_def discovered_state_def
      secured_state_def opened_state_def m720_host_def run_work_def discovery_work_cb_def read_map_stage_def
      references_stage_def m720_parse no_reports parse_stage_def m720_map_simps m720_length [THEN not_less [THEN iffD2]] MOUSE_HID_MAX_MAP_BYTES_def
      read_cb_def valid_callback_def owns_def next_stage_def empty_session_def perform_eq log_call_def Let_def
      discovered_calls_def opened_calls_def)

definition subscribed_calls :: "nat client_call list" where
  "subscribed_calls = [Gatt_Done, Submit DISCOVERY_WORK, Gatt_Subscribe 1 1 28 29, Ran DISCOVERY_WORK, Gatt_Done,
     Submit DISCOVERY_WORK, Gatt_Subscribe 1 0 24 25, Ran DISCOVERY_WORK, Gatt_Done, Submit DISCOVERY_WORK, Gatt_Write 1 20,
     Gatt_Write_Without_Response 1 22, Ran DISCOVERY_WORK] @ read_calls"

definition ready_session_data :: session where
  "ready_session_data = empty_session\<lparr>service_start := 17, service_end := 48, map_handle := 18, protocol_handle := 20,
     control_handle := 22, protocol_properties := 10, reports := known_reports, hid_map := m720_map,
     map_data := m720_descriptor, reference_data := [42, 1], index := 2, subscribed := 2,
     covered_buttons := 31, covered_axes := 15\<rparr>"

definition subscribed_state :: "nat client" where
  "subscribed_state = secured_state\<lparr>stage := SUBSCRIPTIONS, calls := subscribed_calls, session := ready_session_data\<rparr>"

definition ready_state :: "nat client" where
  "ready_state = secured_state\<lparr>stage := READY, pairing := False, have_peer := True, peer := mouse_addr, new_candidate := False,
     session := ready_session_data,
     calls := [Cancel TIMEOUT_WORK, Cancel PAIR_TIMEOUT, Save_Peer mouse_addr, Ran DISCOVERY_WORK] @ subscribed_calls\<rparr>"

lemma m720_reports:
  "mouse_hid_report_index m720_map 7 = Ret 0" "mouse_hid_report_index m720_map 42 = Ret 2"
  "r_useful (m_reports m720_map ! 0)" "r_useful (m_reports m720_map ! 2)"
  "fold (cover_field 0) (m_fields m720_map) s = s\<lparr>covered_buttons := covered_buttons s OR 31, covered_axes := covered_axes s OR 15\<rparr>"
  "fold (cover_field 2) (m_fields m720_map) s = s\<lparr>covered_buttons := covered_buttons s OR 24\<rparr>"
proof -
  show "mouse_hid_report_index m720_map 7 = Ret 0" "mouse_hid_report_index m720_map 42 = Ret 2"
    by code_simp+
  show "r_useful (m_reports m720_map ! 0)" "r_useful (m_reports m720_map ! 2)" by (simp_all add: m720_map_def)
  show "fold (cover_field 0) (m_fields m720_map) s = s\<lparr>covered_buttons := covered_buttons s OR 31, covered_axes := covered_axes s OR 15\<rparr>"
    by (simp add: m720_map_def mouse_field_def cover_field_def or.assoc)
  show "fold (cover_field 2) (m_fields m720_map) s = s\<lparr>covered_buttons := covered_buttons s OR 24\<rparr>"
    by (simp add: m720_map_def mouse_field_def cover_field_def or.assoc)
qed

lemma run_subscribe: "client_run m720_host subscribe_ops read_state = Some subscribed_state"
  by (simp add: subscribe_ops_def read_state_def subscribed_state_def ready_session_data_def subscribed_calls_def
      secured_state_def opened_state_def m720_host_def run_work_def discovery_work_cb_def protocol_stage_def
      subscriptions_stage_def known_reports_def m720_reports written_cb_def subscribed_cb_def cover_report_def
      valid_callback_def owns_def next_stage_def empty_session_def perform_eq log_call_def Let_def read_calls_def
      discovered_calls_def opened_calls_def)

lemma run_ready: "client_run m720_host [Run DISCOVERY_WORK] subscribed_state = Some ready_state"
  by (simp add: subscribed_state_def ready_state_def ready_session_data_def subscribed_calls_def
      secured_state_def opened_state_def m720_host_def run_work_def discovery_work_cb_def
      subscriptions_stage_def finish_ready_def is_bonded_def known_reports_def
      empty_session_def perform_eq log_call_def Let_def read_calls_def discovered_calls_def opened_calls_def)

definition connect_ops :: "nat client_op list" where
  "connect_ops = open_ops @ secure_ops"

definition setup_ops :: "nat client_op list" where
  "setup_ops = connect_ops @ discover_ops @ read_ops @ subscribe_ops"

definition m720_ops :: "nat client_op list" where
  "m720_ops = setup_ops @ [Run DISCOVERY_WORK]"

lemma opened_trace: "client_trace m720_host open_ops opened_state"
  using run_open by (rule client_run_boot)

lemma secured_trace: "client_trace m720_host connect_ops secured_state"
  unfolding connect_ops_def using run_append [OF run_open run_secure] by (rule client_run_boot)

lemma subscribed_trace: "client_trace m720_host setup_ops subscribed_state"
  unfolding setup_ops_def
  using client_run_trace [OF secured_trace run_append [OF run_discover run_append [OF run_read run_subscribe]]] .

lemma ready_trace: "client_trace m720_host m720_ops ready_state"
  unfolding m720_ops_def using client_run_trace [OF subscribed_trace run_ready] .

lemma ready_stage: "stage ready_state = READY"
  by (simp add: ready_state_def)

end
