(* ===== verification/Ble_Client_Props.thy ===== *)
theory Ble_Client_Props
  imports Ble_Client_Cover Ble_Client_Origin Ble_Client_Run Auth_Guard
begin

text \<open>
  The properties of the BLE client, over every run of its steps from boot and every host that keeps to
  the discipline of \<open>client_step\<close>. Their witnesses use the run with the M720 descriptor.
\<close>

section \<open>Lemmas\<close>

subsection \<open>The order of the stages\<close>

lemma abandoned: "mouse_conn (after_close H (abandon_mouse c st)) = None"
  by (simp add: after_close_def abandon_mouse_def)

lemma connected_forward:
  assumes "gatt_inv H st" and "link_inv st" and "pending_work CONNECTED_WORK (calls st)"
    and "mouse_conn (run_work H CONNECTED_WORK st) \<noteq> None"
  shows "stage st \<le> stage (run_work H CONNECTED_WORK st)"
proof -
  have secured: "IDLE \<le> stage (start_security H c q)" "CONNECTING \<le> stage (start_security H c q)" for q c
    by (cases rule: security_cases [of H c q]; auto simp: stage_order)+
  have "stage st = IDLE \<or> stage st = CONNECTING \<or> stage st = CLOSING" using assms(1,3) by (auto simp: gatt_inv_def)
  then show ?thesis using assms(4)
    by (auto simp: run_work_def connected_work_cb_def abandoned secured Let_def
        split: option.splits if_splits)
qed

lemma reply_forward:
  assumes "gatt_inv H st" and "outstanding H (calls st) = Some r"
  shows "r = Gatt_Discover c k \<Longrightarrow> discover_cb (Some c) attr st = (it, st') \<Longrightarrow> stage st \<le> stage st'"
    and "r = Gatt_Read c h \<Longrightarrow> read_cb (Some c) e data st = (it', st'') \<Longrightarrow> stage st \<le> stage st''"
    and "r = Gatt_Write c h \<Longrightarrow> stage st \<le> stage (written_cb (Some c) e st)"
proof -
  have fits: "expected st r" if "valid_callback st (Some c)"
    using that assms valid_conn [OF that] by (simp add: gatt_inv_def active_def valid_callback_def)
  show "r = Gatt_Discover c k \<Longrightarrow> discover_cb (Some c) attr st = (it, st') \<Longrightarrow> stage st \<le> stage st'"
    using fits by (cases "stage st") (auto simp: discover_cb_def Let_def stage_order split: option.splits if_splits discovery.splits)
  show "r = Gatt_Read c h \<Longrightarrow> read_cb (Some c) e data st = (it', st'') \<Longrightarrow> stage st \<le> stage st''"
    using fits by (auto simp: read_cb_def Let_def stage_order split: option.splits if_splits)
  show "r = Gatt_Write c h \<Longrightarrow> stage st \<le> stage (written_cb (Some c) e st)"
    using fits by (auto simp: written_cb_def stage_order)
qed

lemma closing_last: "s \<le> CLOSING"
  by (cases s) (simp_all add: stage_order)

subsection \<open>Combining button states\<close>

lemma bit_fold_or: "bit (fold (\<lambda>r p. p OR rc_buttons r) rs p) b \<longleftrightarrow> bit p b \<or> (\<exists>r \<in> set rs. bit (rc_buttons r) b)"
  by (induction rs arbitrary: p) (auto simp: bit_or_iff)

lemma ex_list_update:
  assumes "i < length xs"
  shows "(\<exists>x \<in> set (xs[i := y]). P x) \<longleftrightarrow> P y \<or> (\<exists>j < length xs. j \<noteq> i \<and> P (xs ! j))"
proof -
  have "(\<exists>x \<in> set (xs[i := y]). P x) \<longleftrightarrow> (\<exists>k < length xs. P (xs[i := y] ! k))"
    by (metis in_set_conv_nth length_list_update)
  then show ?thesis using assms by (metis nth_list_update_eq nth_list_update_neq)
qed

section \<open>The state of the link\<close>

text \<open>C20: In every reachable state the client's bookkeeping of its one connection is consistent: it is idle
  exactly when it holds no connection, and then no failure is recorded; it scans only without a
  connection; a connection to a mouse that is not yet registered is marked as a candidate; the
  retry delay is one of 1, 2, 4, 8 and 16 seconds; and it is ready only with a registered mouse.\<close>

theorem link_consistent:
  assumes "client_trace H ops st"
  shows "(mouse_conn st = None \<longleftrightarrow> stage st = IDLE) \<and> (mouse_conn st = None \<longrightarrow> failure st = ok) \<and>
     (scan_wanted st \<longrightarrow> mouse_conn st = None) \<and> (mouse_conn st \<noteq> None \<longrightarrow> new_candidate st = (\<not> have_peer st)) \<and>
     retry_ms st \<in> {1000, 2000, 4000, 8000, 16000} \<and> (stage st = READY \<longrightarrow> have_peer st)"
  using client_inv_trace [OF assms] unfolding client_inv_def link_inv_def backoff_def by blast

theorem link_consistent_witness:
  "(mouse_conn ready_state = None \<longleftrightarrow> stage ready_state = IDLE) \<and> have_peer ready_state"
  using link_consistent [OF ready_trace] ready_stage by simp

text \<open>While the client holds a connection, its stage never goes back: from one step to the next it
  stays or moves on in the order of the enumeration, whatever callbacks and work items come in
  between.\<close>

theorem stage_order_kept:
  assumes "client_trace H ops st" and "client_step H st oper st'"
    and "mouse_conn st = Some c" and "mouse_conn st' = Some c'"
  shows "stage st \<le> stage st'"
proof -
  have inv: "link_inv st" "session_inv st" "gatt_inv H st"
    using client_inv_trace [OF assms(1)] by (simp_all add: client_inv_def)
  show ?thesis
  proof (cases "quiet_op oper")
    case True
    from quiet_step [OF assms(2) True] show ?thesis
      by (cases rule: quiet_cases) (use assms(4) closing_last in auto)
  next
    case False
    from assms(2) show ?thesis
    proof cases
      case (run w)
      then have "w = DISCOVERY_WORK \<or> w = CONNECTED_WORK" using False by simp
      then show ?thesis
        using run assms(4) connected_forward [OF inv(3,1)] discovery_forward [of "log_call (Ran DISCOVERY_WORK) st" H]
        by (auto simp: run_work_def Let_def)
    next
      case (connect a e)
      then show ?thesis using assms(3) by (simp add: connect_mouse_def)
    next
      case (subscribed c i h h' e)
      then show ?thesis by (simp add: subscribed_cb_def Let_def)
    next
      case (notified i c data it)
      from inv(2) notified(2,3) show ?thesis by (cases rule: notify_cases) (simp_all add: Let_def)
    qed (use False closing_last reply_forward [OF inv(3)] in
        \<open>auto simp: connected_cb_def disconnected_cb_def security_cb_def stage_order\<close>)
  qed
qed

theorem stage_order_kept_witness: "stage subscribed_state \<le> stage ready_state"
proof -
  have "client_step m720_host subscribed_state (Run DISCOVERY_WORK) ready_state"
    using run_ready by (intro client_exec_step) (auto split: option.splits if_splits)
  moreover have "mouse_conn subscribed_state = Some 1" "mouse_conn ready_state = Some 1"
    by (simp_all add: subscribed_state_def ready_state_def secured_state_def opened_state_def)
  ultimately show ?thesis by (rule stage_order_kept [OF subscribed_trace])
qed

text \<open>C12: In every reachable state the session data is well formed: no access has left an array, there are
  at most 12 report characteristics and the index is within them, the two read buffers hold at most
  1024 and 2 bytes, and the HID map is well formed.\<close>

theorem session_typed:
  assumes "client_trace H ops st"
  shows "\<not> out_of_bounds st \<and> length (reports (session st)) \<le> MAX_CHARACTERISTICS \<and>
     index (session st) \<le> length (reports (session st)) \<and>
     length (map_data (session st)) \<le> MOUSE_HID_MAX_MAP_BYTES \<and> length (reference_data (session st)) \<le> 2 \<and>
     map_wf (hid_map (session st))"
  using client_inv_trace [OF assms] by (simp add: client_inv_def session_inv_def session_ok_def)

theorem session_typed_witness:
  "\<not> out_of_bounds ready_state \<and> length (reports (session ready_state)) = 2 \<and> map_wf m720_map"
  using session_typed [OF ready_trace] by (simp add: ready_state_def ready_session_data_def known_reports_def)

section \<open>Discovery\<close>

text \<open>C13: The discovery never stalls and never overlaps itself: in every reachable state with a healthy
  connection between service discovery and subscriptions, exactly one of these holds: the discovery
  work item is queued, or one GATT request is outstanding.\<close>

theorem discovery_progress:
  assumes "client_trace H ops st" and "mouse_conn st \<noteq> None" and "failure st = ok"
    and "SERVICE \<le> stage st" and "stage st \<le> SUBSCRIPTIONS"
  shows "pending_work DISCOVERY_WORK (calls st) \<longleftrightarrow> outstanding H (calls st) = None"
proof -
  have "gatt_inv H st" using client_inv_trace [OF assms(1)] by (simp add: client_inv_def)
  moreover have "stage st \<noteq> CLOSING" using assms(5) by (auto simp: stage_order)
  ultimately show ?thesis using assms(2-5) by (auto simp: gatt_inv_def active_def discovering_def)
qed

theorem discovery_progress_witness: "outstanding m720_host (calls subscribed_state) = None"
proof -
  have "pending_work DISCOVERY_WORK (calls subscribed_state)" "stage subscribed_state = SUBSCRIPTIONS"
    "mouse_conn subscribed_state \<noteq> None" "failure subscribed_state = ok"
    by (simp_all add: subscribed_state_def subscribed_calls_def secured_state_def opened_state_def)
  then show ?thesis using discovery_progress [OF subscribed_trace] by (simp add: stage_order)
qed

text \<open>C7: The client is ready only with everything the mouse has to offer: for each of the five buttons and
  for each of X, Y, wheel and pan there is a report that carries it, whose ID the parsed map knows and
  whose subscription the client asked for on this very connection.\<close>

theorem ready_complete:
  assumes "client_trace H ops st" and "stage st = READY"
    and "us = MOUSE_BUTTON \<and> b < 5 \<or> us \<noteq> MOUSE_BUTTON \<and> b = 0"
  shows "\<exists>i ri c h h'. i < length (reports (session st)) \<and>
     mouse_hid_report_index (hid_map (session st)) (rc_id (reports (session st) ! i)) = Ret ri \<and>
     carries (hid_map (session st)) ri us b \<and>
     mouse_conn st = Some c \<and> Gatt_Subscribe c i h h' \<in> set (attempt_calls (calls st))"
proof -
  have inv: "link_inv st" "cover_inv st"
    using client_inv_trace [OF assms(1)] cover_inv_trace [OF assms(1)] by (simp_all add: client_inv_def)
  then have cov: "covered_buttons (session st) = 0x1f" "covered_axes (session st) = 0x0f" "backed st"
    using assms(2) by (simp_all add: link_inv_def ready_session_def cover_inv_def)
  have "bit (0x1f :: u8) b" if "b < 5" for b
  proof -
    have "b \<in> {0, 1, 2, 3, 4}" using that by auto
    then show ?thesis by (auto simp: bit_numeral_rec)
  qed
  moreover have "bit (0x0f :: u8) (axis_bit us)" if "us \<noteq> MOUSE_BUTTON" for us
    using that by (cases us) (simp_all add: bit_numeral_rec)
  ultimately have "delivers st us b" using assms(3) cov by (auto simp: backed_def)
  then show ?thesis unfolding delivers_def subscribed_report_def by blast
qed

theorem ready_complete_witness:
  "\<exists>i. i < 2 \<and> (\<exists>h h'. Gatt_Subscribe 1 i h h' \<in> set (attempt_calls (calls ready_state)))"
proof -
  have "length (reports (session ready_state)) = 2" "mouse_conn ready_state = Some 1"
    by (simp_all add: ready_state_def ready_session_data_def known_reports_def secured_state_def opened_state_def)
  then show ?thesis using ready_complete [OF ready_trace ready_stage, of MOUSE_PAN 0] by auto
qed

section \<open>Notifications\<close>

text \<open>C17: A notification of a useful report with the right length, on the client's connection when it is
  ready, reaches the output component once, with the decoded frame and the union of the buttons held
  in this frame and those last reported by the other report characteristics.\<close>

theorem notification_forwarded:
  assumes "client_trace H ops st" and "mouse_conn st = Some c" and "failure st = ok" and "stage st = READY"
    and "i < length (reports (session st))"
    and "mouse_hid_report_index (hid_map (session st)) (rc_id (reports (session st) ! i)) = Ret ri"
    and "r_useful (m_reports (hid_map (session st)) ! ri)"
    and "length bytes = (unat (r_bits (m_reports (hid_map (session st)) ! ri)) + 7) div 8"
    and "notify_cb (Some c) i (Some bytes) st = (it, st')"
  shows "\<exists>physical. calls st' = Output_Receive (decoded (hid_map (session st)) ri bytes) physical # calls st \<and>
     (\<forall>b. bit physical b \<longleftrightarrow> bit (fr_buttons (decoded (hid_map (session st)) ri bytes)) b \<or>
        (\<exists>j < length (reports (session st)). j \<noteq> i \<and> bit (rc_buttons (reports (session st) ! j)) b))"
proof -
  let ?f = "decoded (hid_map (session st)) ri bytes"
  let ?rs = "(reports (session st))[i := (reports (session st) ! i)\<lparr>rc_buttons := fr_buttons ?f\<rparr>]"
  have "map_wf (hid_map (session st))"
    using client_inv_trace [OF assms(1)] by (simp add: client_inv_def session_inv_def session_ok_def)
  then have "calls st' = Output_Receive ?f (fold (\<lambda>r p. p OR rc_buttons r) ?rs 0) # calls st"
    using assms(2-9) by (auto simp: notify_cb_def decode_status valid_callback_def owns_def Let_def)
  moreover have "(\<exists>r \<in> set ?rs. bit (rc_buttons r) b) \<longleftrightarrow> bit (fr_buttons ?f) b \<or>
      (\<exists>j < length (reports (session st)). j \<noteq> i \<and> bit (rc_buttons (reports (session st) ! j)) b)" for b
    using ex_list_update [OF assms(5), of _ "\<lambda>r. bit (rc_buttons r) b"] by simp
  ultimately show ?thesis by (auto simp: bit_fold_or)
qed

theorem notification_forwarded_witness:
  "\<exists>physical. calls (snd (notify_cb (Some 1) 0 (Some m720_report) ready_state)) =
     Output_Receive (decoded m720_map 0 m720_report) physical # calls ready_state"
proof -
  have st: "mouse_conn ready_state = Some 1" "failure ready_state = ok" "hid_map (session ready_state) = m720_map"
    "rc_id (reports (session ready_state) ! 0) = 7" "0 < length (reports (session ready_state))"
    by (simp_all add: ready_state_def ready_session_data_def known_reports_def secured_state_def opened_state_def)
  have "length m720_report = (unat (r_bits (m_reports m720_map ! 0)) + 7) div 8"
    by (simp add: m720_report_def m720_map_def)
  moreover obtain it st' where n: "notify_cb (Some 1) 0 (Some m720_report) ready_state = (it, st')" by fastforce
  ultimately show ?thesis
    using notification_forwarded [OF ready_trace st(1,2) ready_stage st(5) _ _ _ n] st m720_reports(1,3) by auto
qed

section \<open>Pairing and bonds\<close>

text \<open>
  The states of the client while \<open>connect_mouse\<close> waits for \<open>bt_le_set_auto_conn\<close>, with any connections reported so
  far: the connection may exist, and pair, before the client holds it.
\<close>

definition dialling_state :: "'c host \<Rightarrow> bt_addr_le \<Rightarrow> 'c client \<Rightarrow> 'c client \<Rightarrow> bool" where
  "dialling_state H a st0 st \<longleftrightarrow> Central_Connect a \<in> set (calls st0) \<and>
     mouse_conn st0 = None \<and> scan_wanted st0 \<and> (if have_peer st0 then a = peer st0 else pairing st0) \<and>
     (\<exists>evs. st = fold (\<lambda>(c, err). connected_cb H c err) evs (log_call (Set_Auto_Conn a True) (open_session a st0)))"

lemma dialling_shape:
  assumes "dialling_state H a st0 st"
  obtains new ev er where "list_all plain new"
    "st = (open_session a st0)\<lparr>connected_event_conn := ev, connected_error := er, calls := new @ Set_Auto_Conn a True # calls st0\<rparr>"
proof -
  obtain evs where st: "st = fold (\<lambda>(c, err). connected_cb H c err) evs (log_call (Set_Auto_Conn a True) (open_session a st0))"
    using assms unfolding dialling_state_def by blast
  define H1 where "H1 = H\<lparr>early_conns := (\<lambda>_. evs)\<rparr>"
  have "connected_cb H1 = connected_cb H" by (intro ext) (simp add: connected_cb_def H1_def)
  then have "st = early_connections H1 (log_call (Set_Auto_Conn a True) (open_session a st0))"
    by (simp add: st early_connections_def) (simp add: H1_def)
  moreover obtain new ev er where "early_connections H1 (log_call (Set_Auto_Conn a True) (open_session a st0)) =
      (log_call (Set_Auto_Conn a True) (open_session a st0))\<lparr>connected_event_conn := ev, connected_error := er,
        calls := new @ calls (log_call (Set_Auto_Conn a True) (open_session a st0))\<rparr>" "list_all plain new"
    by (rule early_connections_shape)
  ultimately show thesis using that by (simp add: log_call_def open_session_def)
qed

text \<open>C2: With the authentication guard in front, a peer that does not support Secure Connections is accepted
  only if it is the client's own connection to a candidate, or the connection it is just opening, while
  a pairing that the user asked for with the pair key is open and no mouse is registered, at an
  address that advertised itself connectably and under the name of an M720, or that was registered or
  stored before. This covers the time in which the call that opens the connection has not returned.\<close>

theorem legacy_scope:
  assumes "client_trace H ops st0" and "st = st0 \<or> (\<exists>a. dialling_state H a st0 st)"
    and "guarded_accept (\<lambda>c. zmk_ble_mouse_legacy_pairing_allowed H st (Some c)) app (Some c) (Some f) = BT_SECURITY_ERR_SUCCESS"
    and "auth_req f AND AUTH_SECURE_CONNECTIONS = 0"
  shows "(mouse_conn st = Some c \<or> mouse_conn st = None \<and> conn_dst H (calls st) c = connecting_address st) \<and>
     new_candidate st \<and> pairing st \<and> \<not> have_peer st \<and> Key_Pressed MOUSE_PAIR \<in> set ops \<and>
     selected ops (calls st) (connecting_address st)"
proof -
  have "zmk_ble_mouse_legacy_pairing_allowed H st (Some c)"
    using assms(3,4) by (simp add: guarded_accept_def split: if_splits)
  then have a: "pairing st" "\<not> have_peer st" "new_candidate st" "stage st = CONNECTING \<or> stage st = SECURITY"
    "owns st (Some c) \<or> mouse_conn st = None \<and> conn_dst H (calls st) c = connecting_address st"
    by (auto simp: zmk_ble_mouse_legacy_pairing_allowed_def Let_def split: if_splits option.splits)
  have inv: "link_inv st0" "origin_inv ops st0"
    using client_inv_trace [OF assms(1)] origin_inv_trace [OF assms(1)] by (simp_all add: client_inv_def)
  have "Key_Pressed MOUSE_PAIR \<in> set ops \<and> selected ops (calls st) (connecting_address st)"
    using assms(2)
  proof
    assume "st = st0"
    then show ?thesis using a inv by (auto simp: origin_inv_def link_inv_def)
  next
    assume "\<exists>a. dialling_state H a st0 st"
    then obtain addr where d: "dialling_state H addr st0 st" ..
    then obtain new ev er where st: "list_all plain new"
      "st = (open_session addr st0)\<lparr>connected_event_conn := ev, connected_error := er, calls := new @ Set_Auto_Conn addr True # calls st0\<rparr>"
      by (rule dialling_shape)
    have "selected ops (calls st0) addr" using d inv(2) by (simp add: dialling_state_def origin_inv_def)
    moreover have "marks (calls st) = [] @ marks (calls st0)" using st by simp
    ultimately have "selected (ops @ []) (calls st) addr" by (rule selected_mono)
    then show ?thesis using st(2) a(1) inv(2) by (simp add: open_session_def origin_inv_def)
  qed
  then show ?thesis using a by (auto simp: owns_def)
qed

theorem legacy_scope_witness:
  "guarded_accept (\<lambda>c. zmk_ble_mouse_legacy_pairing_allowed m720_host opened_state (Some c)) None (Some 1) (Some \<lparr>auth_req = 0\<rparr>)
     = BT_SECURITY_ERR_SUCCESS \<and> selected open_ops (calls opened_state) mouse_addr"
proof -
  have g: "guarded_accept (\<lambda>c. zmk_ble_mouse_legacy_pairing_allowed m720_host opened_state (Some c)) None (Some 1) (Some \<lparr>auth_req = 0\<rparr>)
     = BT_SECURITY_ERR_SUCCESS"
    by (simp add: guarded_accept_def zmk_ble_mouse_legacy_pairing_allowed_def opened_state_def m720_host_def owns_def)
  moreover have "connecting_address opened_state = mouse_addr" by (simp add: opened_state_def)
  ultimately show ?thesis using legacy_scope [OF opened_trace _ g] by simp
qed



end
