(* ===== verification/Ble_Client_Live.thy ===== *)
theory Ble_Client_Live
  imports Ble_Client_Gatt
begin

text \<open>
  What keeps the client going: without a connection to its registered mouse it scans or has queued the
  next attempt, and a connection that is not ready has something queued that ends it.
\<close>

section \<open>Reconnecting\<close>

text \<open>
  The bond of \<open>a\<close> has been listed at every call since the address was saved, and no request to remove
  it was refused.
\<close>

fun kept_bond :: "'c host \<Rightarrow> bt_addr_le \<Rightarrow> 'c client_call list \<Rightarrow> bool" where
  "kept_bond H a [] = (a \<in> set (bonds H []))"
| "kept_bond H a (c # cs) =
     (a \<in> set (bonds H (c # cs)) \<and> (c = Unpair a \<longrightarrow> answer H (c # cs) = ok) \<and> (c = Save_Peer a \<or> kept_bond H a cs))"

lemma kept_now: "kept_bond H a cs \<Longrightarrow> a \<in> set (bonds H cs)"
  by (cases cs) simp_all

definition waiting :: "'c host \<Rightarrow> 'c client \<Rightarrow> bool" where
  "waiting H st \<longleftrightarrow> started st \<and> mouse_conn st = None \<and> have_peer st \<and> kept_bond H (peer st) (calls st)"

definition alive :: "'c client \<Rightarrow> bool" where
  "alive st \<longleftrightarrow> scan_wanted st \<or> pending_work RETRY_WORK (calls st)"

definition retry_inv :: "'c host \<Rightarrow> 'c client \<Rightarrow> bool" where
  "retry_inv H st \<longleftrightarrow> (waiting H st \<longrightarrow> alive st)"

text \<open>A step that does not stop what is going on.\<close>

definition goes_on :: "'c host \<Rightarrow> 'c client \<Rightarrow> 'c client \<Rightarrow> bool" where
  "goes_on H st st' \<longleftrightarrow> (waiting H st' \<longrightarrow> waiting H st) \<and> (alive st \<longrightarrow> alive st')"

lemma retry_goes_on: "goes_on H st st' \<Longrightarrow> retry_inv H st \<Longrightarrow> retry_inv H st'"
  by (simp add: goes_on_def retry_inv_def)

lemma retry_connected: "mouse_conn st \<noteq> None \<Longrightarrow> retry_inv H st"
  unfolding retry_inv_def waiting_def by blast

lemma retry_retry: "retry_inv H (retry_work_cb H st)"
  using kept_now [of H "peer st" "calls st"]
  by (auto simp: retry_inv_def waiting_def alive_def retry_work_cb_def is_bonded_def Let_def)

lemma retry_request: "retry_inv H (request_retry st)"
  by (simp add: retry_inv_def alive_def)

lemma retry_forget: "retry_inv H (forget_peer H st)"
  by (simp add: retry_inv_def waiting_def forget_peer_def perform_eq Let_def)

lemma retry_after_close: "retry_inv H (after_close H st)"
  by (simp add: after_close_def retry_request)

lemma retry_disconnected: "retry_inv H st \<Longrightarrow> retry_inv H (disconnected_work_cb H st)"
  by (simp add: disconnected_work_cb_def retry_after_close split: option.split)

lemma retry_failure: "retry_inv H (failure_work_cb H st)"
proof (cases "mouse_conn st")
  case None
  then show ?thesis by (simp add: failure_work_cb_def retry_request Let_def)
next
  case (Some c)
  define st1 where "st1 = log_call (Disconnect_Conn c) (st\<lparr>stage := CLOSING, scan_wanted := False\<rparr>)"
  have "failure_work_cb H st = (if answer H (calls st1) = Err ENOTCONN then disconnected_work_cb H st1 else st1)"
    using Some by (simp add: failure_work_cb_def perform_eq Let_def st1_def)
  moreover have "retry_inv H st1" using Some by (intro retry_connected) (simp add: st1_def)
  ultimately show ?thesis using retry_disconnected [of H st1] by simp
qed

lemma retry_clear: "retry_inv H st \<Longrightarrow> retry_inv H (clear_work_cb H st)"
  by (auto simp: clear_work_cb_def retry_forget Let_def intro: retry_connected)

lemma retry_pair: "retry_inv H st \<Longrightarrow> retry_inv H (pair_work_cb H st)"
  by (simp add: pair_work_cb_def retry_retry)

lemma retry_connected_work: "retry_inv H st \<Longrightarrow> retry_inv H (connected_work_cb H st)"
proof (cases "mouse_conn st")
  case None
  assume "retry_inv H st"
  moreover have "goes_on H st (take_event st)"
    by (auto simp: goes_on_def waiting_def alive_def take_event_def split: option.split)
  ultimately show ?thesis using None retry_goes_on by (simp add: connected_work_cb_def)
next
  case (Some c)
  then show ?thesis
    by (auto simp: connected_work_cb_def retry_after_close Let_def intro!: retry_connected)
qed

lemma retry_timeout: "retry_inv H st \<Longrightarrow> retry_inv H (timeout_work_cb st)"
  by (auto simp: timeout_work_cb_def intro!: retry_connected)

lemma discovery_conn:
  assumes "link_inv st" and "mouse_conn st \<noteq> None"
  shows "mouse_conn (discovery_work_cb H st) \<noteq> None"
proof -
  have "stage st \<noteq> IDLE" using assms by (auto simp: link_inv_def)
  then have "stage (discovery_work_cb H st) \<noteq> IDLE"
    using discovery_forward [of st H] by (cases "stage st") (auto simp: stage_order)
  then show ?thesis using link_discovery [OF assms(1), of H] by (auto simp: link_inv_def)
qed

lemma retry_discovery:
  assumes "retry_inv H st" and "link_inv st"
  shows "retry_inv H (discovery_work_cb H st)"
proof (cases "mouse_conn st = None")
  case True
  then show ?thesis using assms(1) discovery_rest [of st H] by (simp add: active_def)
next
  case False
  then show ?thesis by (rule retry_connected [OF discovery_conn [OF assms(2)]])
qed

lemma retry_run:
  assumes "retry_inv H st" and "link_inv st"
  shows "retry_inv H (run_work H w st)"
proof -
  let ?st = "log_call (Ran w) st"
  have ran: "retry_inv H ?st" if "w \<noteq> RETRY_WORK"
    using that by (intro retry_goes_on [OF _ assms(1)]) (simp add: goes_on_def waiting_def alive_def)
  have link: "link_inv ?st" using assms(2) by simp
  show ?thesis
  proof (cases w)
    case DISCOVERY_WORK
    then show ?thesis using retry_discovery [OF ran link] by (simp add: run_work_def)
  next
    case FAILURE_WORK
    then show ?thesis by (simp add: run_work_def retry_failure)
  next
    case RETRY_WORK
    then show ?thesis by (simp add: run_work_def retry_retry)
  next
    case TIMEOUT_WORK
    then show ?thesis using retry_timeout [OF ran] by (simp add: run_work_def)
  next
    case PAIR_TIMEOUT
    then show ?thesis by (simp add: run_work_def pair_timeout_cb_def retry_retry Let_def)
  next
    case CONNECTED_WORK
    then show ?thesis using retry_connected_work [OF ran] by (simp add: run_work_def)
  next
    case DISCONNECTED_WORK
    then show ?thesis using retry_disconnected [OF ran] by (simp add: run_work_def)
  next
    case PAIR_WORK
    then show ?thesis using retry_pair [OF ran] by (simp add: run_work_def)
  next
    case CLEAR_WORK
    then show ?thesis using retry_clear [OF ran] by (simp add: run_work_def)
  qed
qed

lemma retry_connect:
  assumes "retry_inv H st" and "connect_mouse H a st = (e, st')"
  shows "retry_inv H st'"
  using assms(2)
proof (cases rule: connect_cases)
  case full
  then show ?thesis by (simp add: retry_inv_def waiting_def)
next
  case (failed cs new ev er)
  then show ?thesis by (simp add: retry_request)
next
  case (dialled c new ev er)
  then show ?thesis by (intro retry_connected) simp
qed (use assms(1) in simp)

lemma goes_on_callbacks:
  "goes_on H st (connected_cb H c e st)" "goes_on H st (security_cb c level x st)"
  "goes_on H st (pairing_complete_cb c b st)" "goes_on H st (pairing_failed_cb c st)"
  by (auto simp: goes_on_def waiting_def alive_def connected_cb_def security_cb_def pairing_complete_cb_def
      pairing_failed_cb_def Let_def)

lemma goes_on_others:
  "zmk_ble_mouse_advertisement H a ty ad st = (r, st') \<Longrightarrow> goes_on H st st'"
  "pressed p o1 k st = (e, st') \<Longrightarrow> goes_on H st st'" "released p o1 k st = (e, st') \<Longrightarrow> goes_on H st st'"
  by (auto simp: goes_on_def waiting_def alive_def zmk_ble_mouse_advertisement_def pressed_def released_def
      zmk_ble_mouse_pair_def zmk_ble_mouse_clear_hold_def Let_def split: if_splits prod.splits)

lemma retry_done [intro]: "retry_inv H st \<Longrightarrow> retry_inv H (log_call Gatt_Done st)"
  by (auto simp: retry_inv_def waiting_def alive_def)

lemma retry_gatt:
  assumes "retry_inv H st" and "same_link st st'" and "mouse_conn st = None \<Longrightarrow> st' = st"
  shows "retry_inv H st'"
proof (cases "mouse_conn st = None")
  case True
  then show ?thesis using assms(1,3) by simp
next
  case False
  then show ?thesis using assms(2) by (intro retry_connected) (simp add: same_link_def)
qed

lemma retry_step:
  assumes "client_step H st oper st'" and "link_inv st" and "retry_inv H st"
  shows "retry_inv H st'"
  using assms(1)
proof cases
  case (run w)
  then show ?thesis using retry_run assms(2,3) by simp
next
  case (connect a e)
  then show ?thesis using retry_connect assms(3) by blast
next
  case (advertisement a ty ad r)
  then show ?thesis using retry_goes_on goes_on_others(1) assms(3) by blast
next
  case (connected c e)
  then show ?thesis using retry_goes_on [OF goes_on_callbacks(1)] assms(3) by simp
next
  case (disconnected c)
  then have "mouse_conn (disconnected_cb c st) \<noteq> None" unfolding owns_def disconnected_cb_def by (auto dest: sym)
  then show ?thesis using disconnected(2) by (intro retry_connected) simp
next
  case (security c level e)
  then show ?thesis using retry_goes_on [OF goes_on_callbacks(2)] assms(3) by simp
next
  case (pairing_complete c b)
  then show ?thesis using retry_goes_on [OF goes_on_callbacks(3)] assms(3) by simp
next
  case (pairing_failed c)
  then show ?thesis using retry_goes_on [OF goes_on_callbacks(4)] assms(3) by simp
next
  case (discovered c k attr it st1)
  have "retry_inv H st1"
    by (rule retry_gatt [OF assms(3) discover_link [OF discovered(4)]]) (use discovered(4) idle_callbacks(1) in force)
  then show ?thesis using discovered(2) by auto
next
  case (read_reply c h e data it st1)
  have "retry_inv H st1"
    by (rule retry_gatt [OF assms(3) read_link [OF read_reply(4)]]) (use read_reply(4) idle_callbacks(2) in force)
  then show ?thesis using read_reply(2) by auto
next
  case (written c h e)
  then show ?thesis using retry_done [OF retry_gatt [OF assms(3) written_link idle_callbacks(3)]] by simp
next
  case (subscribed c i h h' e)
  then show ?thesis using retry_done [OF retry_gatt [OF assms(3) subscribed_link idle_callbacks(4)]] by simp
next
  case (notified i c data it)
  show ?thesis
    by (rule retry_gatt [OF assms(3) notify_link [OF notified(3)]]) (use notified(3) idle_callbacks(5) in force)
next
  case (stored_peer name len rd e)
  then have "\<not> started st'" by (auto simp: settings_set_def Let_def split: if_splits sum.splits)
  then show ?thesis by (simp add: retry_inv_def waiting_def)
next
  case (start e)
  then show ?thesis using assms(3) by (auto simp: zmk_ble_mouse_start_def retry_inv_def alive_def)
next
  case (key_pressed param e)
  then show ?thesis using retry_goes_on goes_on_others(2) assms(3) by blast
next
  case (key_released param e)
  then show ?thesis using retry_goes_on goes_on_others(3) assms(3) by blast
next
  case passage
  then show ?thesis using retry_goes_on [OF _ assms(3)] by (simp add: goes_on_def waiting_def alive_def)
qed

interpretation retries: state_invariant H "retry_inv H" for H :: "'c host"
  by unfold_locales (simp add: retry_inv_def waiting_def client_boot_def, auto intro: retry_step simp: client_inv_def)

lemmas retry_inv_trace = retries.everywhere

section \<open>Ending an attempt\<close>

text \<open>Something is on its way that ends the connection, or the host was asked to.\<close>

definition ends :: "'c \<Rightarrow> 'c client_call list \<Rightarrow> bool" where
  "ends c cs \<longleftrightarrow> pending_work TIMEOUT_WORK cs \<or> pending_work FAILURE_WORK cs \<or> pending_work DISCONNECTED_WORK cs \<or>
     Disconnect_Conn c \<in> set (attempt_calls cs)"

lemma ends_plain: "list_all plain new \<Longrightarrow> ends c cs \<Longrightarrow> ends c (new @ cs)"
proof (induction new)
  case (Cons x new)
  then show ?case by (cases x) (auto simp: ends_def)
qed simp

definition timed_inv :: "'c client \<Rightarrow> bool" where
  "timed_inv st \<longleftrightarrow> (\<forall>c. mouse_conn st = Some c \<longrightarrow> stage st = READY \<or> ends c (calls st))"

text \<open>A step that leaves an ending attempt ending.\<close>

definition still_ends :: "'c client \<Rightarrow> 'c client \<Rightarrow> bool" where
  "still_ends st st' \<longleftrightarrow> mouse_conn st' = mouse_conn st \<and> (stage st = READY \<longrightarrow> stage st' = READY) \<and>
     (\<forall>c. ends c (calls st) \<longrightarrow> ends c (calls st'))"

lemma timed_still: "still_ends st st' \<Longrightarrow> timed_inv st \<Longrightarrow> timed_inv st'"
  by (auto simp: still_ends_def timed_inv_def)

lemma timed_idle: "mouse_conn st = None \<Longrightarrow> timed_inv st"
  by (simp add: timed_inv_def)

lemma timed_fail: "timed_inv (fail e st)"
  by (simp add: timed_inv_def ends_def)

lemma closed_conn [simp]: "mouse_conn (after_close H st) = mouse_conn st" "mouse_conn (disconnected_work_cb H st) = None"
  by (simp_all add: after_close_def disconnected_work_cb_def split: option.split)

lemma timed_failure: "timed_inv (failure_work_cb H st)"
proof (cases "mouse_conn st")
  case None
  then show ?thesis by (intro timed_idle) (simp add: failure_work_cb_def Let_def)
next
  case (Some c)
  then show ?thesis by (simp add: failure_work_cb_def perform_eq timed_inv_def ends_def Let_def)
qed

lemma timed_retry: "timed_inv st \<Longrightarrow> timed_inv (retry_work_cb H st)"
  by (rule timed_still [rotated]) (auto simp: still_ends_def ends_def retry_work_cb_def Let_def)

lemma timed_connected_work:
  assumes "timed_inv st" and "stage st \<noteq> READY"
  shows "timed_inv (connected_work_cb H st)"
proof (cases "mouse_conn st")
  case None
  then show ?thesis by (intro timed_idle) (simp add: connected_work_cb_def)
next
  case (Some c)
  define s1 where "s1 = complete_connection H c (take_event st)"
  have s1: "mouse_conn s1 = Some c" "ends c (calls s1)" "timed_inv s1"
    using Some assms
    by (auto simp: s1_def complete_connection_def take_event_def timed_inv_def ends_def split: option.split)
  moreover have "timed_inv (start_security H c s1)"
  proof (cases rule: security_cases [of H c s1])
    case (1 sg f sw new)
    have "ends c (Set_Security c # calls s1)" using s1(2) by (simp add: ends_def)
    then have "ends c (calls (start_security H c s1))" using 1(1,2) by (simp add: ends_plain)
    then show ?thesis using s1(1) by (simp add: timed_inv_def)
  qed
  moreover have "timed_inv (after_close H (abandon_mouse c s1))" by (intro timed_idle) (simp add: abandon_mouse_def)
  ultimately show ?thesis by (simp add: connected_work_some [OF Some s1_def] timed_fail)
qed

lemma still_stages:
  "references_stage H c st = (e, st') \<Longrightarrow> stage st \<noteq> READY \<Longrightarrow> still_ends st st'"
  "protocol_stage H c st = (e, st') \<Longrightarrow> stage st \<noteq> READY \<Longrightarrow> still_ends st st'"
  "subscriptions_stage H c st = (e, st') \<Longrightarrow> stage st \<noteq> READY \<Longrightarrow> stage st' = READY \<or> still_ends st st'"
proof -
  obtain e1 st1 where p: "parse_stage st = (e1, st1)" by fastforce
  then obtain m where "st1 = upd_session (\<lambda>s. s\<lparr>hid_map := m\<rparr>) st" by (rule parse_stage_cases)
  then show "references_stage H c st = (e, st') \<Longrightarrow> stage st \<noteq> READY \<Longrightarrow> still_ends st st'"
    using p by (auto simp: references_stage_def still_ends_def ends_def perform_eq Let_def split: if_splits)
  show "protocol_stage H c st = (e, st') \<Longrightarrow> stage st \<noteq> READY \<Longrightarrow> still_ends st st'"
    by (auto simp: protocol_stage_def still_ends_def ends_def perform_eq Let_def split: if_splits)
  show "stage st' = READY \<or> still_ends st st'" if "subscriptions_stage H c st = (e, st')" "stage st \<noteq> READY"
    using that(1) by (cases rule: subscriptions_cases)
      (use that(2) in \<open>auto simp: finish_ready_def still_ends_def ends_def perform_eq Let_def\<close>)
qed

lemma timed_discovery:
  assumes "timed_inv st"
  shows "timed_inv (discovery_work_cb H st)"
proof (cases "active st \<and> discovering (stage st)")
  case False
  then show ?thesis using assms by (simp add: discovery_rest)
next
  case True
  then obtain c where c: "mouse_conn st = Some c" "failure st = ok" "stage st \<noteq> CLOSING" by (auto simp: active_def)
  obtain e1 q1 where p: "protocol_stage H c st = (e1, q1)" by fastforce
  obtain e2 q2 where r: "references_stage H c st = (e2, q2)" by fastforce
  obtain e3 q3 where s: "subscriptions_stage H c st = (e3, q3)" by fastforce
  have "stage st \<noteq> READY" using True by auto
  then have q: "timed_inv q1" "timed_inv q2" "timed_inv q3"
    using timed_still [OF _ assms] still_stages(1) [OF r] still_stages(2) [OF p] still_stages(3) [OF s]
    by (auto simp: timed_inv_def)
  have log: "timed_inv (log_call x st)" if "gatt_request x" for x
    using that by (intro timed_still [OF _ assms]) (cases x; simp add: still_ends_def ends_def)
  show ?thesis
    using True c q
    by (cases "stage st") (simp_all add: discovery_work_cb_def read_map_stage_def perform_eq p r s timed_fail log Let_def)
qed

lemma timed_run:
  assumes "timed_inv st" and "pending_work w (calls st)" and "gatt_inv H st"
  shows "timed_inv (run_work H w st)"
proof -
  let ?st = "log_call (Ran w) st"
  have ran: "timed_inv ?st" if "w \<notin> {TIMEOUT_WORK, FAILURE_WORK, DISCONNECTED_WORK}"
    using that by (intro timed_still [OF _ assms(1)]) (auto simp: still_ends_def ends_def)
  show ?thesis
  proof (cases w)
    case DISCOVERY_WORK
    then show ?thesis using timed_discovery [OF ran] by (simp add: run_work_def)
  next
    case FAILURE_WORK
    then show ?thesis by (simp add: run_work_def timed_failure)
  next
    case RETRY_WORK
    then show ?thesis using timed_retry [OF ran] by (simp add: run_work_def)
  next
    case TIMEOUT_WORK
    then show ?thesis by (simp add: run_work_def timeout_work_cb_def timed_fail Let_def) (auto simp: timed_inv_def)
  next
    case PAIR_TIMEOUT
    then have "timed_inv (?st\<lparr>pairing := False\<rparr>)" using ran by (simp add: timed_inv_def)
    then show ?thesis using PAIR_TIMEOUT by (simp add: run_work_def pair_timeout_cb_def timed_retry timed_fail Let_def)
  next
    case CONNECTED_WORK
    have "stage ?st \<noteq> READY" using assms(2,3) CONNECTED_WORK by (auto simp: gatt_inv_def)
    then show ?thesis using CONNECTED_WORK timed_connected_work [OF ran] by (simp add: run_work_def)
  next
    case DISCONNECTED_WORK
    then show ?thesis by (simp add: run_work_def timed_idle)
  next
    case PAIR_WORK
    then show ?thesis using ran by (auto simp: run_work_def pair_work_cb_def Let_def intro!: timed_retry intro: timed_idle)
  next
    case CLEAR_WORK
    then show ?thesis using ran by (auto simp: run_work_def clear_work_cb_def timed_fail Let_def intro: timed_idle)
  qed
qed

lemma still_callbacks:
  "still_ends st (connected_cb H c e st)" "still_ends st (security_cb c level x st)"
  "still_ends st (pairing_complete_cb c b st)" "still_ends st (pairing_failed_cb c st)"
  "still_ends st (zmk_ble_mouse_start st)" "still_ends st (log_call Tick st)" "still_ends st (log_call Gatt_Done st)"
  "stage st \<noteq> READY \<Longrightarrow> still_ends st (written_cb conn x st)" "still_ends st (subscribed_cb conn x i st)"
  by (auto simp: still_ends_def ends_def connected_cb_def security_cb_def pairing_complete_cb_def
      pairing_failed_cb_def zmk_ble_mouse_start_def written_cb_def subscribed_cb_def Let_def)

lemma still_others:
  "zmk_ble_mouse_advertisement H a ty ad st = (r, st') \<Longrightarrow> still_ends st st'"
  "settings_set name len rd st = (e, st') \<Longrightarrow> still_ends st st'"
  "pressed p o1 k st = (e, st') \<Longrightarrow> still_ends st st'" "released p o1 k st = (e, st') \<Longrightarrow> still_ends st st'"
  by (auto simp: still_ends_def ends_def zmk_ble_mouse_advertisement_def settings_set_def pressed_def released_def
      zmk_ble_mouse_pair_def zmk_ble_mouse_clear_hold_def Let_def split: if_splits prod.splits sum.splits)

lemma still_replies:
  "discover_cb conn attr st = (it, st') \<Longrightarrow> still_ends st st'"
  "read_cb conn x data st = (it, st') \<Longrightarrow> still_ends st st'"
  "notify_cb conn i data st = (it, st') \<Longrightarrow> still_ends st st'"
proof -
  show "discover_cb conn attr st = (it, st') \<Longrightarrow> still_ends st st'"
    by (cases "stage st") (auto simp: discover_cb_def still_ends_def ends_def Let_def split: option.splits if_splits)
  show "read_cb conn x data st = (it, st') \<Longrightarrow> still_ends st st'"
    by (auto simp: read_cb_def still_ends_def ends_def Let_def split: option.splits if_splits)
  show "notify_cb conn i data st = (it, st') \<Longrightarrow> still_ends st st'"
    by (auto simp: notify_cb_def still_ends_def ends_def Let_def split: option.splits if_splits prod.splits cret.splits nat.splits)
qed

lemma timed_done: "timed_inv st \<Longrightarrow> timed_inv (log_call Gatt_Done st)"
  by (rule timed_still [OF still_callbacks(7)])

lemma timed_step:
  assumes "client_step H st oper st'" and "gatt_inv H st" and "timed_inv st"
  shows "timed_inv st'"
proof -
  note still = timed_still [OF _ assms(3)]
  from assms(1) show ?thesis
  proof cases
    case (run w)
    then show ?thesis using timed_run assms(2,3) by blast
  next
    case (connect a e)
    from connect(3) show ?thesis
    proof (cases rule: connect_cases)
      case (dialled c new ev er)
      then show ?thesis by (simp add: timed_inv_def ends_def)
    qed (use assms(3) in \<open>auto simp: timed_inv_def open_session_def\<close>)
  next
    case (disconnected c)
    then show ?thesis by (simp add: timed_inv_def ends_def disconnected_cb_def)
  next
    case (discovered c k attr it st1)
    then show ?thesis using still [OF still_replies(1) [OF discovered(4)]] timed_done by auto
  next
    case (read_reply c h e data it st1)
    then show ?thesis using still [OF still_replies(2) [OF read_reply(4)]] timed_done by auto
  next
    case (written c h e)
    have "still_ends st (written_cb (Some c) e st)"
    proof (cases "valid_callback st (Some c)")
      case True
      then have "active st" using valid_conn [OF True] by (simp add: valid_callback_def active_def)
      then have "expected st (Gatt_Write c h)" using assms(2) written(3) by (simp add: gatt_inv_def)
      then show ?thesis by (intro still_callbacks(8)) simp
    qed (simp add: written_cb_def still_ends_def)
    then show ?thesis using written(2) timed_done [OF still] by simp
  next
    case (subscribed c i h h' e)
    then show ?thesis using timed_done [OF still [OF still_callbacks(9)]] by simp
  qed (auto intro: still still_callbacks still_others still_replies)
qed

interpretation timed: state_invariant H timed_inv for H :: "'c host"
  by unfold_locales (simp add: timed_inv_def client_boot_def, auto intro: timed_step simp: client_inv_def)

lemmas timed_inv_trace = timed.everywhere

end
