(* ===== verification/Ble_Client_Refs.thy ===== *)
theory Ble_Client_Refs
  imports Ble_Client_Gatt
begin

text \<open>
  The references of the client to connections of the host: those it took, those it gave back, and the
  two pointers that stand for one each.
\<close>

section \<open>The balance of references\<close>

fun taken :: "'c \<Rightarrow> 'c client_call list \<Rightarrow> int" where
  "taken c [] = 0"
| "taken c (x # xs) = taken c xs +
     (case x of Take_Ref d \<Rightarrow> of_bool (d = c) | Drop_Ref d \<Rightarrow> - of_bool (d = c) | _ \<Rightarrow> 0)"

lemma taken_append: "taken c (xs @ ys) = taken c xs + taken c ys"
  by (induction xs) simp_all

lemma taken_plain:
  "list_all plain new \<Longrightarrow> 0 \<le> taken c new" "list_all plain new \<Longrightarrow> Take_Ref c \<in> set new \<Longrightarrow> 1 \<le> taken c new"
proof -
  show plain: "list_all plain new \<Longrightarrow> 0 \<le> taken c new" for new :: "'a client_call list"
  proof (induction new)
    case (Cons x new)
    then show ?case by (cases x) auto
  qed simp
  show "list_all plain new \<Longrightarrow> Take_Ref c \<in> set new \<Longrightarrow> 1 \<le> taken c new"
  proof (induction new)
    case (Cons x new)
    then show ?case using plain [of new] by (cases x) auto
  qed simp
qed

definition pointers :: "'c \<Rightarrow> 'c client \<Rightarrow> int" where
  "pointers c st = of_bool (mouse_conn st = Some c) + of_bool (connected_event_conn st = Some c)"

text \<open>The references that are neither given back nor behind one of the two pointers.\<close>

definition stray :: "'c \<Rightarrow> 'c client \<Rightarrow> int" where
  "stray c st = taken c (calls st) - pointers c st"

definition ref_le :: "'c client \<Rightarrow> 'c client \<Rightarrow> bool" where
  "ref_le st st' \<longleftrightarrow> (\<forall>c. stray c st \<le> stray c st')"

lemmas ref_defs = ref_le_def stray_def pointers_def

lemma ref_refl [simp]: "ref_le st st"
  by (simp add: ref_le_def)

lemma ref_trans: "ref_le st st1 \<Longrightarrow> ref_le st1 st2 \<Longrightarrow> ref_le st st2"
  unfolding ref_le_def by (meson order_trans)

section \<open>The handlers\<close>

lemma ref_retry: "ref_le st (retry_work_cb H st)"
  by (simp add: ref_defs retry_work_cb_def Let_def)

lemma ref_request_retry: "ref_le st (request_retry st)"
  by (simp add: ref_defs)

lemma ref_forget: "ref_le st (forget_peer H st)"
  by (simp add: ref_defs forget_peer_def perform_eq Let_def)

lemma ref_after_close: "ref_le st (after_close H st)"
  by (simp add: after_close_def ref_request_retry ref_trans [OF ref_forget ref_request_retry])

lemma ref_release: "mouse_conn st = Some c \<Longrightarrow> ref_le st (release_mouse H c st)"
  by (auto simp: ref_defs release_mouse_def Let_def)

lemma ref_disconnected: "ref_le st (disconnected_work_cb H st)"
  by (simp add: disconnected_work_cb_def ref_trans [OF ref_release ref_after_close] split: option.split)

lemma ref_failure: "ref_le st (failure_work_cb H st)"
proof -
  have "ref_le st (log_call (Disconnect_Conn c) (st\<lparr>stage := CLOSING, scan_wanted := False\<rparr>))" for c
    by (simp add: ref_defs)
  note q = this ref_trans [OF this ref_disconnected]
  have "ref_le st (request_retry (st\<lparr>scan_wanted := False, stage := IDLE, failure := ok\<rparr>))" by (simp add: ref_defs)
  with q show ?thesis by (auto simp: failure_work_cb_def perform_eq Let_def split: option.split)
qed

lemma ref_fail [simp]: "ref_le st (fail e st)"
  by (simp add: ref_defs)

lemma ref_timeouts: "ref_le st (timeout_work_cb st)" "ref_le st (pair_timeout_cb H st)"
proof -
  have "ref_le st (st\<lparr>pairing := False\<rparr>)" by (simp add: ref_defs)
  note q = ref_trans [OF this ref_retry] ref_trans [OF this ref_trans [OF ref_fail ref_retry]]
  then show "ref_le st (pair_timeout_cb H st)" by (simp add: pair_timeout_cb_def Let_def)
qed (simp add: timeout_work_cb_def)

lemma ref_pair: "ref_le st (pair_work_cb H st)"
proof -
  have "ref_le st (st\<lparr>retry_ms := 1000\<rparr>)"
    "ref_le st (schedule PAIR_TIMEOUT PAIR_TIME_MS (st\<lparr>pairing := True, retry_ms := 1000\<rparr>))"
    by (simp_all add: ref_defs)
  then show ?thesis by (auto simp: pair_work_cb_def intro: ref_trans [OF _ ref_retry])
qed

lemma ref_clear: "ref_le st (clear_work_cb H st)"
proof -
  have "ref_le st (st\<lparr>pairing := False, scan_wanted := False, forget_requested := True\<rparr>)" by (simp add: ref_defs)
  then show ?thesis
    by (auto simp: clear_work_cb_def Let_def intro: ref_trans [OF _ ref_fail] ref_trans [OF _ ref_forget])
qed

lemma ref_take: "ref_le st (take_event st)"
  by (auto simp: ref_defs take_event_def split: option.split)

lemma ref_connected_work: "ref_le st (connected_work_cb H st)"
proof (cases "mouse_conn st")
  case None
  then show ?thesis by (simp add: connected_work_cb_def ref_take)
next
  case (Some c)
  define s1 where "s1 = complete_connection H c (take_event st)"
  have "ref_le (take_event st) s1" by (simp add: ref_defs s1_def complete_connection_def)
  then have s1: "ref_le st s1" by (rule ref_trans [OF ref_take])
  have "mouse_conn s1 = Some c" using Some by (simp add: s1_def)
  then have "ref_le s1 (abandon_mouse c s1)" by (auto simp: ref_defs abandon_mouse_def)
  note close = ref_trans [OF ref_trans [OF s1 this] ref_after_close]
  have "ref_le s1 (start_security H c s1)"
  proof (cases rule: security_cases [of H c s1])
    case (1 sg f sw new)
    show ?thesis using taken_plain(1) [OF 1(2)] by (simp add: ref_defs 1(1) taken_append)
  qed
  note secure = ref_trans [OF s1 this]
  show ?thesis using close secure ref_trans [OF s1 ref_fail] by (simp add: connected_work_some [OF Some s1_def])
qed

lemma ref_stages:
  "references_stage H c st = (e, st') \<Longrightarrow> ref_le st st'"
  "protocol_stage H c st = (e, st') \<Longrightarrow> ref_le st st'"
  "subscriptions_stage H c st = (e, st') \<Longrightarrow> ref_le st st'"
proof -
  obtain e1 st1 where p: "parse_stage st = (e1, st1)" by fastforce
  then obtain m where "st1 = upd_session (\<lambda>s. s\<lparr>hid_map := m\<rparr>) st" by (rule parse_stage_cases)
  then show "references_stage H c st = (e, st') \<Longrightarrow> ref_le st st'"
    using p by (auto simp: references_stage_def ref_defs perform_eq Let_def split: if_splits)
  show "protocol_stage H c st = (e, st') \<Longrightarrow> ref_le st st'"
    by (auto simp: protocol_stage_def ref_defs perform_eq Let_def split: if_splits)
  show "ref_le st st'" if "subscriptions_stage H c st = (e, st')"
    using that by (cases rule: subscriptions_cases) (simp_all add: finish_ready_def ref_defs perform_eq Let_def)
qed

lemma ref_discovery: "ref_le st (discovery_work_cb H st)"
proof (cases "active st \<and> discovering (stage st)")
  case False
  then show ?thesis by (simp add: discovery_rest)
next
  case True
  then obtain c where c: "mouse_conn st = Some c" "failure st = ok" "stage st \<noteq> CLOSING" by (auto simp: active_def)
  obtain e1 q1 where p: "protocol_stage H c st = (e1, q1)" by fastforce
  obtain e2 q2 where r: "references_stage H c st = (e2, q2)" by fastforce
  obtain e3 q3 where s: "subscriptions_stage H c st = (e3, q3)" by fastforce
  have log: "ref_le st (log_call x st)" if "gatt_request x" for x
    using that by (cases x) (simp_all add: ref_defs)
  show ?thesis
    using True c ref_stages(1) [OF r] ref_stages(2) [OF p] ref_stages(3) [OF s]
    by (cases "stage st")
      (simp_all add: discovery_work_cb_def read_map_stage_def perform_eq p r s log ref_trans [OF _ ref_fail] Let_def)
qed

lemma ref_run: "ref_le st (run_work H w st)"
proof -
  have "ref_le st (log_call (Ran w) st)" by (simp add: ref_defs)
  note ran = ref_trans [OF this]
  show ?thesis
    using ran [OF ref_discovery] ran [OF ref_failure] ran [OF ref_retry] ran [OF ref_timeouts(1)] ran [OF ref_timeouts(2)]
      ran [OF ref_connected_work] ran [OF ref_disconnected] ran [OF ref_pair] ran [OF ref_clear]
    by (cases w) (simp_all add: run_work_def)
qed

lemma ref_callbacks:
  "ref_le st (connected_cb H c e st)" "ref_le st (disconnected_cb c st)" "ref_le st (security_cb c level x st)"
  "ref_le st (pairing_complete_cb c b st)" "ref_le st (pairing_failed_cb c st)" "ref_le st (zmk_ble_mouse_start st)"
  "ref_le st (written_cb conn x st)" "ref_le st (subscribed_cb conn x i st)"
  "ref_le st (log_call Gatt_Done st)" "ref_le st (log_call Tick st)"
  by (simp_all add: ref_defs connected_cb_def disconnected_cb_def security_cb_def pairing_complete_cb_def
      pairing_failed_cb_def zmk_ble_mouse_start_def written_cb_def subscribed_cb_def Let_def)

lemma ref_others:
  "zmk_ble_mouse_advertisement H a ty ad st = (r, st') \<Longrightarrow> ref_le st st'"
  "settings_set name len rd st = (e, st') \<Longrightarrow> ref_le st st'"
  "pressed p o1 k st = (e, st') \<Longrightarrow> ref_le st st'" "released p o1 k st = (e, st') \<Longrightarrow> ref_le st st'"
  by (auto simp: ref_defs zmk_ble_mouse_advertisement_def settings_set_def pressed_def released_def
      zmk_ble_mouse_pair_def zmk_ble_mouse_clear_hold_def Let_def split: if_splits prod.splits sum.splits)

lemma ref_same: "same_link st st' \<Longrightarrow> (\<And>c. taken c (calls st') = taken c (calls st)) \<Longrightarrow> ref_le st st'"
  by (simp add: ref_defs same_link_def)

lemma ref_replies:
  "discover_cb conn attr st = (it, st') \<Longrightarrow> ref_le st st'"
  "read_cb conn x data st = (it, st') \<Longrightarrow> ref_le st st'"
  "notify_cb conn i data st = (it, st') \<Longrightarrow> ref_le st st'"
proof -
  show "ref_le st st'" if d: "discover_cb conn attr st = (it, st')"
    by (rule ref_same [OF discover_link [OF d]], insert d, cases "stage st")
      (auto simp: discover_cb_def Let_def split: option.splits if_splits)
  show "ref_le st st'" if r: "read_cb conn x data st = (it, st')"
    by (rule ref_same [OF read_link [OF r]]) (use r in \<open>auto simp: read_cb_def Let_def split: option.splits if_splits\<close>)
  show "ref_le st st'" if n: "notify_cb conn i data st = (it, st')"
    by (rule ref_same [OF notify_link [OF n]])
      (use n in \<open>auto simp: notify_cb_def Let_def split: option.splits if_splits prod.splits cret.splits nat.splits\<close>)
qed

lemma ref_connect:
  assumes "connect_mouse H a st = (e, st')"
  shows "ref_le st st'"
proof -
  have event: "of_bool (ev = Some d) \<le> taken d new + of_bool (connected_event_conn st = Some d)"
    if "list_all plain new" "ev = connected_event_conn st \<or> (\<exists>c. ev = Some c \<and> Take_Ref c \<in> set new)" for ev new d
    using taken_plain [OF that(1), of d] that(2) by (cases "Take_Ref d \<in> set new") auto
  from assms show ?thesis
  proof (cases rule: connect_cases)
    case (failed cs new ev er)
    have "taken d (calls st') = taken d new + taken d (calls st)" for d using failed(4,7) by (auto simp: taken_append)
    moreover have "mouse_conn st' = None" "connected_event_conn st' = ev" using failed(1,7) by (simp_all add: open_session_def)
    ultimately have "stray d st \<le> stray d st'" for d using event [OF failed(5,6), of d] failed(1)
      by (cases "ev = Some d"; cases "connected_event_conn st = Some d"; simp add: stray_def pointers_def)
    then show ?thesis by (simp add: ref_le_def)
  next
    case (dialled c new ev er)
    have "taken d (calls st') = of_bool (c = d) + taken d new + taken d (calls st)" for d
      using dialled(7) by (simp add: taken_append)
    moreover have "mouse_conn st' = Some c" "connected_event_conn st' = ev" using dialled(7) by (simp_all add: open_session_def)
    ultimately have "stray d st \<le> stray d st'" for d using event [OF dialled(5,6), of d] dialled(1)
      by (cases "ev = Some d"; cases "connected_event_conn st = Some d"; simp add: stray_def pointers_def)
    then show ?thesis by (simp add: ref_le_def)
  qed (auto simp: ref_defs)
qed

lemma ref_step:
  assumes "client_step H st oper st'"
  shows "ref_le st st'"
  using assms
proof cases
  case (connect a e)
  then show ?thesis using ref_connect by blast
next
  case (discovered c k attr it st1)
  then show ?thesis using ref_replies(1) [OF discovered(4)] ref_trans [OF _ ref_callbacks(9)] by auto
next
  case (read_reply c h e data it st1)
  then show ?thesis using ref_replies(2) [OF read_reply(4)] ref_trans [OF _ ref_callbacks(9)] by auto
qed (auto simp: ref_run ref_callbacks ref_trans [OF _ ref_callbacks(9)] dest: ref_others ref_replies)

interpretation strays: state_invariant H "\<lambda>st. 0 \<le> stray c st" for H :: "'c host" and c
  by unfold_locales (simp add: stray_def pointers_def client_boot_def, meson ref_step ref_le_def order_trans)

lemmas stray_trace = strays.everywhere

end
