(* ===== verification/Ble_Client_Progress.thy ===== *)
theory Ble_Client_Progress
  imports Ble_Client_Live Ble_Client_Refs Ble_Client_Run
begin

text \<open>
  The properties of the client that concern its progress and its references, and runs that show where
  their limits are: what happens when the host refuses to disconnect or to unpair, and when a second
  connection event overtakes the first.
\<close>

section \<open>Progress\<close>

text \<open>A started client without a connection never forgets its registered mouse: it scans, or a retry is
  queued. This holds as long as, since the mouse was saved, the host lists its bond and has not
  refused to remove it.\<close>

theorem reconnects:
  assumes "client_trace H ops st" and "started st" and "mouse_conn st = None" and "have_peer st"
    and "kept_bond H (peer st) (calls st)"
  shows "scan_wanted st \<or> pending_work RETRY_WORK (calls st)"
  using retry_inv_trace [OF assms(1)] assms(2-) by (simp add: retry_inv_def waiting_def alive_def)

text \<open>A host that keeps the bond of the mouse and refuses to remove it, and a run from the stored record.\<close>

definition keeping_host :: "nat host" where
  "keeping_host = m720_host\<lparr>answer := (\<lambda>cs. case cs of Unpair _ # _ \<Rightarrow> Err EIO | _ \<Rightarrow> ok),
     bonds := (\<lambda>cs. [mouse_addr])\<rparr>"

definition stored_ops :: "nat client_op list" where
  "stored_ops = [Stored_Peer ''peer'' 7 (\<lambda>n. Inr mouse_addr), Start, Run RETRY_WORK]"

definition stored_state :: "nat client" where
  "stored_state = client_boot\<lparr>peer := mouse_addr, have_peer := True, started := True, scan_wanted := True,
     calls := [Scan_Refresh, Central_Connect mouse_addr, Ran RETRY_WORK, Schedule RETRY_WORK 0, Scan_Init, Register_Callbacks]\<rparr>"

lemma run_stored: "client_run keeping_host stored_ops client_boot = Some stored_state"
  by (simp add: stored_ops_def stored_state_def settings_set_def client_code client_boot_def keeping_host_def mouse_addr_def
      BT_ADDR_LE_RANDOM_def BT_ADDR_LE_ANY_def numeral_eq_Suc Let_def)

lemma stored_trace: "client_trace keeping_host stored_ops stored_state"
  using run_stored by (rule client_run_boot)

theorem reconnects_witness: "scan_wanted stored_state \<or> pending_work RETRY_WORK (calls stored_state)"
proof (rule reconnects [OF stored_trace])
  show "started stored_state" "mouse_conn stored_state = None" "have_peer stored_state"
    "kept_bond keeping_host (peer stored_state) (calls stored_state)"
    by (simp_all add: stored_state_def client_boot_def keeping_host_def)
qed

text \<open>C14: No attempt hangs. A connection that is held but not ready always has something queued that ends it,
  the set-up timeout, the failure work or the disconnection work, unless the client has asked the host
  to disconnect it since it was opened.\<close>

theorem setup_timed:
  assumes "client_trace H ops st" and "mouse_conn st = Some c" and "stage st \<noteq> READY"
  shows "pending_work TIMEOUT_WORK (calls st) \<or> pending_work FAILURE_WORK (calls st) \<or>
     pending_work DISCONNECTED_WORK (calls st) \<or> Disconnect_Conn c \<in> set (attempt_calls (calls st))"
  using timed_inv_trace [OF assms(1)] assms(2,3) by (auto simp: timed_inv_def ends_def)

theorem setup_timed_witness: "pending_work TIMEOUT_WORK (calls secured_state)"
proof -
  have "mouse_conn secured_state = Some 1" "stage secured_state \<noteq> READY" "\<not> pending_work FAILURE_WORK (calls secured_state)"
    "\<not> pending_work DISCONNECTED_WORK (calls secured_state)" "Disconnect_Conn 1 \<notin> set (attempt_calls (calls secured_state))"
    by (simp_all add: secured_state_def opened_calls_def opened_state_def pairing_calls_def)
  then show ?thesis using setup_timed [OF secured_trace] by blast
qed

section \<open>References\<close>

text \<open>C21: The client never gives back a reference it does not have: in every reachable state the references
  taken of each connection exceed those given back by at least the pointers to it that are stored.\<close>

theorem references_held:
  assumes "client_trace H ops st"
  shows "of_bool (mouse_conn st = Some c) + of_bool (connected_event_conn st = Some c) \<le> taken c (calls st)"
  using stray_trace [OF assms, of c] by (simp add: stray_def pointers_def)

theorem references_held_witness: "2 \<le> taken 1 (calls opened_state)"
  using references_held [OF opened_trace, of 1] by (simp add: opened_state_def)

section \<open>Limits\<close>

text \<open>
  A disconnection that the host refuses: a ready client whose notifications end keeps the connection,
  closing, with nothing queued that would try again.
\<close>

lemma refused_disconnection_stays:
  "\<exists>ops st. client_trace m720_host ops st \<and> mouse_conn st \<noteq> None \<and> stage st = CLOSING \<and> (\<forall>w. \<not> pending_work w (calls st))"
proof -
  define st where "st = fail (Err EIO) ready_state"
  have st: "mouse_conn ready_state = Some 1" "failure ready_state = ok"
    by (simp_all add: ready_state_def secured_state_def opened_state_def)
  have rest: "\<not> pending_work w (calls ready_state)" for w
    by (cases w) (simp_all add: ready_state_def subscribed_calls_def read_calls_def discovered_calls_def opened_calls_def
        opened_state_def pairing_calls_def)
  have "notify_cb (Some 1) 0 None ready_state = (BT_GATT_ITER_STOP, st)"
    using st ready_stage by (simp add: notify_cb_def valid_callback_def owns_def st_def)
  moreover have "0 < length (reports (session ready_state))"
    by (simp add: ready_state_def ready_session_data_def known_reports_def)
  ultimately have "client_trace m720_host (m720_ops @ [Notified (Some 1) 0 None]) st"
    using ready_trace client_trace.step client_step.notified by metis
  moreover have "client_step m720_host st (Run FAILURE_WORK) (run_work m720_host FAILURE_WORK st)"
    by (rule client_step.run) (simp add: st_def)
  ultimately have "client_trace m720_host ((m720_ops @ [Notified (Some 1) 0 None]) @ [Run FAILURE_WORK])
      (run_work m720_host FAILURE_WORK st)" by (rule client_trace.step)
  moreover have "run_work m720_host FAILURE_WORK st =
      log_call (Disconnect_Conn 1) ((log_call (Ran FAILURE_WORK) st)\<lparr>stage := CLOSING, scan_wanted := False\<rparr>)"
    using st by (simp add: run_work_def failure_work_cb_def perform_eq st_def m720_host_def Let_def)
  moreover have "\<not> pending_work w (calls (log_call (Disconnect_Conn 1) ((log_call (Ran FAILURE_WORK) st)\<lparr>stage := CLOSING, scan_wanted := False\<rparr>)))" for w
    using rest by (cases w) (simp_all add: st_def)
  ultimately show ?thesis using st by (intro exI conjI) (auto simp: st_def)
qed

text \<open>A bond that the host refuses to remove: the client keeps the mouse but no longer looks for it.\<close>

lemma refused_unpairing_stops:
  "\<exists>ops st. client_trace keeping_host ops st \<and> have_peer st \<and> mouse_conn st = None \<and> \<not> scan_wanted st \<and>
     (\<forall>w. \<not> pending_work w (calls st))"
proof -
  define st where "st = (the (client_run keeping_host [Key_Pressed MOUSE_CLEAR, Run CLEAR_WORK] stored_state))"
  have run: "client_run keeping_host [Key_Pressed MOUSE_CLEAR, Run CLEAR_WORK] stored_state = Some st"
    by (simp add: st_def stored_state_def client_code zmk_ble_mouse_clear_hold_def clear_work_cb_def forget_peer_def
        client_boot_def keeping_host_def Let_def)
  have "client_trace keeping_host (stored_ops @ [Key_Pressed MOUSE_CLEAR, Run CLEAR_WORK]) st"
    using stored_trace run by (rule client_run_trace)
  moreover have "have_peer st" "mouse_conn st = None" "\<not> scan_wanted st" "\<And>w. \<not> pending_work w (calls st)"
    by (simp_all add: st_def stored_state_def client_code zmk_ble_mouse_clear_hold_def clear_work_cb_def forget_peer_def
        client_boot_def keeping_host_def Let_def)
  ultimately show ?thesis by blast
qed

text \<open>
  Two connection events before the worker takes the first: the pointer is overwritten, and the
  reference behind it is never given back.
\<close>

lemma overtaken_event_leaks:
  "\<exists>ops st. client_trace m720_host ops st \<and> mouse_conn st = None \<and> connected_event_conn st = None \<and> 0 < taken 1 (calls st)"
proof -
  define st where "st = (the (client_run m720_host [Connected 1 1, Run CONNECTED_WORK] opened_state))"
  have run: "client_run m720_host [Connected 1 1, Run CONNECTED_WORK] opened_state = Some st"
    by (simp add: st_def opened_state_def client_code connected_work_cb_def take_event_def complete_connection_def abandon_mouse_def
        after_close_def m720_host_def Let_def)
  have "client_trace m720_host (open_ops @ [Connected 1 1, Run CONNECTED_WORK]) st"
    using opened_trace run by (rule client_run_trace)
  moreover have "mouse_conn st = None" "connected_event_conn st = None" "0 < taken 1 (calls st)"
    by (simp_all add: st_def opened_state_def client_code connected_work_cb_def take_event_def complete_connection_def
        abandon_mouse_def after_close_def pairing_calls_def m720_host_def Let_def)
  ultimately show ?thesis by blast
qed

end
