(* ===== verification/Ble_Client_Buttons.thy ===== *)
theory Ble_Client_Buttons
  imports Ble_Client_Gatt
begin

text \<open>
  What the client has told the output component: in every reachable state the buttons of its last
  notification, cleared by every disconnection, are those the reports of the session hold, and none
  without a connection.
\<close>

section \<open>The buttons the output was last told\<close>

fun output_hand :: "'c client_call list \<Rightarrow> u8" where
  "output_hand [] = 0"
| "output_hand (c # cs) =
     (case c of Output_Receive f p \<Rightarrow> p AND 0x1f | Output_Disconnect \<Rightarrow> 0 | _ \<Rightarrow> output_hand cs)"

lemma hand_plain [simp]: "list_all plain new \<Longrightarrow> output_hand (new @ cs) = output_hand cs"
proof (induction new)
  case (Cons c new)
  then show ?case by (cases c) auto
qed simp

lemma hand_security [simp]: "output_hand (calls (start_security H c st)) = output_hand (calls st)"
  by (cases rule: security_cases [of H c st]) simp

definition combined :: "session \<Rightarrow> u8" where
  "combined s = fold (\<lambda>r p. p OR rc_buttons r) (reports s) 0"

lemma combined_buttons: "map rc_buttons (reports s') = map rc_buttons (reports s) \<Longrightarrow> combined s' = combined s"
proof -
  have "combined s = fold (\<lambda>b p. p OR b) (map rc_buttons (reports s)) 0" for s
    by (simp add: combined_def fold_map comp_def)
  then show "map rc_buttons (reports s') = map rc_buttons (reports s) \<Longrightarrow> combined s' = combined s" by simp
qed

lemma combined_blank: "reports s = [] \<Longrightarrow> combined s = 0"
  by (simp add: combined_def)

definition hand_inv :: "'c client \<Rightarrow> bool" where
  "hand_inv st \<longleftrightarrow>
     output_hand (calls st) = (if mouse_conn st = None then 0 else combined (session st) AND 0x1f) \<and>
     (mouse_conn st \<noteq> None \<and>
      (stage st = CONNECTING \<or> auto_connecting (calls st) \<or> pending_work CONNECTED_WORK (calls st)) \<longrightarrow>
      reports (session st) = [])"

lemma hand_boot: "hand_inv client_boot"
  by (simp add: hand_inv_def client_boot_def)

section \<open>Steps that leave the session alone\<close>

definition out_keep :: "'c client \<Rightarrow> 'c client \<Rightarrow> bool" where
  "out_keep st st' \<longleftrightarrow>
     mouse_conn st' = mouse_conn st \<and> output_hand (calls st') = output_hand (calls st) \<or>
     mouse_conn st' = None \<and> output_hand (calls st') = 0"

lemma keep_trans: "out_keep st st1 \<Longrightarrow> out_keep st1 st2 \<Longrightarrow> out_keep st st2"
  by (auto simp: out_keep_def)

lemma keep_refl [simp]: "out_keep st st"
  by (simp add: out_keep_def)

lemma hand_quiet:
  assumes "quiet H st st'" and "out_keep st st'" and "hand_inv st"
  shows "hand_inv st'"
proof (cases "mouse_conn st' = None")
  case True
  then show ?thesis using assms(2,3) by (auto simp: out_keep_def hand_inv_def)
next
  case False
  then have same: "mouse_conn st' = mouse_conn st" "output_hand (calls st') = output_hand (calls st)"
    using assms(2) by (auto simp: out_keep_def)
  have "stage st' = CONNECTING \<Longrightarrow> stage st = CONNECTING" using assms(1) False by (auto simp: quiet_def)
  then show ?thesis using assms(3) same quietD(3,4,7) [OF assms(1)] by (auto simp: hand_inv_def)
qed

lemma keep_fail [simp]: "out_keep st (fail e st)"
  by (simp add: out_keep_def)

lemma keep_retry: "out_keep st (retry_work_cb H st)"
  by (simp add: out_keep_def retry_work_cb_def Let_def)

lemma keep_request_retry [simp]: "out_keep st (request_retry st)"
  by (simp add: out_keep_def)

lemma keep_forget: "mouse_conn st = None \<Longrightarrow> out_keep st (forget_peer H st)"
  by (simp add: out_keep_def forget_peer_def perform_eq Let_def)

lemma keep_after_close: "mouse_conn st = None \<Longrightarrow> out_keep st (after_close H st)"
  by (simp add: after_close_def keep_trans [OF keep_forget keep_request_retry])

lemma keep_release: "out_keep st (release_mouse H c st)" "mouse_conn (release_mouse H c st) = None"
  by (simp_all add: out_keep_def release_mouse_def Let_def)

lemma keep_disconnected: "out_keep st (disconnected_work_cb H st)"
  by (simp add: disconnected_work_cb_def keep_trans [OF keep_release(1) keep_after_close [OF keep_release(2)]]
      split: option.split)

lemma keep_failure: "out_keep st (failure_work_cb H st)"
proof -
  have "out_keep st (log_call (Disconnect_Conn c) (st\<lparr>stage := CLOSING, scan_wanted := False\<rparr>))" for c
    by (simp add: out_keep_def)
  note q = this keep_trans [OF this keep_disconnected]
  have "out_keep st (request_retry (st\<lparr>scan_wanted := False, stage := IDLE, failure := ok\<rparr>))"
    by (simp add: out_keep_def)
  with q show ?thesis by (auto simp: failure_work_cb_def perform_eq Let_def split: option.split)
qed

lemma keep_pair_timeout: "out_keep st (pair_timeout_cb H st)"
proof -
  have "out_keep st (st\<lparr>pairing := False\<rparr>)" by (simp add: out_keep_def)
  note q = keep_trans [OF this keep_retry] keep_trans [OF this keep_trans [OF keep_fail keep_retry]]
  then show ?thesis by (simp add: pair_timeout_cb_def Let_def)
qed

lemma keep_pair: "out_keep st (pair_work_cb H st)"
proof -
  have "out_keep st (st\<lparr>retry_ms := 1000\<rparr>)"
    "out_keep st (schedule PAIR_TIMEOUT PAIR_TIME_MS (st\<lparr>pairing := True, retry_ms := 1000\<rparr>))"
    by (simp_all add: out_keep_def)
  then show ?thesis by (auto simp: pair_work_cb_def intro: keep_trans [OF _ keep_retry])
qed

lemma keep_clear: "out_keep st (clear_work_cb H st)"
proof -
  have "out_keep st (st\<lparr>pairing := False, scan_wanted := False, forget_requested := True\<rparr>)"
    by (simp add: out_keep_def)
  then show ?thesis
    by (auto simp: clear_work_cb_def Let_def intro: keep_trans [OF _ keep_fail] keep_trans [OF _ keep_forget])
qed

lemma keep_callbacks:
  "out_keep st (timeout_work_cb st)" "out_keep st (disconnected_cb c st)"
  "out_keep st (pairing_complete_cb c b st)" "out_keep st (pairing_failed_cb c st)"
  "out_keep st (zmk_ble_mouse_start st)" "out_keep st (take_event st)"
  by (simp_all add: out_keep_def timeout_work_cb_def disconnected_cb_def pairing_complete_cb_def
      pairing_failed_cb_def zmk_ble_mouse_start_def take_event_def Let_def split: option.split)

lemma keep_others:
  "zmk_ble_mouse_advertisement H a ty ad st = (r, st') \<Longrightarrow> out_keep st st'"
  "settings_set name len rd st = (e, st') \<Longrightarrow> out_keep st st'"
  "pressed p o1 k st = (e, st') \<Longrightarrow> out_keep st st'"
  "released p o1 k st = (e, st') \<Longrightarrow> out_keep st st'"
  by (auto simp: out_keep_def zmk_ble_mouse_advertisement_def settings_set_def pressed_def released_def
      zmk_ble_mouse_pair_def zmk_ble_mouse_clear_hold_def Let_def split: if_splits prod.splits sum.splits)

lemma keep_run:
  assumes "w \<noteq> DISCOVERY_WORK" and "w \<noteq> CONNECTED_WORK"
  shows "out_keep st (run_work H w st)"
proof -
  have ran: "out_keep st (log_call (Ran w) st)" by (simp add: out_keep_def)
  show ?thesis
    using assms keep_trans [OF ran keep_failure] keep_trans [OF ran keep_retry] keep_trans [OF ran keep_callbacks(1)]
      keep_trans [OF ran keep_pair_timeout] keep_trans [OF ran keep_disconnected] keep_trans [OF ran keep_pair]
      keep_trans [OF ran keep_clear]
    by (cases w) (simp_all add: run_work_def Let_def)
qed

lemma keep_step:
  assumes "client_step H st oper st'" and "quiet_op oper"
  shows "out_keep st st'"
  using assms
proof cases
  case passage
  then show ?thesis by (simp add: out_keep_def)
qed (auto simp: keep_run keep_callbacks dest: keep_others)

section \<open>Steps of the discovery and of the connection\<close>

text \<open>A GATT callback other than a notification, or a round of the discovery.\<close>

definition report_keep :: "'c client \<Rightarrow> 'c client \<Rightarrow> bool" where
  "report_keep st st' \<longleftrightarrow>
     mouse_conn st' = mouse_conn st \<and> output_hand (calls st') = output_hand (calls st) \<and>
     (pending_work CONNECTED_WORK (calls st') \<longrightarrow> pending_work CONNECTED_WORK (calls st)) \<and>
     combined (session st') = combined (session st) \<and>
     (stage st \<noteq> CHARACTERISTICS \<and> reports (session st) = [] \<longrightarrow> reports (session st') = [])"

lemma hand_report:
  assumes "hand_inv st" and "pending_work CONNECTED_WORK (calls st) \<Longrightarrow> stage st \<noteq> CHARACTERISTICS"
    and "auto_inv st" and "report_keep st st'"
    and "auto_connecting (calls st') = auto_connecting (calls st)" and "stage st' = CONNECTING \<Longrightarrow> stage st = CONNECTING"
  shows "hand_inv st'"
proof -
  have "reports (session st') = []"
    if "mouse_conn st' \<noteq> None" "stage st' = CONNECTING \<or> auto_connecting (calls st') \<or> pending_work CONNECTED_WORK (calls st')"
  proof -
    have now: "mouse_conn st \<noteq> None" "stage st = CONNECTING \<or> auto_connecting (calls st) \<or> pending_work CONNECTED_WORK (calls st)"
      using that assms(4-6) by (auto simp: report_keep_def)
    then have "reports (session st) = []" using assms(1) by (auto simp: hand_inv_def)
    moreover have "stage st \<noteq> CHARACTERISTICS" using now assms(2,3) by (auto simp: auto_inv_def)
    ultimately show ?thesis using assms(4) by (simp add: report_keep_def)
  qed
  then show ?thesis using assms(1,4) by (auto simp: hand_inv_def report_keep_def)
qed

lemma close_last_buttons: "map rc_buttons (reports (close_last_report h s)) = map rc_buttons (reports s)"
proof (cases "reports s" rule: rev_cases)
  case (snoc rs r)
  then show ?thesis by (simp add: close_last_report_def)
qed (simp add: close_last_report_def)

lemma close_last_nil [simp]: "reports (close_last_report h s) = [] \<longleftrightarrow> reports s = []"
  by (simp add: close_last_report_def)

lemma note_descriptor_buttons [simp]: "rc_buttons (note_descriptor a r) = rc_buttons r"
  by (simp add: note_descriptor_def)

lemma keep_discover: "discover_cb conn attr st = (it, st') \<Longrightarrow> report_keep st st'"
  by (cases "stage st")
    (auto simp: discover_cb_def report_keep_def combined_def fold_map comp_def Let_def
      combined_buttons [OF close_last_buttons, unfolded combined_def] split: option.splits if_splits)

lemma map_update_same: "(map f xs)[i := f (xs ! i)] = map f xs"
  by (metis list_update_id map_update)

lemma keep_read: "read_cb conn e data st = (it, st') \<Longrightarrow> report_keep st st'"
  by (auto simp: read_cb_def report_keep_def Let_def map_update map_update_same intro!: combined_buttons split: option.splits if_splits)

lemma keep_reports:
  "report_keep st (written_cb conn e st)" "report_keep st (subscribed_cb conn e i st)"
  "report_keep st (security_cb c level x st)"
  by (auto simp: report_keep_def combined_def written_cb_def subscribed_cb_def security_cb_def Let_def)

lemma keep_stages:
  "references_stage H c st = (e, st') \<Longrightarrow> report_keep st st'"
  "protocol_stage H c st = (e, st') \<Longrightarrow> report_keep st st'"
  "subscriptions_stage H c st = (e, st') \<Longrightarrow> report_keep st st'"
proof -
  obtain e1 st1 where p: "parse_stage st = (e1, st1)" by fastforce
  then obtain m where "st1 = upd_session (\<lambda>s. s\<lparr>hid_map := m\<rparr>) st" by (rule parse_stage_cases)
  then show "references_stage H c st = (e, st') \<Longrightarrow> report_keep st st'"
    using p by (auto simp: references_stage_def report_keep_def combined_def perform_eq Let_def split: if_splits)
  show "protocol_stage H c st = (e, st') \<Longrightarrow> report_keep st st'"
    by (auto simp: protocol_stage_def report_keep_def perform_eq Let_def split: if_splits)
  show "report_keep st st'" if "subscriptions_stage H c st = (e, st')"
    using that by (cases rule: subscriptions_cases)
      (simp_all add: finish_ready_def report_keep_def combined_def perform_eq Let_def)
qed

lemma keep_discovery: "report_keep st (discovery_work_cb H st)"
proof (cases "active st \<and> discovering (stage st)")
  case False
  then have "discovery_work_cb H st = st" by (rule discovery_rest)
  then show ?thesis by (simp add: report_keep_def)
next
  case True
  then obtain c where c: "mouse_conn st = Some c" "failure st = ok" "stage st \<noteq> CLOSING" by (auto simp: active_def)
  have log: "report_keep st q \<Longrightarrow> report_keep st (fail e q)" for e q by (simp add: report_keep_def)
  obtain e1 q1 where p: "protocol_stage H c st = (e1, q1)" by fastforce
  obtain e2 q2 where r: "references_stage H c st = (e2, q2)" by fastforce
  obtain e3 q3 where s: "subscriptions_stage H c st = (e3, q3)" by fastforce
  show ?thesis
    using True c keep_stages(1) [OF r] keep_stages(2) [OF p] keep_stages(3) [OF s]
    by (cases "stage st")
      (simp_all add: discovery_work_cb_def read_map_stage_def perform_eq p r s log Let_def, simp_all add: report_keep_def)
qed

section \<open>Every step\<close>

lemma hand_log [simp]: "hand_inv (log_call Gatt_Done st) = hand_inv st"
  by (simp add: hand_inv_def)

lemma hand_discovery:
  assumes "hand_inv st" and "gatt_inv H st" and "auto_inv st"
  shows "hand_inv (run_work H DISCOVERY_WORK st)"
proof -
  let ?st = "log_call (Ran DISCOVERY_WORK) st"
  have "stage st = CONNECTING" if "stage (discovery_work_cb H ?st) = CONNECTING"
  proof (cases "active ?st \<and> discovering (stage ?st)")
    case True
    then show ?thesis using that discovery_forward [of ?st H] by (cases "stage st") (simp_all add: stage_order)
  qed (use that discovery_rest [of ?st H] in simp)
  moreover have "hand_inv ?st" using assms(1) by (simp add: hand_inv_def)
  moreover have "pending_work CONNECTED_WORK (calls st) \<Longrightarrow> stage st \<noteq> CHARACTERISTICS"
    using assms(2) by (auto simp: gatt_inv_def)
  ultimately show ?thesis
    using assms(3) hand_report [OF _ _ _ keep_discovery auto_discovery_calls, of ?st H]
    by (simp add: run_work_def)
qed

lemma hand_connected_work:
  assumes "hand_inv st" and "pending_work CONNECTED_WORK (calls st)"
  shows "hand_inv (run_work H CONNECTED_WORK st)"
proof -
  define q where "q = run_work H CONNECTED_WORK st"
  have zero: "output_hand (calls st) = 0"
    using assms by (auto simp: hand_inv_def combined_blank)
  have "output_hand (calls q) = 0 \<and> (mouse_conn q = None \<or> mouse_conn q = mouse_conn st \<and> session q = session st)"
  proof (cases "mouse_conn st")
    case None
    then show ?thesis using zero
      by (simp add: q_def run_work_def connected_work_cb_def take_event_def Let_def split: option.split)
  next
    case (Some c)
    define s1 where "s1 = complete_connection H c (take_event (log_call (Ran CONNECTED_WORK) st))"
    have s1: "output_hand (calls s1) = 0" "mouse_conn s1 = mouse_conn st" "session s1 = session st"
      using zero by (simp_all add: s1_def complete_connection_def take_event_def split: option.split)
    have "out_keep (abandon_mouse c s1) (after_close H (abandon_mouse c s1))" "output_hand (calls (abandon_mouse c s1)) = 0"
      using s1 by (auto intro!: keep_after_close simp: abandon_mouse_def)
    then have "mouse_conn (after_close H (abandon_mouse c s1)) = None" "output_hand (calls (after_close H (abandon_mouse c s1))) = 0"
      by (auto simp: out_keep_def abandon_mouse_def)
    moreover have "q = (if connected_error s1 \<noteq> 0 then after_close H (abandon_mouse c s1)
        else if failure s1 \<noteq> ok \<or> stage s1 = CLOSING then fail (Err ECANCELED) s1 else start_security H c s1)"
      using Some connected_work_some [OF _ s1_def] by (simp add: q_def run_work_def)
    moreover have "output_hand (calls (start_security H c s1)) = 0" "mouse_conn (start_security H c s1) = mouse_conn st"
      "session (start_security H c s1) = session st"
      using s1 by simp_all
    ultimately show ?thesis using s1 by simp
  qed
  then show ?thesis using assms unfolding q_def [symmetric] by (auto simp: hand_inv_def combined_blank)
qed

lemma hand_connect:
  assumes "hand_inv st" and "connect_mouse H a st = (e, st')"
  shows "hand_inv st'"
  using assms(2) by (cases rule: connect_cases)
    (use assms(1) in \<open>auto simp: hand_inv_def open_session_def empty_session_def combined_def\<close>)

lemma hand_connected_cb:
  assumes "hand_inv st" and "owns st (Some c) \<Longrightarrow> auto_connecting (calls st)"
  shows "hand_inv (connected_cb H c e st)"
proof (cases "owns st (Some c) \<or> stage st = CONNECTING \<and> conn_dst H (calls st) c = connecting_address st")
  case True
  then have "mouse_conn st \<noteq> None \<Longrightarrow> reports (session st) = []" using assms by (auto simp: hand_inv_def)
  then show ?thesis using assms(1) by (auto simp: hand_inv_def connected_cb_def)
qed (use assms(1) in \<open>auto simp: connected_cb_def\<close>)

lemma hand_notify:
  assumes "hand_inv st" and "gatt_inv H st" and "auto_inv st" and "session_inv st"
    and "i < length (reports (session st))" and "notify_cb conn i data st = (it, st')"
  shows "hand_inv st'"
  using assms(4-6)
proof (cases rule: notify_cases)
  case broken
  then show ?thesis using hand_quiet [OF quiet_fail keep_fail assms(1)] by simp
next
  case (frame bytes ri)
  then have "mouse_conn st \<noteq> None" unfolding valid_callback_def owns_def by metis
  moreover have "\<not> auto_connecting (calls st)" "\<not> pending_work CONNECTED_WORK (calls st)"
    using assms(2,3) frame(3) calculation by (auto simp: gatt_inv_def auto_inv_def)
  ultimately show ?thesis using frame(3,5) by (auto simp: hand_inv_def combined_def Let_def)
qed (use assms(1) in simp)

lemma hand_step:
  assumes "client_step H st oper st'" and "client_inv H st" and "hand_inv st"
  shows "hand_inv st'"
proof (cases "quiet_op oper")
  case True
  then show ?thesis using hand_quiet [OF quiet_step keep_step] assms by blast
next
  case False
  have inv: "gatt_inv H st" "auto_inv st" "session_inv st" using assms(2) by (simp_all add: client_inv_def)
  then have late: "pending_work CONNECTED_WORK (calls st) \<Longrightarrow> stage st \<noteq> CHARACTERISTICS" by (auto simp: gatt_inv_def)
  note report = hand_report [OF assms(3) late inv(2)]
  from assms(1) show ?thesis
  proof cases
    case (run w)
    then show ?thesis using False hand_discovery hand_connected_work assms(3) inv by auto
  next
    case (connect a e)
    then show ?thesis using hand_connect assms(3) by blast
  next
    case (connected c e)
    show ?thesis unfolding connected(2) by (rule hand_connected_cb [OF assms(3) connected(3)])
  next
    case (disconnected c)
    then show ?thesis using hand_quiet [OF quiet_callbacks(2) keep_callbacks(2)] assms(3) by simp
  next
    case (security c level e)
    show ?thesis unfolding security(2)
      by (intro report keep_reports) (auto simp: security_cb_def split: if_splits)
  next
    case (discovered c k attr it st1)
    then have "hand_inv st1"
      by (intro report keep_discover auto_discover) (auto simp: discover_cb_def Let_def split: if_splits option.splits client_stage.splits)
    then show ?thesis using discovered(2) by simp
  next
    case (read_reply c h e data it st1)
    then have "hand_inv st1"
      by (intro report keep_read auto_read) (auto simp: read_cb_def Let_def split: if_splits option.splits)
    then show ?thesis using read_reply(2) by simp
  next
    case (written c h e)
    have "hand_inv (written_cb (Some c) e st)" by (intro report keep_reports) (auto simp: written_cb_def split: if_splits)
    then show ?thesis using written(2) by simp
  next
    case (subscribed c i h h' e)
    have "hand_inv (subscribed_cb (Some c) e i st)" by (intro report keep_reports) (auto simp: subscribed_cb_def Let_def split: if_splits)
    then show ?thesis using subscribed(2) by simp
  next
    case (notified i c data it)
    then show ?thesis using hand_notify [OF assms(3) inv] by blast
  qed (use False in simp_all)
qed

interpretation told: state_invariant H hand_inv for H :: "'c host"
  by unfold_locales (auto intro: hand_boot hand_step)

lemmas hand_inv_trace = told.everywhere

end
