(* ===== verification/Ble_Client_Lifecycle.thy ===== *)
theory Ble_Client_Lifecycle
  imports Ble_Client_Props Ble_Client_Buttons
begin

text \<open>
  What the client promises, without its mechanisms: at most one registered mouse, and one connection to a
  mouse that comes up step by step, serves and goes. Every step of the client is a step of this machine.
\<close>

section \<open>The abstract machine\<close>

datatype phase = Away | Setting_Up client_stage | Serving | Leaving

record life =
  life_started :: bool
  life_mouse :: "bt_addr_le option"
  life_phase :: phase

text \<open>
  Registrations are loaded before the start only; afterwards a mouse is registered when a set-up with none
  registered completes, and forgotten only without a connection or together with it.
\<close>

inductive life_step :: "life \<Rightarrow> life \<Rightarrow> bool" where
  stay: "life_step l l"
| load: "\<not> life_started l \<Longrightarrow> life_step l (l\<lparr>life_mouse := m\<rparr>)"
| begins: "life_step l (l\<lparr>life_started := True\<rparr>)"
| dial: "life_started l \<Longrightarrow> life_phase l = Away \<Longrightarrow> life_step l (l\<lparr>life_phase := Setting_Up CONNECTING\<rparr>)"
| advance: "life_phase l = Setting_Up s \<Longrightarrow> s < s' \<Longrightarrow> s' < READY \<Longrightarrow> life_step l (l\<lparr>life_phase := Setting_Up s'\<rparr>)"
| serve: "life_phase l = Setting_Up SUBSCRIPTIONS \<Longrightarrow> life_mouse l = None \<or> life_mouse l = Some a \<Longrightarrow>
    life_step l (l\<lparr>life_phase := Serving, life_mouse := Some a\<rparr>)"
| leave: "life_phase l \<noteq> Away \<Longrightarrow> life_step l (l\<lparr>life_phase := Leaving\<rparr>)"
| gone: "life_phase l \<noteq> Away \<Longrightarrow> life_step l (l\<lparr>life_phase := Away\<rparr>)"
| gone_forgotten: "life_phase l \<noteq> Away \<Longrightarrow> life_step l (l\<lparr>life_phase := Away, life_mouse := None\<rparr>)"
| forget: "life_phase l = Away \<Longrightarrow> life_step l (l\<lparr>life_mouse := None\<rparr>)"

text \<open>The abstraction.\<close>

fun phase_of :: "client_stage \<Rightarrow> phase" where
  "phase_of IDLE = Away"
| "phase_of READY = Serving"
| "phase_of CLOSING = Leaving"
| "phase_of s = Setting_Up s"

definition registered_mouse :: "'c client \<Rightarrow> bt_addr_le option" where
  "registered_mouse st = (if have_peer st then Some (peer st) else None)"

definition life :: "'c client \<Rightarrow> life" where
  "life st = \<lparr>life_started = started st, life_mouse = registered_mouse st, life_phase = phase_of (stage st)\<rparr>"

lemma phase_simps [simp]: "phase_of s = Away \<longleftrightarrow> s = IDLE" "phase_of s = Serving \<longleftrightarrow> s = READY"
  by (cases s; simp)+

lemma phase_setup: "s \<noteq> IDLE \<Longrightarrow> s < READY \<Longrightarrow> phase_of s = Setting_Up s"
  by (cases s) (simp_all add: stage_order)

section \<open>What the steps do to the registration\<close>

text \<open>It stays, or it is forgotten and there is no connection, or a set-up that completes has registered a mouse.\<close>

definition mouse_step :: "'c client \<Rightarrow> 'c client \<Rightarrow> bool" where
  "mouse_step st st' \<longleftrightarrow> registered_mouse st' = registered_mouse st \<or>
     registered_mouse st' = None \<and> mouse_conn st' = None \<or>
     registered_mouse st = None \<and> stage st = SUBSCRIPTIONS \<and> stage st' = READY"

lemma mouse_same: "registered_mouse st' = registered_mouse st \<Longrightarrow> mouse_step st st'"
  by (simp add: mouse_step_def)

lemma mouse_link: "same_link st st' \<Longrightarrow> mouse_step st st'"
  by (simp add: mouse_step_def same_link_def registered_mouse_def)

lemma registered_log [simp]: "registered_mouse (log_call x st) = registered_mouse st"
  "registered_mouse (fail e st) = registered_mouse st" "registered_mouse (retry_work_cb H st) = registered_mouse st"
  "registered_mouse (request_retry st) = registered_mouse st" "registered_mouse (release_mouse H c st) = registered_mouse st"
  "registered_mouse (take_event st) = registered_mouse st" "registered_mouse (start_security H c st) = registered_mouse st"
  "registered_mouse (complete_connection H c st) = registered_mouse st"
  "registered_mouse (abandon_mouse c st) = registered_mouse st"
  by (simp_all add: registered_mouse_def retry_work_cb_def take_event_def complete_connection_def abandon_mouse_def Let_def
      split: option.split)

lemma mouse_forget: "registered_mouse (forget_peer H st) = registered_mouse st \<or> registered_mouse (forget_peer H st) = None"
  using forget_have_peer [of H st] by (auto simp: registered_mouse_def)

lemma mouse_after_close: "registered_mouse (after_close H st) = registered_mouse st \<or> registered_mouse (after_close H st) = None"
  using mouse_forget [of H st] by (simp add: after_close_def)

lemma mouse_disconnected:
  "registered_mouse (disconnected_work_cb H st) = registered_mouse st \<or>
     registered_mouse (disconnected_work_cb H st) = None \<and> mouse_conn (disconnected_work_cb H st) = None"
proof -
  have "mouse_conn (disconnected_work_cb H st) = None"
    by (simp add: disconnected_work_cb_def after_close_def split: option.split)
  moreover have "registered_mouse (disconnected_work_cb H st) = registered_mouse st \<or>
      registered_mouse (disconnected_work_cb H st) = None"
    using mouse_after_close [of H "release_mouse H c st" for c]
    by (cases "mouse_conn st") (simp_all add: disconnected_work_cb_def)
  ultimately show ?thesis by simp
qed

lemma mouse_failure: "mouse_step st (failure_work_cb H st)"
proof (cases "mouse_conn st")
  case None
  then show ?thesis by (intro mouse_same) (simp add: failure_work_cb_def registered_mouse_def Let_def)
next
  case (Some c)
  define q where "q = log_call (Disconnect_Conn c) (st\<lparr>stage := CLOSING, scan_wanted := False\<rparr>)"
  have "registered_mouse q = registered_mouse st" by (simp add: q_def registered_mouse_def)
  then show ?thesis using Some mouse_disconnected [of H q]
    by (auto simp: failure_work_cb_def perform_eq mouse_step_def Let_def simp flip: q_def)
qed

lemma mouse_connected_work: "mouse_step st (connected_work_cb H st)"
proof (cases "mouse_conn st")
  case (Some c)
  then show ?thesis
    using mouse_after_close [of H "abandon_mouse c (complete_connection H c (take_event st))"]
      abandoned [of H c "complete_connection H c (take_event st)"]
    by (auto simp: connected_work_cb_def mouse_step_def Let_def)
qed (simp add: connected_work_cb_def mouse_same)

lemma mouse_finish:
  assumes "stage st = SUBSCRIPTIONS" and "new_candidate st \<longleftrightarrow> \<not> have_peer st"
  shows "mouse_step st (finish_ready H c st)"
  using assms by (simp add: finish_ready_def perform_eq mouse_step_def registered_mouse_def Let_def)

lemma mouse_discovery:
  assumes "link_inv st"
  shows "mouse_step st (discovery_work_cb H st)"
proof (cases "active st \<and> discovering (stage st)")
  case False
  then show ?thesis by (simp add: discovery_rest mouse_same)
next
  case True
  then obtain c where c: "mouse_conn st = Some c" "failure st = ok" "stage st \<noteq> CLOSING" by (auto simp: active_def)
  have fail: "mouse_step st (fail e q)" if "registered_mouse q = registered_mouse st" for e q
    using that by (intro mouse_same) simp
  obtain e1 q1 where p: "protocol_stage H c st = (e1, q1)" by fastforce
  obtain e2 q2 where r: "references_stage H c st = (e2, q2)" by fastforce
  obtain e3 q3 where s: "subscriptions_stage H c st = (e3, q3)" by fastforce
  have q: "registered_mouse q1 = registered_mouse st" "registered_mouse q2 = registered_mouse st"
    using protocol_same [OF p] references_same [OF r] by (simp_all add: same_link_def registered_mouse_def)
  have "mouse_step st (if e3 \<noteq> ok then fail e3 q3 else q3)" if "stage st = SUBSCRIPTIONS"
    using s
  proof (cases rule: subscriptions_cases)
    case (1 n)
    let ?st = "upd_session (index_update (\<lambda>_. n)) st"
    have "mouse_step ?st (finish_ready H c ?st)"
      using that assms c by (intro mouse_finish) (auto simp: link_inv_def)
    moreover have "registered_mouse ?st = registered_mouse st" by (simp add: registered_mouse_def)
    ultimately show ?thesis using 1 by (auto simp: mouse_step_def)
  qed (use fail in \<open>auto intro!: mouse_same simp: registered_mouse_def\<close>)
  then show ?thesis
    using True c q fail
    by (cases "stage st") (auto simp: discovery_work_cb_def read_map_stage_def perform_eq p r s Let_def intro: mouse_same)
qed

lemma mouse_run:
  assumes "link_inv st"
  shows "mouse_step st (run_work H w st)"
proof -
  let ?st = "log_call (Ran w) st"
  have lift: "mouse_step ?st q \<Longrightarrow> mouse_step st q" for q by (simp add: mouse_step_def)
  have "mouse_step ?st (disconnected_work_cb H ?st)" using mouse_disconnected [of H ?st] by (auto simp: mouse_step_def)
  moreover have "mouse_step ?st (pair_timeout_cb H ?st)"
    by (intro mouse_same) (simp add: pair_timeout_cb_def registered_mouse_def Let_def)
  moreover have "mouse_step ?st (pair_work_cb H ?st)"
    by (intro mouse_same) (simp add: pair_work_cb_def registered_mouse_def)
  moreover have "mouse_step ?st (clear_work_cb H ?st)"
    using mouse_forget [of H "?st\<lparr>pairing := False, scan_wanted := False, forget_requested := True\<rparr>"]
    by (auto simp: clear_work_cb_def mouse_step_def registered_mouse_def Let_def)
  moreover have "mouse_step ?st (timeout_work_cb ?st)" by (intro mouse_same) (simp add: timeout_work_cb_def)
  ultimately show ?thesis
    using assms mouse_failure [of ?st H] mouse_connected_work [of ?st H] mouse_discovery [of ?st H]
    by (intro lift) (cases w; simp add: run_work_def mouse_same)
qed

lemma mouse_connect: "connect_mouse H a st = (e, st') \<Longrightarrow> registered_mouse st' = registered_mouse st"
  by (cases rule: connect_cases) (auto simp: registered_mouse_def open_session_def)

lemma mouse_others:
  "zmk_ble_mouse_advertisement H a ty ad st = (r, st') \<Longrightarrow> registered_mouse st' = registered_mouse st"
  "pressed p o1 k st = (e, st') \<Longrightarrow> registered_mouse st' = registered_mouse st"
  "released p o1 k st = (e, st') \<Longrightarrow> registered_mouse st' = registered_mouse st"
  by (auto simp: registered_mouse_def zmk_ble_mouse_advertisement_def pressed_def released_def
      zmk_ble_mouse_pair_def zmk_ble_mouse_clear_hold_def Let_def split: if_splits prod.splits)

lemma mouse_callbacks:
  "registered_mouse (connected_cb H c e st) = registered_mouse st" "registered_mouse (disconnected_cb c st) = registered_mouse st"
  "registered_mouse (security_cb c level x st) = registered_mouse st"
  "registered_mouse (pairing_complete_cb c b st) = registered_mouse st"
  "registered_mouse (pairing_failed_cb c st) = registered_mouse st"
  by (simp_all add: registered_mouse_def connected_cb_def disconnected_cb_def security_cb_def pairing_complete_cb_def
      pairing_failed_cb_def Let_def)

lemma mouse_done [simp]: "mouse_step st (log_call Gatt_Done st') = mouse_step st st'"
  by (simp add: mouse_step_def)

lemma mouse_client_step:
  assumes "client_step H st oper st'" and "link_inv st" and "started st"
  shows "mouse_step st st'"
  using assms(1)
proof cases
  case (run w)
  then show ?thesis using mouse_run [OF assms(2)] by simp
next
  case (connect a e)
  then show ?thesis using mouse_connect mouse_same by blast
next
  case (discovered c k attr it st1)
  then show ?thesis using mouse_link [OF discover_link [OF discovered(4)]] by simp
next
  case (read_reply c h e data it st1)
  then show ?thesis using mouse_link [OF read_link [OF read_reply(4)]] by simp
next
  case (notified i c data it)
  then show ?thesis using mouse_link [OF notify_link] by blast
next
  case (start e)
  then show ?thesis using assms(3) by (simp add: zmk_ble_mouse_start_def mouse_same)
qed (use assms(3) in \<open>auto intro: mouse_same mouse_link written_link subscribed_link
    dest: mouse_others simp: mouse_callbacks\<close>)

section \<open>What the steps do to the connection\<close>

lemma dial_step:
  assumes "client_step H st oper st'" and "link_inv st" and "boot_inv st"
    and "mouse_conn st = None" and "mouse_conn st' \<noteq> None"
  shows "started st \<and> registered_mouse st' = registered_mouse st \<and> stage st' = CONNECTING"
proof (cases "quiet_op oper")
  case True
  from keep_step [OF assms(1) True] show ?thesis using assms(4,5) by (auto simp: out_keep_def)
next
  case False
  from assms(1) show ?thesis
  proof cases
    case (run w)
    then show ?thesis using False assms(4,5)
      by (auto simp: run_work_def discovery_rest active_def connected_work_cb_def)
  next
    case (connect a e)
    from connect(3) show ?thesis
    proof (cases rule: connect_cases)
      case (dialled c new ev er)
      then have "started st" using assms(3) by (simp add: boot_inv_def)
      then show ?thesis using dialled(7) by (simp add: registered_mouse_def open_session_def)
    qed (use assms(4,5) in \<open>auto simp: open_session_def\<close>)
  qed (use False assms(4,5) in \<open>auto simp: idle_callbacks idle_owns connected_cb_def disconnected_cb_def security_cb_def
      split: if_splits\<close>)
qed

lemma serve_discovery:
  assumes "stage (discovery_work_cb H st) = READY" and "stage st \<noteq> READY"
  shows "stage st = SUBSCRIPTIONS"
proof (cases "active st \<and> discovering (stage st)")
  case False
  then show ?thesis using assms discovery_rest [of st H] by simp
next
  case True
  obtain e1 st1 where p: "parse_stage st = (e1, st1)" by fastforce
  then obtain m where "st1 = upd_session (\<lambda>s. s\<lparr>hid_map := m\<rparr>) st" by (rule parse_stage_cases)
  then show ?thesis using True p assms
    by (cases "stage st") (auto simp: active_def discovery_work_cb_def read_map_stage_def references_stage_def
        protocol_stage_def perform_eq Let_def split: option.splits if_splits)
qed

lemma serve_step:
  assumes "client_step H st oper st'" and "link_inv st" and "session_inv st" and "stage st' = READY" and "stage st \<noteq> READY"
  shows "stage st = SUBSCRIPTIONS"
proof (cases "quiet_op oper")
  case True
  from quiet_step [OF assms(1) True] show ?thesis
    using assms(4,5) by (cases rule: quiet_cases) auto
next
  case False
  from assms(1) show ?thesis
  proof cases
    case (run w)
    have "stage (start_security H c q) \<noteq> READY" for c q
      by (cases rule: security_cases [of H c q]) auto
    then have up: "stage (connected_work_cb H q) = READY \<Longrightarrow> stage q = READY" for q
      by (auto simp: connected_work_cb_def complete_connection_def abandon_mouse_def after_close_def Let_def
          split: option.splits if_splits)
    then show ?thesis using run False assms(4,5) serve_discovery [of H "log_call (Ran DISCOVERY_WORK) st"]
      up [of "log_call (Ran CONNECTED_WORK) st"]
      by (auto simp: run_work_def)
  next
    case (connect a e)
    from connect(3) show ?thesis using assms(4,5) by (cases rule: connect_cases) (auto simp: open_session_def)
  next
    case (notified i c data it)
    from assms(3) notified(2,3) show ?thesis using assms(4,5) by (cases rule: notify_cases) (simp_all add: Let_def)
  next
    case (discovered c k attr it st1)
    then have "stage st1 = READY" using assms(4) by (simp split: if_splits)
    then show ?thesis using discovered(4) assms(5)
      by (cases "stage st") (auto simp: discover_cb_def Let_def split: option.splits if_splits)
  next
    case (read_reply c h e data it st1)
    then have "stage st1 = READY" using assms(4) by (simp split: if_splits)
    then show ?thesis using read_reply(4) assms(5) by (auto simp: read_cb_def Let_def split: option.splits if_splits)
  qed (use False assms(4,5) in \<open>auto simp: connected_cb_def disconnected_cb_def security_cb_def written_cb_def subscribed_cb_def
      Let_def split: if_splits\<close>)
qed

section \<open>The refinement\<close>

lemma not_started_step:
  assumes "client_step H st oper st'" and "boot_inv st" and "\<not> started st"
  shows "life_step (life st) (life st')"
proof -
  have idle: "mouse_conn st = None" "stage st = IDLE" "\<not> scan_wanted st" "\<And>w. \<not> pending_work w (calls st)"
    using assms(2,3) by (auto simp: boot_inv_def)
  note quiet = idle_callbacks [OF idle(1)] idle_others(1) [OF idle(1,2)] idle_others(2,3) [OF idle(3)]
  from assms(1) show ?thesis
  proof cases
    case (stored_peer name len rd e)
    have "started st' = started st \<and> stage st' = stage st"
      using stored_peer(3) by (auto simp: settings_set_def Let_def split: if_splits sum.splits)
    then have "life st' = (life st)\<lparr>life_mouse := registered_mouse st'\<rparr>" by (simp add: life_def)
    then show ?thesis using life_step.load [of "life st"] assms(3) by (simp add: life_def)
  next
    case (start e)
    then have "life st' = (life st)\<lparr>life_started := True\<rparr>"
      using assms(3) by (simp add: zmk_ble_mouse_start_def life_def registered_mouse_def)
    then show ?thesis using life_step.begins [of "life st"] by simp
  next
    case (key_pressed k e)
    then have "life st' = life st"
      by (auto simp: pressed_def zmk_ble_mouse_pair_def zmk_ble_mouse_clear_hold_def life_def registered_mouse_def Let_def split: if_splits)
    then show ?thesis by (simp add: life_step.stay)
  next
    case (key_released k e)
    then have "life st' = life st"
      by (auto simp: released_def zmk_ble_mouse_clear_hold_def life_def registered_mouse_def Let_def split: if_splits)
    then show ?thesis by (simp add: life_step.stay)
  qed (use idle quiet in \<open>auto simp: life_def intro: life_step.stay\<close>)
qed

lemma started_step:
  assumes "client_step H st oper st'" and "started st"
  shows "started st'"
  using assms
  by (auto elim!: client_stepE simp: started_run started_callbacks zmk_ble_mouse_start_def same_link_def
      dest!: discover_link read_link notify_link split: if_splits)

text \<open>A step that keeps the connection.\<close>

lemma held_step:
  assumes "link_inv st" and "link_inv st'" and "mouse_conn st = Some c" and "mouse_conn st' = Some c'"
    and "stage st \<le> stage st'" and "mouse_step st st'" and "started st' = started st"
    and "stage st' = READY \<Longrightarrow> stage st \<noteq> READY \<Longrightarrow> stage st = SUBSCRIPTIONS"
  shows "life_step (life st) (life st')"
proof -
  have up: "stage st \<noteq> IDLE" "stage st' \<noteq> IDLE" using assms(1-4) by (auto simp: link_inv_def)
  have mouse: "registered_mouse st' = registered_mouse st \<or>
      registered_mouse st = None \<and> stage st = SUBSCRIPTIONS \<and> stage st' = READY"
    using assms(4,6) by (auto simp: mouse_step_def)
  consider (closing) "stage st' = CLOSING" | (serving) "stage st' = READY" "stage st \<noteq> READY"
    | (same) "stage st' = stage st" | (on) "stage st' < READY" "stage st < stage st'"
    using assms(5) by (cases "stage st'"; cases "stage st") (auto simp: stage_order)
  then show ?thesis
  proof cases
    case closing
    then have "life st' = (life st)\<lparr>life_phase := Leaving\<rparr>" using mouse assms(7) by (simp add: life_def)
    then show ?thesis using life_step.leave [of "life st"] up by (simp add: life_def)
  next
    case serving
    have "registered_mouse st' = Some (peer st')" using serving(1) assms(2) by (simp add: link_inv_def registered_mouse_def)
    then show ?thesis using life_step.serve [of "life st" "peer st'"] mouse serving assms(7,8) by (auto simp: life_def)
  next
    case same
    then have "registered_mouse st' = registered_mouse st" using mouse by auto
    then show ?thesis using same life_step.stay [of "life st"] assms(7) by (simp add: life_def)
  next
    case on
    then have "phase_of (stage st) = Setting_Up (stage st)" "phase_of (stage st') = Setting_Up (stage st')"
      using up by (auto intro!: phase_setup)
    moreover have "registered_mouse st' = registered_mouse st" using mouse on by auto
    ultimately show ?thesis using on life_step.advance [of "life st" "stage st" "stage st'"] assms(7) by (simp add: life_def)
  qed
qed

text \<open>C8: The client implements the machine above. Whatever callback or work item comes next, in every
  reachable state its effect on registration and connection is one step of it: a connection comes up
  stage by stage and never back, it serves only after the subscriptions and with a mouse registered, a
  mouse is registered only where there was none and only by completing a set-up, and it is forgotten
  only together with the connection or without one; before the start nothing connects.\<close>

theorem client_lifecycle:
  assumes "client_trace H ops st" and "client_step H st oper st'"
  shows "life_step (life st) (life st')"
proof (cases "started st")
  case False
  then show ?thesis using not_started_step [OF assms(2)] client_inv_trace [OF assms(1)] by (simp add: client_inv_def)
next
  case True
  have inv: "link_inv st" "session_inv st" "boot_inv st" "link_inv st'"
    using client_inv_trace [OF assms(1)] client_inv_trace [OF client_trace.step [OF assms]]
    by (simp_all add: client_inv_def)
  have idle: "stage st = IDLE \<longleftrightarrow> mouse_conn st = None" "stage st' = IDLE \<longleftrightarrow> mouse_conn st' = None"
    using inv(1,4) by (auto simp: link_inv_def)
  have run: "started st'" using started_step [OF assms(2) True] .
  have mouse: "mouse_step st st'" using mouse_client_step [OF assms(2) inv(1) True] .
  consider (off) "mouse_conn st = None" "mouse_conn st' = None" | (opens) "mouse_conn st = None" "mouse_conn st' \<noteq> None"
    | (held) c c' where "mouse_conn st = Some c" "mouse_conn st' = Some c'" | (closes) "mouse_conn st \<noteq> None" "mouse_conn st' = None"
    by fastforce
  then show ?thesis
  proof cases
    case off
    then have "stage st = IDLE" "stage st' = IDLE" using idle by auto
    then show ?thesis using mouse True run life_step.stay life_step.forget [of "life st"] by (auto simp: mouse_step_def life_def)
  next
    case opens
    then show ?thesis using dial_step [OF assms(2) inv(1,3) opens] True run idle life_step.dial [of "life st"]
      by (simp add: life_def)
  next
    case held
    show ?thesis
      using held_step [OF inv(1,4) held stage_order_kept [OF assms held] mouse] True run serve_step [OF assms(2) inv(1,2)] by blast
  next
    case closes
    then show ?thesis using mouse True run idle life_step.gone [of "life st"] life_step.gone_forgotten [of "life st"]
      by (auto simp: mouse_step_def life_def)
  qed
qed

theorem client_lifecycle_witness:
  "life_step \<lparr>life_started = True, life_mouse = None, life_phase = Setting_Up SUBSCRIPTIONS\<rparr>
     \<lparr>life_started = True, life_mouse = Some mouse_addr, life_phase = Serving\<rparr>"
proof -
  have "client_step m720_host subscribed_state (Run DISCOVERY_WORK) ready_state"
    using run_ready by (intro client_exec_step) (auto split: option.splits if_splits)
  from client_lifecycle [OF subscribed_trace this] show ?thesis
    by (simp add: life_def registered_mouse_def subscribed_state_def ready_state_def secured_state_def opened_state_def)
qed

end
