(* ===== verification/Mouse_System.thy ===== *)
theory Mouse_System
  imports Ble_Client_Buttons Ble_Client_Run Mouse_Output_Props
begin

text \<open>
  The client and the output component together. The calls the client makes are the calls the output
  receives, in that order; between them the output's worker and the endpoint events come in anywhere.
\<close>

section \<open>The calls that join them\<close>

text \<open>The output operations among the calls of the client, in the order they were made.\<close>

fun output_calls :: "'c client_call list \<Rightarrow> output_op list" where
  "output_calls [] = []"
| "output_calls (c # cs) = output_calls cs @
     (case c of Output_Receive f p \<Rightarrow> [Receive f p] | Output_Disconnect \<Rightarrow> [Disconnect] | _ \<Rightarrow> [])"

fun from_client :: "output_op \<Rightarrow> bool" where
  "from_client (Receive f p) = True"
| "from_client Disconnect = True"
| "from_client (Endpoint c) = False"
| "from_client Work = False"

lemma hand_append: "hand (xs @ [x]) = (case x of Receive _ p \<Rightarrow> p AND 0x1f | Disconnect \<Rightarrow> 0 | _ \<Rightarrow> hand xs)"
  by (simp add: hand_def split: output_op.split)

lemma hand_output_calls: "hand (output_calls cs) = output_hand cs"
proof (induction cs)
  case (Cons c cs)
  then show ?case by (cases c) (simp_all add: hand_append)
qed (simp add: hand_def)

lemma hand_from_client: "hand (filter from_client ops) = hand ops"
proof (induction ops rule: rev_induct)
  case (snoc x xs)
  then show ?case by (cases x) (simp_all add: hand_append)
qed simp

text \<open>The buttons of the mouse as the client knows them.\<close>

definition held_buttons :: "'c client \<Rightarrow> u8" where
  "held_buttons c = (if mouse_conn c = None then 0 else combined (session c))"

lemma output_told: "client_trace H ops c \<Longrightarrow> output_hand (calls c) = held_buttons c AND 0x1f"
  by (drule hand_inv_trace) (auto simp: hand_inv_def held_buttons_def)

lemma bit_low: "bit (x AND 0x1f :: u8) n \<longleftrightarrow> bit x n \<and> n < 5"
  unfolding bit_and_iff bit_0x1f ..

section \<open>From the mouse to the listener\<close>

text \<open>C6: End to end, the keyboard ends up with the buttons the mouse holds. Whatever the host and the mouse do,
  and however the client's calls, endpoint events and the output's worker interleave: when the worker
  has nothing left to do, the five buttons that the reports of the connected mouse hold are exactly the
  ones forwarded or muted, and without a connection no button is held and the listener has seen a
  release for each press.\<close>

theorem listener_follows_mouse:
  assumes "client_trace H cops c"
    and "input_queue put get purge contents qinv capacity" and "qinv q" and "contents q = []"
    and "output_trace put get purge (output_init q) ops st" and "filter from_client ops = output_calls (calls c)"
    and "length (filter (\<lambda>oper. oper \<noteq> Work) ops) < 2 ^ 32"
    and "worker st = WIdle" and "\<not> output_submitted st"
  shows "(\<forall>n < 5. bit (held_buttons c) n \<longleftrightarrow> bit (forwarded (buttons st)) n \<noteq> bit (suppressed (buttons st)) n) \<and>
    (mouse_conn c = None \<longrightarrow> forwarded (buttons st) = 0 \<and> suppressed (buttons st) = 0 \<and>
       (\<forall>n < 5. even (length (key_values n (reported st)))))"
proof -
  have told: "hand ops = held_buttons c AND 0x1f"
    using hand_from_client [of ops] assms(6) output_told [OF assms(1)] by (simp add: hand_output_calls)
  note rest = rest_state(4) [OF assms(2-5,7-9), unfolded told bit_low]
  have "button_inv (buttons st)" using trace_keys [OF assms(5)] by (simp add: keys_ok_def)
  then have none: "forwarded (buttons st) = 0 \<and> suppressed (buttons st) = 0" if "mouse_conn c = None"
    using rest that by (auto simp: held_buttons_def button_inv_def intro!: bit_eqI)
  moreover have "even (length (key_values n (reported st)))" if "n < 5" "mouse_conn c = None" for n
    using trace_keys [OF assms(5)] that none unfolding keys_ok_def key_log_def by fastforce
  ultimately show ?thesis using rest by blast
qed

text \<open>The mouse of the example run sends one notification, and the output works it off.\<close>

definition sent_frame :: mouse_hid_frame where
  "sent_frame = \<lparr>fr_x = - 2048, fr_y = 2047, fr_wheel = - 1, fr_pan = 2, fr_buttons = 25, fr_buttons_present = 31\<rparr>"

definition moved_state :: "nat client" where
  "moved_state = snd (notify_cb (Some 1) 0 (Some m720_report) ready_state)"

definition shown :: "queued_input ring out_state" where
  "shown = the (works k_msgq_get 7 (demo_receive sent_frame 25 (output_init empty_ring)))"

lemma moved_facts:
  "calls moved_state = Output_Receive sent_frame 25 # calls ready_state" "mouse_conn moved_state = Some 1"
  "combined (session moved_state) = 25"
proof -
  have st: "mouse_conn ready_state = Some 1" "failure ready_state = ok" "hid_map (session ready_state) = m720_map"
    "reports (session ready_state) = known_reports"
    by (simp_all add: ready_state_def ready_session_data_def secured_state_def opened_state_def)
  have "rc_id (known_reports ! 0) = 7" "fold (\<lambda>r p. p OR rc_buttons r) (known_reports[0 := (known_reports ! 0)\<lparr>rc_buttons := 25\<rparr>]) 0 = 25"
    "length known_reports = 2"
    by (simp_all add: known_reports_def)
  then show "calls moved_state = Output_Receive sent_frame 25 # calls ready_state" "mouse_conn moved_state = Some 1"
    "combined (session moved_state) = 25"
    using st ready_stage m720_decode
    by (simp_all add: moved_state_def notify_cb_def valid_callback_def owns_def combined_def sent_frame_def Let_def)
qed

lemma moved_trace: "client_trace m720_host (m720_ops @ [Notified (Some 1) 0 (Some m720_report)]) moved_state"
proof -
  obtain it where "notify_cb (Some 1) 0 (Some m720_report) ready_state = (it, moved_state)"
    by (metis moved_state_def prod.collapse)
  moreover have "0 < length (reports (session ready_state))"
    by (simp add: ready_state_def ready_session_data_def known_reports_def)
  ultimately show ?thesis using ready_trace client_trace.step client_step.notified by metis
qed

lemma quiet_output: "output_calls (calls ready_state) = []"
  by (simp add: ready_state_def subscribed_calls_def read_calls_def discovered_calls_def opened_calls_def
      opened_state_def pairing_calls_def)

lemma shown_trace: "ring_trace (output_init empty_ring) (Receive sent_frame 25 # replicate 7 Work) shown"
proof -
  have "works k_msgq_get 7 (demo_receive sent_frame 25 (output_init empty_ring)) \<noteq> None" by code_simp
  then have "works k_msgq_get 7 (demo_receive sent_frame 25 (output_init empty_ring)) = Some shown" by (auto simp: shown_def)
  with output_trace.extend [OF output_trace.start output_step.receive] show ?thesis
    using trace_append works_trace by fastforce
qed

theorem listener_follows_mouse_witness:
  "bit (held_buttons moved_state) 3 \<and> bit (forwarded (buttons shown)) 3 \<noteq> bit (suppressed (buttons shown)) 3"
proof -
  have "filter from_client (Receive sent_frame 25 # replicate 7 Work) = output_calls (calls moved_state)"
    by (simp add: moved_facts quiet_output filter_replicate)
  moreover have "length (filter (\<lambda>oper. oper \<noteq> Work) (Receive sent_frame 25 # replicate 7 Work)) < 2 ^ 32"
    by (simp add: filter_replicate)
  moreover have "worker shown = WIdle" "\<not> output_submitted shown" by code_simp+
  ultimately have "\<forall>n < 5. bit (held_buttons moved_state) n \<longleftrightarrow> bit (forwarded (buttons shown)) n \<noteq> bit (suppressed (buttons shown)) n"
    using listener_follows_mouse [OF moved_trace ring_inputs.input_queue_axioms empty_ring_ok shown_trace] by blast
  moreover have "held_buttons moved_state = 25" by (simp add: held_buttons_def moved_facts)
  moreover have "bit (25 :: u8) 3" by (simp add: bit_numeral_rec)
  moreover have "(3 :: nat) < 5" by simp
  ultimately show ?thesis by metis
qed

end
