(* ===== verification/Scan_System.thy ===== *)
theory Scan_System
  imports Ble_Client_Progress Ble_Client_Origin Central_Scan_Props
begin

text \<open>
  The client and the scan coordinator together. The client's calls are the operations of the
  coordinator; the coordinator asks the client whether it wants a scan, and calls its connect function
  for the address it was given. The work items of both run on one queue, one at a time.
\<close>

section \<open>The composition\<close>

text \<open>The operations of the coordinator among the client's calls, in the order they were made.\<close>

fun scan_calls :: "'c client_call list \<Rightarrow> bt_addr_le scan_op list" where
  "scan_calls [] = []"
| "scan_calls (c # cs) = scan_calls cs @
     (case c of
        Scan_Refresh \<Rightarrow> [Refresh]
      | Connection_Complete \<Rightarrow> [ConnectionComplete]
      | Central_Connect a \<Rightarrow> [ConnectRequest a]
      | Scan_Init \<Rightarrow> [InitRegister, InitFinish]
      | _ \<Rightarrow> [])"

text \<open>The operations that the client makes, and those of the Bluetooth thread and of others.\<close>

fun by_client :: "'a scan_op \<Rightarrow> bool" where
  "by_client (ConnectRequest a) = True"
| "by_client Refresh = True"
| "by_client ConnectionComplete = True"
| "by_client InitRegister = True"
| "by_client InitFinish = True"
| "by_client _ = False"

fun by_radio :: "'a scan_op \<Rightarrow> bool" where
  "by_radio ConnectionChanged = True"
| "by_radio RxStep = True"
| "by_radio Environment = True"
| "by_radio _ = False"

text \<open>The coordinator carries out the calls \<open>new\<close>; the Bluetooth thread may come in between.\<close>

definition carries_out :: "('w \<Rightarrow> cret \<times> 'w) \<Rightarrow> ('w \<Rightarrow> cret \<times> 'w) \<Rightarrow> ('w \<Rightarrow> 'w \<Rightarrow> bool) \<Rightarrow> 'c client_call list \<Rightarrow>
    bt_addr_le scan_op list \<Rightarrow> (bt_addr_le, 'w) scanner \<Rightarrow> (bt_addr_le, 'w) scanner \<Rightarrow> bool" where
  "carries_out start stop env new ops s s' \<longleftrightarrow> scan_trace start stop env s ops s' \<and>
     filter by_client ops = scan_calls new \<and> (\<forall>oper \<in> set ops. by_client oper \<or> by_radio oper)"

text \<open>
  The runs of the two. A work item of the client needs the queue, which exists once \<open>initialized\<close> is set; the
  connect function is called by the coordinator alone (\<open>dial\<close>). A step of the coordinator other than
  these reads neither the client nor the result of the connect function.
\<close>

inductive joint_trace :: "('w \<Rightarrow> cret \<times> 'w) \<Rightarrow> ('w \<Rightarrow> cret \<times> 'w) \<Rightarrow> ('w \<Rightarrow> 'w \<Rightarrow> bool) \<Rightarrow> 'c host \<Rightarrow> 'w \<Rightarrow>
    bt_addr_le scan_op list \<Rightarrow> 'c client_op list \<Rightarrow> (bt_addr_le, 'w) scanner \<Rightarrow> 'c client \<Rightarrow> bool"
  for start :: "'w \<Rightarrow> cret \<times> 'w" and stop :: "'w \<Rightarrow> cret \<times> 'w" and env :: "'w \<Rightarrow> 'w \<Rightarrow> bool" and H :: "'c host"
    and w :: 'w where
  boot: "joint_trace start stop env H w [] [] (scan_boot w) client_boot"
| client: "joint_trace start stop env H w sops cops s c \<Longrightarrow> client_step H c oper c' \<Longrightarrow> \<forall>a. oper \<noteq> Connect a \<Longrightarrow>
    (\<forall>item. oper = Run item \<longrightarrow> initialized s \<and> queue_pc s = QIdle) \<Longrightarrow>
    calls c' = new @ calls c \<Longrightarrow> carries_out start stop env new ops s s' \<Longrightarrow>
    joint_trace start stop env H w (sops @ ops) (cops @ [oper]) s' c'"
| scanner: "joint_trace start stop env H w sops cops s c \<Longrightarrow> scan_step start stop env s oper s' \<Longrightarrow>
    oper \<in> {ScanWork, ConnectWork, SettleWork} \<or> by_radio oper \<Longrightarrow>
    joint_trace start stop env H w (sops @ [oper]) cops s' c"
| queue: "joint_trace start stop env H w sops cops s c \<Longrightarrow> queue_pc s \<noteq> QDial \<Longrightarrow>
    queue_step start stop (zmk_ble_mouse_wants_scan c) ts (Err EIO) s = Some s' \<Longrightarrow>
    joint_trace start stop env H w (sops @ [QueueStep (zmk_ble_mouse_wants_scan c) ts (Err EIO)]) cops s' c"
| dial: "joint_trace start stop env H w sops cops s c \<Longrightarrow> queue_pc s = QDial \<Longrightarrow> pending_address s = Some a \<Longrightarrow>
    connect_mouse H a c = (e, c') \<Longrightarrow> calls c' = new @ calls c \<Longrightarrow> carries_out start stop env new ops s s1 \<Longrightarrow>
    queue_step start stop True ts e s1 = Some s' \<Longrightarrow>
    joint_trace start stop env H w (sops @ ops @ [QueueStep True ts e]) (cops @ [Connect a]) s' c'"

section \<open>Its two halves\<close>

lemma scan_trace_append:
  assumes "scan_trace start stop env s ops s1" and "scan_trace start stop env s1 ops' s2"
  shows "scan_trace start stop env s (ops @ ops') s2"
  using assms(2)
proof induction
  case here
  then show ?case using assms(1) by simp
next
  case (more ops' s2 oper s3)
  then show ?case using scan_trace.more [of start stop env s "ops @ ops'"] by simp
qed

lemma queue_pending:
  assumes "queue_step start stop needed ts dial s = Some s'"
  shows "pending_address s' = pending_address s"
  using assms
proof (cases rule: queue_cases)
  case (missing k)
  then show ?thesis by (cases k) auto
next
  case (call k e s1)
  then show ?thesis by (cases k) (auto elim!: stop_call_shape)
qed auto

lemma step_pending:
  assumes "scan_step start stop env s oper s'"
  shows "pending_address s' = pending_address s \<or> (\<exists>a. oper = ConnectRequest a \<and> pending_address s' = Some a)"
  using assms
proof cases
  case (queue needed ts dial)
  then show ?thesis using queue_pending by blast
next
  case rx
  then show ?thesis using rx_frame(4) by blast
qed (auto simp: simple_steps split: if_splits)

lemma trace_pending:
  assumes "scan_trace start stop env s ops s'" and "pending_address s' = Some a"
  shows "pending_address s = Some a \<or> ConnectRequest a \<in> set ops"
  using assms
proof (induction arbitrary: a)
  case (more ops s1 oper s2)
  then show ?case using step_pending [OF more.hyps(2)] more.IH [of a] by (elim disjE) auto
qed simp

lemma called: "ConnectRequest a \<in> set (scan_calls new) \<Longrightarrow> Central_Connect a \<in> set new"
proof (induction new)
  case (Cons x new)
  then show ?case by (cases x) auto
qed simp

lemma pending_called:
  assumes "carries_out start stop env new ops s s'" and "pending_address s' = Some a"
  shows "pending_address s = Some a \<or> Central_Connect a \<in> set new"
proof -
  have "ConnectRequest a \<in> set ops \<Longrightarrow> ConnectRequest a \<in> set (filter by_client ops)" by simp
  then show ?thesis using assms trace_pending called unfolding carries_out_def by metis
qed

text \<open>
  Every run of the two is a run of each. In particular the coordinator keeps what the client relies
  on: its connect function is called only for an address it gave to \<open>zmk_ble_central_connect\<close>.
\<close>

lemma joint_halves:
  assumes "joint_trace start stop env H w sops cops s c"
  shows "scan_trace start stop env (scan_boot w) sops s \<and> client_trace H cops c \<and>
    (\<forall>a. pending_address s = Some a \<longrightarrow> Central_Connect a \<in> set (calls c))"
  using assms
proof induction
  case boot
  then show ?case using scan_trace.here client_trace.boot by (auto simp: scan_boot_def)
next
  case (client sops cops s c oper c' new ops s')
  then show ?case using scan_trace_append client_trace.step pending_called [OF client.hyps(6)]
    unfolding carries_out_def by fastforce
next
  case (scanner sops cops s c oper s')
  have "pending_address s' = pending_address s" using step_pending [OF scanner.hyps(2)] scanner.hyps(3) by auto
  then show ?case using scanner scan_trace.more by metis
next
  case (queue sops cops s c ts s')
  then show ?case using scan_trace.more [OF _ scan_step.queue] queue_pending by metis
next
  case (dial sops cops s c a e c' new ops s1 ts s')
  have "scan_trace start stop env s (ops @ [QueueStep True ts e]) s'"
    using dial.hyps(6) scan_trace.more [OF _ scan_step.queue [OF dial.hyps(7)]] unfolding carries_out_def by blast
  moreover have "client_step H c (Connect a) c'" using dial client_step.connect by metis
  moreover have "pending_address s' = Some b \<Longrightarrow> Central_Connect b \<in> set (calls c')" for b
    using pending_called [OF dial.hyps(6)] queue_pending [OF dial.hyps(7)] dial by (metis UnCI set_append)
  ultimately show ?case using dial.IH scan_trace_append client_trace.step by metis
qed

section \<open>Progress\<close>

lemma outside_wants: "by_client oper \<or> by_radio oper \<Longrightarrow> client_wants oper"
  by (cases oper) (simp_all add: client_wants_def)

lemma outside_frame:
  assumes "scan_step start stop env s oper s'" and "by_client oper \<or> by_radio oper"
  shows "queue_pc s' = queue_pc s" "initialized s \<Longrightarrow> initialized s'"
proof -
  have "queue_pc s' = queue_pc s \<and> (initialized s \<longrightarrow> initialized s')"
    using assms(1)
  proof cases
    case rx
    then show ?thesis using rx_frame(3,5) by metis
  qed (use assms(2) in \<open>auto simp: simple_steps split: if_splits\<close>)
  then show "queue_pc s' = queue_pc s" "initialized s \<Longrightarrow> initialized s'" by auto
qed

lemma trace_outside:
  assumes "scan_trace start stop env s ops s'" and "\<forall>oper \<in> set ops. by_client oper \<or> by_radio oper"
    and "request_inv s"
  shows "queue_pc s' = queue_pc s \<and> request_inv s' \<and> (initialized s \<longrightarrow> initialized s') \<and>
    (keeps_trying s \<longrightarrow> keeps_trying s') \<and>
    (Refresh \<in> set ops \<and> initialized s \<and> queue_pc s = QIdle \<longrightarrow> keeps_trying s')"
  using assms(1,2)
proof induction
  case here
  then show ?case using assms(3) by simp
next
  case (more ops s1 oper s2)
  then have out: "by_client oper \<or> by_radio oper" and ih: "queue_pc s1 = queue_pc s" "request_inv s1"
      "initialized s \<longrightarrow> initialized s1" "keeps_trying s \<longrightarrow> keeps_trying s1"
      "Refresh \<in> set ops \<and> initialized s \<and> queue_pc s = QIdle \<longrightarrow> keeps_trying s1"
    by auto
  note frame = outside_frame [OF more.hyps(2) out] request_inv_step [OF more.hyps(2) ih(2)]
  have keeps: "keeps_trying s1 \<longrightarrow> keeps_trying s2"
    using keeps_trying_step [OF more.hyps(2) _ outside_wants [OF out] ih(2)] by blast
  have "keeps_trying s2" if "oper = Refresh" "initialized s" "queue_pc s = QIdle"
    using more.hyps(2) that ih(1,3) by (auto simp: keeps_trying_def zmk_ble_central_scan_refresh_def elim: scan_stepE)
  then show ?case using ih frame keeps by auto
qed

text \<open>The client starts to want a scan only in a work item that asks for it.\<close>

lemma wants_retry: "\<exists>xs. calls (retry_work_cb H st) = Scan_Refresh # xs @ calls st"
  by (simp add: retry_work_cb_def Let_def)

lemma wants_security: "scan_wanted (start_security H c st) \<Longrightarrow> scan_wanted st"
  by (cases rule: security_cases [of H c st]) simp

lemma wants_connected: "scan_wanted (connected_work_cb H st) \<Longrightarrow> scan_wanted st"
  using wants_security [of H _ "complete_connection H c (take_event st)" for c]
  by (auto simp: connected_work_cb_def complete_connection_def after_close_def Let_def split: option.splits if_splits)

lemma wants_disconnected: "scan_wanted (disconnected_work_cb H st) \<Longrightarrow> scan_wanted st"
  by (auto simp: disconnected_work_cb_def after_close_def split: option.splits)

lemma wants_failure: "\<not> scan_wanted (failure_work_cb H st)"
proof (cases "mouse_conn st")
  case None
  then show ?thesis by (simp add: failure_work_cb_def Let_def)
next
  case (Some c)
  define q where "q = log_call (Disconnect_Conn c) (st\<lparr>stage := CLOSING, scan_wanted := False\<rparr>)"
  have "\<not> scan_wanted q" by (simp add: q_def)
  then show ?thesis using Some wants_disconnected [of H q]
    by (auto simp: failure_work_cb_def perform_eq Let_def simp flip: q_def)
qed

lemma wants_run:
  assumes "link_inv st" and "scan_wanted (run_work H w st)" and "\<not> scan_wanted st"
  shows "\<exists>xs. calls (run_work H w st) = Scan_Refresh # xs @ calls st"
proof -
  let ?st = "log_call (Ran w) st"
  have more: "\<exists>xs. calls (retry_work_cb H q) = Scan_Refresh # xs @ calls st" if "calls q = ys @ calls st" for q ys
    using wants_retry [of H q] that by auto
  show ?thesis
  proof (cases w)
    case DISCOVERY_WORK
    show ?thesis
    proof (cases "mouse_conn st = None")
      case True
      then show ?thesis using assms(2,3) DISCOVERY_WORK by (simp add: run_work_def discovery_rest active_def)
    next
      case False
      then have "mouse_conn (discovery_work_cb H ?st) \<noteq> None" using assms(1) by (intro discovery_conn) simp_all
      moreover have "link_inv (discovery_work_cb H ?st)" using assms(1) by (intro link_discovery) simp
      ultimately show ?thesis using assms(2) DISCOVERY_WORK by (auto simp: run_work_def link_inv_def)
    qed
  next
    case RETRY_WORK
    then show ?thesis using more [of ?st "[Ran w]"] by (simp add: run_work_def)
  next
    case PAIR_TIMEOUT
    let ?q = "if mouse_conn st \<noteq> None \<and> new_candidate st \<and> stage st \<noteq> READY
      then fail (Err ETIMEDOUT) (?st\<lparr>pairing := False\<rparr>) else ?st\<lparr>pairing := False\<rparr>"
    have "\<exists>ys. calls ?q = ys @ calls st" by (auto intro: exI [of _ "[Submit FAILURE_WORK, Ran w]"] exI [of _ "[Ran w]"])
    then show ?thesis using PAIR_TIMEOUT more [of ?q] by (auto simp: run_work_def pair_timeout_cb_def Let_def)
  next
    case PAIR_WORK
    show ?thesis
    proof (cases "mouse_conn st \<noteq> None \<or> \<not> have_peer st \<and> max_paired H \<le> bond_count H ?st")
      case True
      then show ?thesis using assms(2,3) PAIR_WORK by (auto simp: run_work_def pair_work_cb_def Let_def split: if_splits)
    next
      case False
      then show ?thesis using PAIR_WORK more [of "?st\<lparr>retry_ms := 1000\<rparr>" "[Ran w]"]
          more [of "schedule PAIR_TIMEOUT PAIR_TIME_MS (?st\<lparr>pairing := True, retry_ms := 1000\<rparr>)" "[Schedule PAIR_TIMEOUT PAIR_TIME_MS, Ran w]"]
        by (auto simp: run_work_def pair_work_cb_def Let_def)
    qed
  next
    case CLEAR_WORK
    then show ?thesis using assms(2,3) by (auto simp: run_work_def clear_work_cb_def Let_def split: if_splits)
  qed (use assms(2,3) wants_connected [of H ?st] wants_disconnected [of H ?st] wants_failure [of H ?st] in
      \<open>auto simp: run_work_def timeout_work_cb_def Let_def split: if_splits\<close>)
qed

lemma wants_replies:
  "discover_cb conn attr st = (it, st') \<Longrightarrow> scan_wanted st' = scan_wanted st"
  "read_cb conn x data st = (it, st') \<Longrightarrow> scan_wanted st' = scan_wanted st"
  "notify_cb conn i data st = (it, st') \<Longrightarrow> scan_wanted st' = scan_wanted st"
  "scan_wanted (written_cb conn x st) = scan_wanted st" "scan_wanted (subscribed_cb conn x i st) = scan_wanted st"
  using discover_link read_link notify_link written_link subscribed_link unfolding same_link_def by metis+

lemma wants_connect: "connect_mouse H a st = (e, st') \<Longrightarrow> scan_wanted st' \<Longrightarrow> scan_wanted st \<and> e \<noteq> ok"
  by (cases rule: connect_cases) (auto simp: open_session_def)

lemma wants_step:
  assumes "client_step H st oper st'" and "link_inv st" and "scan_wanted st'" and "\<not> scan_wanted st"
  shows "(\<exists>w. oper = Run w) \<and> (\<exists>xs. calls st' = Scan_Refresh # xs @ calls st)"
  using assms(1)
proof cases
  case (run w)
  then show ?thesis using wants_run [OF assms(2)] assms(3,4) by simp
next
  case (connect a e)
  then show ?thesis using wants_connect assms(3,4) by blast
next
  case (advertisement a ty ad b)
  then show ?thesis using assms(3,4) by (simp add: zmk_ble_mouse_advertisement_def)
next
  case (stored_peer name len rd e)
  then show ?thesis using assms(3,4) by (auto simp: settings_set_def Let_def split: if_splits sum.splits)
next
  case (start e)
  then show ?thesis using assms(3,4) by (auto simp: zmk_ble_mouse_start_def split: if_splits)
next
  case (key_pressed k e)
  then show ?thesis using assms(3,4)
    by (auto simp: pressed_def zmk_ble_mouse_pair_def zmk_ble_mouse_clear_hold_def Let_def split: if_splits)
next
  case (key_released k e)
  then show ?thesis using assms(3,4) by (auto simp: released_def zmk_ble_mouse_clear_hold_def Let_def split: if_splits)
qed (use assms(3,4) in \<open>auto simp: wants_replies(4,5) connected_cb_def disconnected_cb_def security_cb_def
    pairing_complete_cb_def pairing_failed_cb_def Let_def dest!: wants_replies(1-3) split: if_splits\<close>)

lemma joint_invs:
  assumes "joint_trace start stop env H w sops cops s c"
  shows "request_inv s" "link_inv c" "retry_inv H c"
proof -
  have t: "scan_trace start stop env (scan_boot w) sops s" "client_trace H cops c" using joint_halves [OF assms] by auto
  show "request_inv s" using request_inv_trace [OF t(1) boot_invs(2)] .
  show "link_inv c" using client_inv_trace [OF t(2)] by (simp add: client_inv_def)
  show "retry_inv H c" using retry_inv_trace [OF t(2)] .
qed

text \<open>While the client wants a scan, the coordinator keeps trying.\<close>

lemma joint_wants:
  assumes "joint_trace start stop env H w sops cops s c"
  shows "scan_wanted c \<longrightarrow> keeps_trying s"
  using assms
proof induction
  case boot
  then show ?case by (simp add: client_boot_def)
next
  case (client sops cops s c oper c' new ops s')
  have ops: "scan_trace start stop env s ops s'" "filter by_client ops = scan_calls new"
      "\<forall>oper \<in> set ops. by_client oper \<or> by_radio oper"
    using client.hyps(6) by (simp_all add: carries_out_def)
  note out = trace_outside [OF ops(1,3) joint_invs(1) [OF client.hyps(1)]]
  have "keeps_trying s'" if wants: "scan_wanted c'" "\<not> scan_wanted c"
  proof -
    obtain item xs where w: "oper = Run item" "calls c' = Scan_Refresh # xs @ calls c"
      using wants_step [OF client.hyps(2) joint_invs(2) [OF client.hyps(1)] wants] by blast
    then have "new = Scan_Refresh # xs" using client.hyps(5) by simp
    then have "Refresh \<in> set (filter by_client ops)" using ops(2) by simp
    then show ?thesis using w(1) client.hyps(4) out by simp
  qed
  then show ?case using client.IH out by blast
next
  case (scanner sops cops s c oper s')
  have "client_wants oper" using scanner.hyps(3) outside_wants by (auto simp: client_wants_def)
  then show ?case using scanner.IH keeps_trying_step [OF scanner.hyps(2)] joint_invs(1) [OF scanner.hyps(1)] by blast
next
  case (queue sops cops s c ts s')
  then show ?case
    using keeps_trying_step [OF scan_step.queue [OF queue.hyps(3)]] joint_invs(1) [OF queue.hyps(1)]
    by (auto simp: client_wants_def zmk_ble_mouse_wants_scan_def)
next
  case (dial sops cops s c a e c' new ops s1 ts s')
  have ops: "scan_trace start stop env s ops s1" "\<forall>oper \<in> set ops. by_client oper \<or> by_radio oper"
    using dial.hyps(6) by (simp_all add: carries_out_def)
  note out = trace_outside [OF ops joint_invs(1) [OF dial.hyps(1)]]
  show ?case
  proof
    assume "scan_wanted c'"
    then have "scan_wanted c" "e \<noteq> ok" using wants_connect [OF dial.hyps(4)] by auto
    then have "client_wants (QueueStep True ts e)" "keeps_trying s1" "request_inv s1"
      using dial.IH out by (auto simp: client_wants_def)
    then show "keeps_trying s'" using keeps_trying_step [OF scan_step.queue [OF dial.hyps(7)]] by blast
  qed
qed


section \<open>A run of the two\<close>

lemma all_by_client: "\<forall>oper \<in> set (scan_calls new). by_client oper"
proof (induction new)
  case (Cons x new)
  then show ?case by (cases x) auto
qed simp

lemma joint_client:
  assumes "joint_trace start stop env H w sops cops s c" and "client_exec H c oper = Some c'" and "\<forall>a. oper \<noteq> Connect a"
    and "\<forall>item. oper = Run item \<longrightarrow> initialized s \<and> queue_pc s = QIdle"
    and "calls c' = new @ calls c" and "scan_run start stop (scan_calls new) s = Some s'"
  shows "joint_trace start stop env H w (sops @ scan_calls new) (cops @ [oper]) s' c'"
proof (rule joint_trace.client [OF assms(1) client_exec_step [OF assms(2)] assms(3-5)])
  show "carries_out start stop env new (scan_calls new) s s'"
    using all_by_client [of new] scan_run_trace [OF assms(6)] by (auto simp: carries_out_def filter_id_conv)
qed

abbreviation fake_joint where
  "fake_joint \<equiv> joint_trace (fake_scan_start OUR_SCAN) fake_scan_stop fake_others"

definition pairing_scanner :: "nat option \<Rightarrow> queue_pc \<Rightarrow> bool \<Rightarrow> fake_radio \<Rightarrow> (bt_addr_le, fake_radio) scanner" where
  "pairing_scanner due pc owned r = \<lparr>registered = True, initialized = True, connecting = False, scan_owned = owned,
     split_settling = False, pending_address = None, scan_due = due, settle_due = None,
     connect_submitted = False, queue_pc = pc, rx_pc = RIdle, radio = r\<rparr>"

definition our_radio :: fake_radio where
  "our_radio = \<lparr>fake_scan_active = True, fake_scan_callback = Some OUR_SCAN\<rparr>"

lemma joint_pairing:
  "\<exists>sops. fake_joint m720_host quiet_radio sops [Start, Run RETRY_WORK, Key_Pressed MOUSE_PAIR, Run PAIR_WORK]
     (pairing_scanner (Some 0) QIdle False quiet_radio) pairing_state"
proof -
  define c1 :: "nat client" where
    "c1 = client_boot\<lparr>started := True, calls := [Schedule RETRY_WORK 0, Scan_Init, Register_Callbacks]\<rparr>"
  define c2 where "c2 = c1\<lparr>calls := Scan_Refresh # Ran RETRY_WORK # calls c1\<rparr>"
  define c3 where "c3 = c2\<lparr>calls := Submit PAIR_WORK # calls c2\<rparr>"
  have exec: "client_exec m720_host client_boot Start = Some c1" "client_exec m720_host c1 (Run RETRY_WORK) = Some c2"
    "client_exec m720_host c2 (Key_Pressed MOUSE_PAIR) = Some c3" "client_exec m720_host c3 (Run PAIR_WORK) = Some pairing_state"
    by (simp_all add: c1_def c2_def c3_def client_boot_def m720_host_def client_code pairing_state_def pairing_calls_def
        no_advertiser_def Let_def)
  have new: "calls c1 = [Schedule RETRY_WORK 0, Scan_Init, Register_Callbacks] @ calls (client_boot :: nat client)"
    "calls c2 = [Scan_Refresh, Ran RETRY_WORK] @ calls c1" "calls c3 = [Submit PAIR_WORK] @ calls c2"
    "calls pairing_state = [Scan_Refresh, Schedule PAIR_TIMEOUT 60000, Ran PAIR_WORK] @ calls c3"
    by (simp_all add: c1_def c2_def c3_def client_boot_def pairing_state_def pairing_calls_def)
  note code = scan_exec_def scan_boot_def scan_init_register_def scan_init_finish_def zmk_ble_central_scan_refresh_def
    schedule_scan_def pairing_scanner_def
  have "fake_joint m720_host quiet_radio [] [] (scan_boot quiet_radio) client_boot" by (rule joint_trace.boot)
  from joint_client [OF this exec(1) _ _ new(1), of "pairing_scanner None QIdle False quiet_radio"]
  have "\<exists>sops. fake_joint m720_host quiet_radio sops [Start] (pairing_scanner None QIdle False quiet_radio) c1"
    by (auto simp: code)
  then obtain sops where "fake_joint m720_host quiet_radio sops [Start] (pairing_scanner None QIdle False quiet_radio) c1" ..
  from joint_client [OF this exec(2) _ _ new(2), of "pairing_scanner (Some 0) QIdle False quiet_radio"]
  have "\<exists>sops. fake_joint m720_host quiet_radio sops [Start, Run RETRY_WORK] (pairing_scanner (Some 0) QIdle False quiet_radio) c2"
    by (auto simp: code)
  then obtain sops where "fake_joint m720_host quiet_radio sops [Start, Run RETRY_WORK] (pairing_scanner (Some 0) QIdle False quiet_radio) c2" ..
  from joint_client [OF this exec(3) _ _ new(3), of "pairing_scanner (Some 0) QIdle False quiet_radio"]
  have "fake_joint m720_host quiet_radio sops [Start, Run RETRY_WORK, Key_Pressed MOUSE_PAIR]
      (pairing_scanner (Some 0) QIdle False quiet_radio) c3"
    by simp
  from joint_client [OF this exec(4) _ _ new(4), of "pairing_scanner (Some 0) QIdle False quiet_radio"]
  show ?thesis by (auto simp: code)
qed

lemma joint_queue:
  assumes "fake_joint H w sops cops s c" and "queue_pc s \<noteq> QDial" and "scan_wanted c"
    and "queue_step (fake_scan_start OUR_SCAN) fake_scan_stop True ts (Err EIO) s = Some s'"
  shows "\<exists>sops. fake_joint H w sops cops s' c"
  using joint_trace.queue [OF assms(1,2), of ts s'] assms(3,4) by (auto simp: zmk_ble_mouse_wants_scan_def)

lemma joint_scanning:
  "\<exists>sops. fake_joint m720_host quiet_radio sops [Start, Run RETRY_WORK, Key_Pressed MOUSE_PAIR, Run PAIR_WORK]
     (pairing_scanner None QIdle True our_radio) pairing_state" (is "\<exists>sops. ?joint sops None QIdle True our_radio")
proof -
  have wants: "scan_wanted pairing_state" by (simp add: pairing_state_def)
  have step: "\<exists>sops. ?joint sops None pc' owned' r'"
    if "\<exists>sops. ?joint sops None pc owned r" and "pc \<noteq> QDial"
      and "queue_step (fake_scan_start OUR_SCAN) fake_scan_stop True split_up (Err EIO) (pairing_scanner None pc owned r) =
        Some (pairing_scanner None pc' owned' r')" for pc owned r pc' owned' r'
    using that joint_queue [OF _ _ wants] by (metis pairing_scanner_def scanner.select_convs(10))
  obtain sops where "?joint sops (Some 0) QIdle False quiet_radio" using joint_pairing ..
  from joint_trace.scanner [OF this scan_step.scan_work, of "pairing_scanner None QScan False quiet_radio"]
  have "\<exists>sops. ?joint sops None QScan False quiet_radio" by (auto simp: take_scan_def pairing_scanner_def)
  from step [OF this, of QDecide False quiet_radio] have "\<exists>sops. ?joint sops None QDecide False quiet_radio"
    by (simp add: queue_step_def pairing_scanner_def)
  from step [OF this, of QOwned False quiet_radio] have "\<exists>sops. ?joint sops None QOwned False quiet_radio"
    by (simp add: queue_step_def pairing_scanner_def split_up_def split_ready_def)
  from step [OF this, of QStarted False our_radio] have "\<exists>sops. ?joint sops None QStarted False our_radio"
    by (simp add: queue_step_def pairing_scanner_def fake_scan_start_def quiet_radio_def our_radio_def Let_def)
  from step [OF this, of QRecheck True our_radio] have "\<exists>sops. ?joint sops None QRecheck True our_radio"
    by (simp add: queue_step_def pairing_scanner_def)
  from step [OF this, of QIdle True our_radio] show ?thesis
    by (simp add: queue_step_def pairing_scanner_def split_up_def split_ready_def)
qed


text \<open>C10: The radio is only asked to connect to addresses the user could mean. In every run of the two, an open
  connection request is for one address that the client asked for, which advertised itself connectably
  and under the name of an M720, or was stored or registered before; and it is at that address that
  the client, when its turn comes, opens the connection.\<close>

theorem dials_selected:
  assumes "joint_trace start stop env H w sops cops s c" and "connecting s"
  shows "\<exists>a. pending_address s = Some a \<and> Central_Connect a \<in> set (calls c) \<and> selected cops (calls c) a \<and>
    (\<forall>e c'. connect_mouse H a c = (e, c') \<longrightarrow> mouse_conn c \<noteq> mouse_conn c' \<longrightarrow> connecting_address c' = a)"
proof -
  have "client_trace H cops c" and asked: "\<forall>a. pending_address s = Some a \<longrightarrow> Central_Connect a \<in> set (calls c)"
    using joint_halves [OF assms(1)] by auto
  then have "origin_inv cops c" using origin_inv_trace by blast
  moreover obtain a where "pending_address s = Some a"
    using assms(2) joint_invs(1) [OF assms(1)] by (auto simp: request_inv_def)
  moreover have "connecting_address c' = a" if "connect_mouse H a c = (e, c')" "mouse_conn c \<noteq> mouse_conn c'" for e c'
    using that(1) by (cases rule: connect_cases) (use that(2) in \<open>auto simp: open_session_def\<close>)
  ultimately show ?thesis using asked by (auto simp: origin_inv_def)
qed

text \<open>The mouse advertises itself, and the client asks for a connection.\<close>

definition asking_scanner :: "(bt_addr_le, fake_radio) scanner" where
  "asking_scanner = (pairing_scanner None QIdle True our_radio)
     \<lparr>connecting := True, pending_address := Some mouse_addr, connect_submitted := True\<rparr>"

definition found_ops :: "nat client_op list" where
  "found_ops = [Start, Run RETRY_WORK, Key_Pressed MOUSE_PAIR, Run PAIR_WORK,
     Advertisement mouse_addr ADV_IND [(BT_DATA_NAME_COMPLETE, [0x4d, 0x37, 0x32, 0x30, 0x20])]]"

lemma joint_found: "\<exists>sops. fake_joint m720_host quiet_radio sops found_ops asking_scanner found_state"
proof -
  obtain sops where run: "fake_joint m720_host quiet_radio sops [Start, Run RETRY_WORK, Key_Pressed MOUSE_PAIR, Run PAIR_WORK]
     (pairing_scanner None QIdle True our_radio) pairing_state" using joint_scanning ..
  have "uptime m720_host cs = 5000" for cs by (simp add: m720_host_def)
  then have exec: "client_exec m720_host pairing_state
      (Advertisement mouse_addr ADV_IND [(BT_DATA_NAME_COMPLETE, [0x4d, 0x37, 0x32, 0x30, 0x20])]) = Some found_state"
    by (simp add: zmk_ble_mouse_advertisement_def pairing_state_def note_mouse Let_def)
      (simp add: found_state_def pairing_state_def mouse_advertiser_def log_call_def)
  have new: "calls found_state = [Central_Connect mouse_addr] @ calls pairing_state"
    by (simp add: found_state_def pairing_state_def)
  from joint_client [OF run exec _ _ new, of asking_scanner] show ?thesis
    by (auto simp: scan_exec_def zmk_ble_central_connect_def submit_connect_def asking_scanner_def pairing_scanner_def found_ops_def)
qed

theorem dials_selected_witness: "selected found_ops (calls found_state) mouse_addr"
proof -
  obtain sops where run: "fake_joint m720_host quiet_radio sops found_ops asking_scanner found_state" using joint_found ..
  have "connecting asking_scanner" "pending_address asking_scanner = Some mouse_addr" by (simp_all add: asking_scanner_def)
  then show ?thesis using dials_selected [OF run] by auto
qed

end
